(* ===== verification/Prelude.thy ===== *)
theory Prelude
  imports Main "HOL-Library.Word" "HOL-Library.Code_Target_Numeral"
begin

text \<open>
  Shared vocabulary of the development: the machine types of the C++ code, the faults a
  handler can end in, unsigned 32-bit arithmetic written out on natural numbers, little
  endian fields, the checksum sum, and lemmas on lists and words that several components
  use. Lemmas that only rewrite are declared \<open>[simp]\<close>; the collections below are unfolded
  by name.
\<close>

unbundle bit_operations_syntax

type_synonym byte = "8 word"
type_synonym u16 = "16 word"
type_synonym u32 = "32 word"

named_theorems field_defs
  \<open>the little-endian field readers and writers of the packet formats\<close>

named_theorems enum_defs
  \<open>the values of the enumerations and numeric constants of the sources\<close>

text \<open>
  What can go wrong inside a handler: a failed \<open>nl_assert\<close> (which aborts the program), an
  access outside an array, through a null pointer, or to an object that no longer exists
  (undefined behaviour in C++).
\<close>

datatype fault = Assert_failed | Out_of_bounds | Null_pointer | Freed_object

text \<open>
  A handler that may fault returns \<open>fault + 'a\<close>; a handler whose loop may not end returns
  an option of that.
\<close>

definition bind_sum :: "'e + 'a \<Rightarrow> ('a \<Rightarrow> 'e + 'b) \<Rightarrow> 'e + 'b" where
  "bind_sum m f = (case m of Inl e \<Rightarrow> Inl e | Inr x \<Rightarrow> f x)"

lemma bind_sum_simps [simp]:
  "bind_sum (Inl e) f = Inl e"
  "bind_sum (Inr x) f = f x"
  by (simp_all add: bind_sum_def)

lemma bind_sum_Inr_iff: "bind_sum m f = Inr y \<longleftrightarrow> (\<exists>x. m = Inr x \<and> f x = Inr y)"
  by (cases m) auto

lemma bind_sum_Inl_iff:
  "bind_sum m f = Inl e \<longleftrightarrow> m = Inl e \<or> (\<exists>x. m = Inr x \<and> f x = Inl e)"
  by (cases m) auto

subsection \<open>uint32_t arithmetic on natural numbers\<close>

definition add32 :: "nat \<Rightarrow> nat \<Rightarrow> nat" where
  "add32 a b = (a + b) mod 2 ^ 32"

definition sub32 :: "nat \<Rightarrow> nat \<Rightarrow> nat" where
  "sub32 a b = nat ((int a - int b) mod 2 ^ 32)"

lemma add32_exact: "a + b < 2 ^ 32 \<Longrightarrow> add32 a b = a + b"
  by (simp add: add32_def)

lemma sub32_exact: "b \<le> a \<Longrightarrow> a < 2 ^ 32 \<Longrightarrow> sub32 a b = a - b"
  by (simp add: sub32_def flip: of_nat_diff)

lemma sub32_wraps:
  assumes "a < b" and "b < 2 ^ 32"
  shows "sub32 a b = 2 ^ 32 - (b - a)"
proof -
  have "(int a - int b) mod 2 ^ 32 = (int a - int b + 2 ^ 32) mod 2 ^ 32"
    by simp
  also have "\<dots> = int a - int b + 2 ^ 32"
    using assms by (intro mod_pos_pos_trivial) auto
  finally show ?thesis
    using assms by (simp add: sub32_def)
qed

lemma add32_add32: "add32 (add32 a b) c = add32 a (b + c)"
  by (simp add: add32_def mod_add_left_eq add.assoc)

lemma add32_less [simp]: "add32 a b < 4294967296"
  by (simp add: add32_def)

lemma sub32_less [simp]: "sub32 a b < 4294967296"
  by (simp add: sub32_def nat_less_iff)

subsection \<open>Little-endian fields\<close>

definition le16 :: "byte \<Rightarrow> byte \<Rightarrow> u16" where
  "le16 b0 b1 = ucast b0 + push_bit 8 (ucast b1)"

definition le32 :: "byte \<Rightarrow> byte \<Rightarrow> byte \<Rightarrow> byte \<Rightarrow> u32" where
  "le32 b0 b1 b2 b3 =
     ucast b0 + push_bit 8 (ucast b1) + push_bit 16 (ucast b2) + push_bit 24 (ucast b3)"

lemma unat_le16: "unat (le16 b0 b1) = unat b0 + 256 * unat b1"
proof -
  have b: "unat b0 < 256" "unat b1 < 256"
    using unsigned_less [of b0, where ?'a = nat] unsigned_less [of b1, where ?'a = nat] by simp_all
  have "unat (push_bit 8 (ucast b1 :: u16)) = 256 * unat b1"
    using b
    by (simp add: push_bit_eq_mult unat_word_ariths unsigned_ucast_eq take_bit_eq_mod)
  then show ?thesis
    using b by (simp add: le16_def unat_word_ariths unsigned_ucast_eq take_bit_eq_mod)
qed

subsection \<open>Checksums\<close>

lemma sum_list_update_byte:
  fixes xs :: "byte list"
  assumes "i < length xs"
  shows "sum_list (xs[i := b]) = sum_list xs - xs ! i + b"
  using assms
  by (induction xs arbitrary: i) (auto simp: nth_Cons split: nat.splits)

lemma sum_list_update_neq:
  fixes xs :: "byte list"
  assumes "i < length xs" and "b \<noteq> xs ! i"
  shows "sum_list (xs[i := b]) \<noteq> sum_list xs"
  using assms by (simp add: sum_list_update_byte)

subsection \<open>Lists\<close>

lemma take_append_drop_take: "n \<le> m \<Longrightarrow> take n xs @ take (m - n) (drop n xs) = take m xs"
  by (metis le_add_diff_inverse take_add)

lemma drop_take_drop: "m \<le> n \<Longrightarrow> drop m (take n xs) = take (n - m) (drop m xs)"
  by (simp add: drop_take)

lemma length_eq_4_conv: "length xs = 4 \<longleftrightarrow> (\<exists>a b c d. xs = [a, b, c, d])"
  by (auto simp: length_Suc_conv numeral_eq_Suc)

end
