(* ===== verification/EventLoop.thy ===== *)
theory EventLoop
  imports Prelude
begin

text \<open>
  The event loop that every program runs: what can come next is a set of enabled events, and the
  handler of an event changes the state of the program, faults, or does not return. Two interfaces
  are stated over it: a simulation of a specification that follows the events, and, as the case
  of a specification without a state, an invariant. A program provides the law of one event; what
  holds after any run, and that the next handler returns, follow once for all of them.
\<close>

inductive runs ::
  "('e \<Rightarrow> 's \<Rightarrow> bool) \<Rightarrow> ('e \<Rightarrow> 's \<Rightarrow> (fault + 's) option) \<Rightarrow> 's \<Rightarrow> 'e list \<Rightarrow> 's \<Rightarrow> bool"
  for enabled handle p where
  stop: "runs enabled handle p [] p"
| go: "runs enabled handle p es q \<Longrightarrow> enabled e q \<Longrightarrow> handle e q = Some (Inr q') \<Longrightarrow>
     runs enabled handle p (es @ [e]) q'"

lemma runs_one: "enabled e p \<Longrightarrow> handle e p = Some (Inr q) \<Longrightarrow> runs enabled handle p [e] q"
  using runs.go [OF runs.stop, of enabled e p handle q] by simp

lemma runs_only:
  "runs enabled handle p es q \<Longrightarrow> \<forall>e \<in> set es. P e \<Longrightarrow> runs (\<lambda>e p. P e \<and> enabled e p) handle p es q"
proof (induction rule: runs.induct)
  case stop
  then show ?case by (simp add: runs.stop)
next
  case (go es q e q')
  then show ?case by (simp add: runs.go)
qed

text \<open>The result of a handler: it returns, with a fault that is allowed or a state as wanted.\<close>

definition returns :: "(fault + 's) option \<Rightarrow> (fault \<Rightarrow> bool) \<Rightarrow> ('s \<Rightarrow> bool) \<Rightarrow> bool" where
  "returns res may_fault good \<longleftrightarrow>
     (\<exists>r. res = Some r \<and> (case r of Inl f \<Rightarrow> may_fault f | Inr p \<Rightarrow> good p))"

lemma returns_iff:
  "returns res may_fault good \<longleftrightarrow>
     (\<exists>f. res = Some (Inl f) \<and> may_fault f) \<or> (\<exists>p. res = Some (Inr p) \<and> good p)"
proof
  assume "returns res may_fault good"
  then obtain r where "res = Some r" "case r of Inl f \<Rightarrow> may_fault f | Inr p \<Rightarrow> good p"
    by (auto simp: returns_def)
  then show "(\<exists>f. res = Some (Inl f) \<and> may_fault f) \<or> (\<exists>p. res = Some (Inr p) \<and> good p)"
    by (cases r) auto
qed (auto simp: returns_def)

lemma returns_no_fault [simp]:
  "returns res (\<lambda>_. False) good \<longleftrightarrow> (\<exists>p. res = Some (Inr p) \<and> good p)"
  by (simp add: returns_iff)

text \<open>Or, where a handler may run for ever, it does not return.\<close>

definition outcome ::
  "bool \<Rightarrow> (fault + 's) option \<Rightarrow> (fault \<Rightarrow> bool) \<Rightarrow> ('s \<Rightarrow> bool) \<Rightarrow> bool" where
  "outcome may_hang res may_fault good \<longleftrightarrow> may_hang \<and> res = None \<or> returns res may_fault good"

lemma outcome_no_hang [simp]: "outcome False res may_fault good = returns res may_fault good"
  by (simp add: outcome_def)

lemma outcome_good: "outcome may_hang (Some (Inr p)) may_fault good \<Longrightarrow> good p"
  by (simp add: outcome_def returns_iff)

locale loop_simulation =
  fixes enabled :: "'e \<Rightarrow> 's \<Rightarrow> bool" and handle :: "'e \<Rightarrow> 's \<Rightarrow> (fault + 's) option"
    and spec :: "'e \<Rightarrow> 'a \<Rightarrow> 'a" and rel :: "'a \<Rightarrow> 's \<Rightarrow> bool"
    and may_hang :: "'e \<Rightarrow> 's \<Rightarrow> bool" and may_fault :: "'e \<Rightarrow> 's \<Rightarrow> fault \<Rightarrow> bool"
  assumes handled: "rel a p \<Longrightarrow> enabled e p \<Longrightarrow>
    outcome (may_hang e p) (handle e p) (may_fault e p) (rel (spec e a))"
begin

lemma run_related: "runs enabled handle p es q \<Longrightarrow> rel a p \<Longrightarrow> rel (fold spec es a) q"
proof (induction rule: runs.induct)
  case (go es q e q')
  then show ?case using handled [of "fold spec es a" q e] by (auto dest: outcome_good)
qed simp

lemma next_returns:
  "runs enabled handle p es q \<Longrightarrow> rel a p \<Longrightarrow> enabled e q \<Longrightarrow>
   outcome (may_hang e q) (handle e q) (may_fault e q) (rel (fold spec (es @ [e]) a))"
  using handled [OF run_related] by simp

end

locale loop_invariant =
  fixes enabled :: "'e \<Rightarrow> 's \<Rightarrow> bool" and handle :: "'e \<Rightarrow> 's \<Rightarrow> (fault + 's) option"
    and inv :: "'s \<Rightarrow> bool"
    and may_hang :: "'e \<Rightarrow> 's \<Rightarrow> bool" and may_fault :: "'e \<Rightarrow> 's \<Rightarrow> fault \<Rightarrow> bool"
  assumes kept: "inv p \<Longrightarrow> enabled e p \<Longrightarrow> outcome (may_hang e p) (handle e p) (may_fault e p) inv"

sublocale loop_invariant \<subseteq> stateless: loop_simulation enabled handle "\<lambda>e a. a" "\<lambda>a :: unit. inv"
    may_hang may_fault
  by unfold_locales (rule kept)

context loop_invariant
begin

lemma run_inv: "runs enabled handle p es q \<Longrightarrow> inv p \<Longrightarrow> inv q"
  by (rule stateless.run_related)

lemma next_kept:
  "runs enabled handle p es q \<Longrightarrow> inv p \<Longrightarrow> enabled e q \<Longrightarrow>
   outcome (may_hang e q) (handle e q) (may_fault e q) inv"
  by (rule stateless.next_returns)

end

end
