(* ===== verification/XioPacket.thy ===== *)
theory XioPacket
  imports Prelude
begin

text \<open>
  The Xiomas/Harvard gateway packet header: \<open>Xiomas/XioHarvGatewayPacket.h\<close> (structure and
  enumerations) and \<open>Xiomas/XioHarvGatewayPacket.cpp\<close> (the \<open>xhg\<close> functions). The structure
  is a record whose array fields are byte lists of length four; \<open>hdr_bytes\<close> and
  \<open>hdr_of_bytes\<close> are its memory image and the cast of a buffer to it.
\<close>

section \<open>Data\<close>

record xio_header =
  m_aStart :: "byte list"
  m_uPacketID :: byte
  m_uSource :: byte
  m_uLRC :: byte
  m_uFlags :: byte
  m_aPayloadLength :: "byte list"
  m_aBlockCount :: "byte list"

definition xio_header_size :: nat where
  "xio_header_size = 16"

definition XioHarPacketStart :: "byte list" where
  "XioHarPacketStart = [0x24, 0x50, 0x4B, 0x54]"

definition XioHarMaxPayloadLength :: nat where
  "XioHarMaxPayloadLength = 511 - xio_header_size"

text \<open>\<open>enum EXHPacketIDs\<close>; the two limits follow the enumerator before them.\<close>

definition xhpidReserved :: nat where "xhpidReserved = 0"
definition xhpidGWControl :: nat where "xhpidGWControl = 1"
definition xhpidXioCommand :: nat where "xhpidXioCommand = 2"
definition xhpidXioStatus :: nat where "xhpidXioStatus = 3"
definition xhpidPacketLimit :: nat where "xhpidPacketLimit = xhpidXioStatus + 1"
definition xhpidFireLayer :: nat where "xhpidFireLayer = 0x81"
definition xhpidMWBand :: nat where "xhpidMWBand = 0x82"
definition xhpidLWBand :: nat where "xhpidLWBand = 0x83"
definition xhpidStreamLimit :: nat where "xhpidStreamLimit = xhpidLWBand + 1"

text \<open>\<open>enum EXHPacketSources\<close>\<close>

definition xhsrcReserved :: nat where "xhsrcReserved = 0"
definition xhsrcGateway :: nat where "xhsrcGateway = 1"
definition xhsrcScanner :: nat where "xhsrcScanner = 2"
definition xhsrcOPU :: nat where "xhsrcOPU = 3"
definition xhsrcOnboardLimit :: nat where "xhsrcOnboardLimit = xhsrcOPU + 1"
definition xhsrcHavardServer :: nat where "xhsrcHavardServer = 8"
definition xhsrcXiomasContol :: nat where "xhsrcXiomasContol = 9"
definition xhsrcRemoteLimit :: nat where "xhsrcRemoteLimit = xhsrcXiomasContol + 1"

text \<open>\<open>enum EXHPacketFlags\<close> and the mask of the valid ones\<close>

definition xhfQoS :: byte where "xhfQoS = 0x01"
definition xhfNCTS :: byte where "xhfNCTS = 0x10"
definition xhfCTS :: byte where "xhfCTS = 0x20"
definition xhfRTS :: byte where "xhfRTS = 0x40"
definition xhfValidFlags :: byte where
  "xhfValidFlags = xhfQoS OR xhfNCTS OR xhfCTS OR xhfRTS"

lemmas xhpid_defs [enum_defs] =
  xhpidReserved_def xhpidGWControl_def xhpidXioCommand_def xhpidXioStatus_def
  xhpidPacketLimit_def xhpidFireLayer_def xhpidMWBand_def xhpidLWBand_def xhpidStreamLimit_def

lemmas xhsrc_defs [enum_defs] =
  xhsrcReserved_def xhsrcGateway_def xhsrcScanner_def xhsrcOPU_def xhsrcOnboardLimit_def
  xhsrcHavardServer_def xhsrcXiomasContol_def xhsrcRemoteLimit_def

lemmas xhf_defs [enum_defs] = xhfQoS_def xhfNCTS_def xhfCTS_def xhfRTS_def xhfValidFlags_def

lemmas xio_sizes [enum_defs] = xio_header_size_def XioHarMaxPayloadLength_def

section \<open>Memory image\<close>

definition hdr_bytes :: "xio_header \<Rightarrow> byte list" where
  "hdr_bytes h = m_aStart h @ [m_uPacketID h, m_uSource h, m_uLRC h, m_uFlags h]
     @ m_aPayloadLength h @ m_aBlockCount h"

definition hdr_of_bytes :: "byte list \<Rightarrow> xio_header" where
  "hdr_of_bytes bs =
     \<lparr> m_aStart = take 4 bs, m_uPacketID = bs ! 4, m_uSource = bs ! 5, m_uLRC = bs ! 6,
       m_uFlags = bs ! 7, m_aPayloadLength = take 4 (drop 8 bs),
       m_aBlockCount = take 4 (drop 12 bs) \<rparr>"

text \<open>A header as the compiler lays it out: both array fields and the start have four bytes.\<close>

definition wf_hdr :: "xio_header \<Rightarrow> bool" where
  "wf_hdr h \<longleftrightarrow>
     length (m_aStart h) = 4 \<and> length (m_aPayloadLength h) = 4 \<and> length (m_aBlockCount h) = 4"

lemma length_hdr_bytes [simp]: "wf_hdr h \<Longrightarrow> length (hdr_bytes h) = xio_header_size"
  by (simp add: wf_hdr_def hdr_bytes_def xio_header_size_def)

lemma wf_hdr_of_bytes [simp]: "xio_header_size \<le> length bs \<Longrightarrow> wf_hdr (hdr_of_bytes bs)"
  by (simp add: wf_hdr_def hdr_of_bytes_def xio_header_size_def)

lemma hdr_of_bytes_hdr_bytes:
  assumes "wf_hdr h"
  shows "hdr_of_bytes (hdr_bytes h @ rest) = h"
  using assms
  by (auto simp: wf_hdr_def hdr_of_bytes_def hdr_bytes_def length_eq_4_conv)

lemma hdr_bytes_hdr_of_bytes:
  assumes "xio_header_size \<le> length bs"
  shows "hdr_bytes (hdr_of_bytes bs) = take xio_header_size bs"
proof -
  obtain b0 b1 b2 b3 b4 b5 b6 b7 b8 b9 b10 b11 b12 b13 b14 b15 rest where
    "bs = [b0, b1, b2, b3, b4, b5, b6, b7, b8, b9, b10, b11, b12, b13, b14, b15] @ rest"
    using assms
    by (auto simp: xio_header_size_def numeral_eq_Suc Suc_le_length_iff)
  then show ?thesis
    by (simp add: hdr_of_bytes_def hdr_bytes_def xio_header_size_def)
qed

section \<open>Operations\<close>

definition xhgGetValue32 :: "byte list \<Rightarrow> u32" where
  "xhgGetValue32 aValueLE =
     (let uValue = push_bit 0 (ucast (aValueLE ! 0));
          uValue = uValue OR push_bit 8 (ucast (aValueLE ! 1));
          uValue = uValue OR push_bit 16 (ucast (aValueLE ! 2));
          uValue = uValue OR push_bit 24 (ucast (aValueLE ! 3))
      in uValue)"

definition xhgSetValue32 :: "byte list \<Rightarrow> u32 \<Rightarrow> byte list" where
  "xhgSetValue32 aValueLE uValue =
     aValueLE[0 := ucast (drop_bit 0 uValue AND 0xff),
              1 := ucast (drop_bit 8 uValue AND 0xff),
              2 := ucast (drop_bit 16 uValue AND 0xff),
              3 := ucast (drop_bit 24 uValue AND 0xff)]"

definition xhgCalculateLRC :: "xio_header \<Rightarrow> byte" where
  "xhgCalculateLRC h = NOT (fold (\<lambda>b uLRC. uLRC + b) (hdr_bytes h) 0)"

definition xhgGetBlockCount :: "xio_header \<Rightarrow> u32" where
  "xhgGetBlockCount h = xhgGetValue32 (m_aBlockCount h)"

definition xhgGetPayloadLength :: "xio_header \<Rightarrow> u32" where
  "xhgGetPayloadLength h = xhgGetValue32 (m_aPayloadLength h)"

definition xhgGetPacketLength :: "xio_header \<Rightarrow> u32" where
  "xhgGetPacketLength h = word_of_nat xio_header_size + xhgGetPayloadLength h"

definition xhgSetBlockCount :: "xio_header \<Rightarrow> u32 \<Rightarrow> xio_header" where
  "xhgSetBlockCount h uCount = h\<lparr>m_aBlockCount := xhgSetValue32 (m_aBlockCount h) uCount\<rparr>"

definition xhgSetPayloadLength :: "xio_header \<Rightarrow> u32 \<Rightarrow> xio_header" where
  "xhgSetPayloadLength h uLength =
     h\<lparr>m_aPayloadLength := xhgSetValue32 (m_aPayloadLength h) uLength\<rparr>"

text \<open>
  \<open>xhgFillHeader\<close> writes every field of a header whose previous contents are arbitrary and
  returns the packet length next to it.
\<close>

definition xhgFillHeader ::
  "xio_header \<Rightarrow> nat \<Rightarrow> nat \<Rightarrow> byte \<Rightarrow> u32 \<Rightarrow> u32 \<Rightarrow> xio_header \<times> u32" where
  "xhgFillHeader h ePID eSrc uFlags uPayloadLength uBlockCount =
     (let h = h\<lparr>m_aStart := XioHarPacketStart\<rparr>;
          h = h\<lparr>m_uPacketID := word_of_nat ePID\<rparr>;
          h = h\<lparr>m_uSource := word_of_nat eSrc\<rparr>;
          h = h\<lparr>m_uLRC := 0\<rparr>;
          h = h\<lparr>m_uFlags := uFlags\<rparr>;
          h = h\<lparr>m_aPayloadLength := xhgSetValue32 (m_aPayloadLength h) uPayloadLength\<rparr>;
          h = h\<lparr>m_aBlockCount := xhgSetValue32 (m_aBlockCount h) uBlockCount\<rparr>;
          h = h\<lparr>m_uLRC := 0\<rparr>;
          h = h\<lparr>m_uLRC := xhgCalculateLRC h\<rparr>
      in (h, xhgGetPacketLength h))"

text \<open>
  \<open>xhgValidateHeader\<close> clears \<open>bValid\<close> in each failed check and goes on to the next; every
  byte field is promoted to \<open>int\<close> before it is compared with an enumerator.
\<close>

definition xhgValidateHeader :: "xio_header \<Rightarrow> u32 \<Rightarrow> bool" where
  "xhgValidateHeader h uPacketLength =
     (let bValid = True;
          uCalcLRC = xhgCalculateLRC h;
          bValid = (if m_aStart h \<noteq> XioHarPacketStart then False else bValid);
          bValid =
            (if unat (m_uPacketID h) \<ge> xhpidPacketLimit \<and> unat (m_uPacketID h) < xhpidFireLayer
                \<or> unat (m_uPacketID h) \<ge> xhpidStreamLimit then False else bValid);
          bValid =
            (if unat (m_uSource h) \<ge> xhsrcOnboardLimit \<and> unat (m_uSource h) < xhsrcHavardServer
                \<or> unat (m_uSource h) \<ge> xhsrcRemoteLimit
                \<or> unat (m_uSource h) = xhsrcRemoteLimit then False else bValid);
          bValid = (if uCalcLRC \<noteq> 0 then False else bValid);
          bValid = (if m_uFlags h AND NOT xhfValidFlags \<noteq> 0 then False else bValid);
          bValid =
            (if unat (m_uPacketID h) \<le> xhpidPacketLimit
                \<and> unat (xhgGetPayloadLength h) > XioHarMaxPayloadLength then False else bValid);
          bValid = (if xhgGetPacketLength h \<noteq> uPacketLength then False else bValid)
      in bValid)"

lemmas xhg_field_defs [field_defs] =
  xhgGetBlockCount_def xhgGetPayloadLength_def xhgGetPacketLength_def
  xhgSetBlockCount_def xhgSetPayloadLength_def

section \<open>Fields\<close>

lemma wf_hdr_updates [simp]:
  "wf_hdr (h\<lparr>m_uPacketID := a\<rparr>) = wf_hdr h" "wf_hdr (h\<lparr>m_uSource := b\<rparr>) = wf_hdr h"
  "wf_hdr (h\<lparr>m_uLRC := c\<rparr>) = wf_hdr h" "wf_hdr (h\<lparr>m_uFlags := d\<rparr>) = wf_hdr h"
  by (simp_all add: wf_hdr_def)

lemma length_xhgSetValue32 [simp]: "length (xhgSetValue32 a v) = length a"
  by (simp add: xhgSetValue32_def)

lemma wf_hdr_setters [simp]:
  "wf_hdr (xhgSetBlockCount h v) = wf_hdr h" "wf_hdr (xhgSetPayloadLength h v) = wf_hdr h"
  by (simp_all add: wf_hdr_def field_defs)

lemma byte_of_value:
  "(ucast (ucast (drop_bit k v AND 0xff :: u32) :: byte) :: u32) = take_bit 8 (drop_bit k v)"
proof -
  have "drop_bit k v AND 0xff = take_bit 8 (drop_bit k v)"
    by (simp add: take_bit_eq_mask mask_eq_exp_minus_1)
  then show ?thesis
    by (simp add: unsigned_ucast_eq bit_eq_iff bit_simps)
qed

lemma four_bytes_or:
  fixes v :: u32
  shows "push_bit 0 (take_bit 8 (drop_bit 0 v)) OR push_bit 8 (take_bit 8 (drop_bit 8 v))
      OR push_bit 16 (take_bit 8 (drop_bit 16 v)) OR push_bit 24 (take_bit 8 (drop_bit 24 v)) = v"
    (is "?or = v")
proof (rule bit_word_eqI)
  fix n assume n: "n < LENGTH(32)"
  then consider "n < 8" | "8 \<le> n" "n - 8 < 8" | "16 \<le> n" "n - 16 < 8" | "24 \<le> n" "n - 24 < 8"
    by fastforce
  then show "bit ?or n = bit v n"
    by cases (auto simp: bit_simps)
qed

lemma get_set_value32 [simp]:
  assumes "length a = 4"
  shows "xhgGetValue32 (xhgSetValue32 a v) = v"
proof -
  have "xhgGetValue32 (xhgSetValue32 a v) =
      push_bit 0 (take_bit 8 (drop_bit 0 v)) OR push_bit 8 (take_bit 8 (drop_bit 8 v))
      OR push_bit 16 (take_bit 8 (drop_bit 16 v)) OR push_bit 24 (take_bit 8 (drop_bit 24 v))"
    using assms
    by (simp only: xhgGetValue32_def xhgSetValue32_def Let_def length_list_update
        nth_list_update byte_of_value or.assoc) (simp add: byte_of_value byte_of_value [of 0, simplified])
  then show ?thesis by (simp only: four_bytes_or)
qed

section \<open>Header checksum\<close>

lemma fold_plus_eq_sum_list: "fold (\<lambda>b s. s + b) bs (s :: byte) = s + sum_list bs"
  by (induction bs arbitrary: s) (simp_all add: algebra_simps)

lemma xhgCalculateLRC_eq: "xhgCalculateLRC h = NOT (sum_list (hdr_bytes h))"
  by (simp add: xhgCalculateLRC_def fold_plus_eq_sum_list)

lemma xhgCalculateLRC_0_iff: "xhgCalculateLRC h = 0 \<longleftrightarrow> sum_list (hdr_bytes h) = - 1"
proof -
  have "NOT x = (0 :: byte) \<longleftrightarrow> x = - 1" for x
    by (metis bit.compl_zero bit.double_compl)
  then show ?thesis by (simp add: xhgCalculateLRC_eq)
qed

lemma sum_of_filled [simp]:
  "sum_list (hdr_bytes (h\<lparr>m_uLRC := xhgCalculateLRC (h\<lparr>m_uLRC := 0\<rparr>)\<rparr>)) = - 1"
proof -
  have "sum_list (hdr_bytes (h\<lparr>m_uLRC := c\<rparr>)) = sum_list (hdr_bytes (h\<lparr>m_uLRC := 0\<rparr>)) + c" for c
    by (simp add: hdr_bytes_def algebra_simps)
  moreover have "s + NOT s = - 1" for s :: byte
    by (simp only: not_eq_complement) simp
  ultimately show ?thesis
    by (metis xhgCalculateLRC_eq)
qed

lemma xhgValidateHeader_iff:
  "xhgValidateHeader h n \<longleftrightarrow>
     m_aStart h = XioHarPacketStart
     \<and> (unat (m_uPacketID h) \<le> 3 \<or> 0x81 \<le> unat (m_uPacketID h) \<and> unat (m_uPacketID h) \<le> 0x83)
     \<and> (unat (m_uSource h) \<le> 3 \<or> unat (m_uSource h) = 8 \<or> unat (m_uSource h) = 9)
     \<and> sum_list (hdr_bytes h) = - 1
     \<and> m_uFlags h AND NOT xhfValidFlags = 0
     \<and> (unat (m_uPacketID h) \<le> 3 \<longrightarrow> unat (xhgGetPayloadLength h) \<le> 495)
     \<and> xhgGetPacketLength h = n"
  unfolding xhgValidateHeader_def Let_def xhgCalculateLRC_0_iff
  by (auto simp: xhpid_defs xhsrc_defs xio_sizes split: if_splits)

lemma filled_fields:
  assumes "wf_hdr h" and "h' = fst (xhgFillHeader h pid src fl pl bc)"
  shows "wf_hdr h'" "m_aStart h' = XioHarPacketStart" "m_uPacketID h' = word_of_nat pid"
    "m_uSource h' = word_of_nat src" "m_uFlags h' = fl" "xhgGetPayloadLength h' = pl"
    "xhgGetBlockCount h' = bc" "sum_list (hdr_bytes h') = - 1"
    "xhgGetPacketLength h' = word_of_nat xio_header_size + pl"
    "snd (xhgFillHeader h pid src fl pl bc) = xhgGetPacketLength h'"
  using assms
  by (auto simp: xhgFillHeader_def Let_def wf_hdr_def XioHarPacketStart_def
      xhgGetPayloadLength_def xhgGetBlockCount_def xhgGetPacketLength_def
      xhgCalculateLRC_0_iff)

section \<open>Properties\<close>

text \<open>
  Writing a header field and reading it back: after \<open>xhgSetPayloadLength\<close> the payload
  length is the value written and the block count is untouched, and the other way round for
  \<open>xhgSetBlockCount\<close>, for every 32-bit value.
\<close>

theorem field_roundtrip:
  assumes "wf_hdr h"
  shows "xhgGetPayloadLength (xhgSetPayloadLength h v) = v
       \<and> xhgGetBlockCount (xhgSetPayloadLength h v) = xhgGetBlockCount h
       \<and> xhgGetBlockCount (xhgSetBlockCount h v) = v
       \<and> xhgGetPayloadLength (xhgSetBlockCount h v) = xhgGetPayloadLength h"
  using assms by (simp add: field_defs wf_hdr_def)

text \<open>
  C23: A header built by \<open>xhgFillHeader\<close> passes \<open>xhgValidateHeader\<close> against the length that
  \<open>xhgFillHeader\<close> returned exactly when its packet ID and source are in the valid ranges,
  only defined flags are set, and the payload of a UDP packet fits the 495 bytes left by the
  header. The values 0, which the enumerations mark "reserved, do not use", are accepted.
\<close>

theorem fill_then_validate:
  assumes "wf_hdr h" and "pid < 256" and "src < 256"
  shows "xhgValidateHeader (fst (xhgFillHeader h pid src fl pl bc))
           (snd (xhgFillHeader h pid src fl pl bc)) \<longleftrightarrow>
         (pid \<le> xhpidXioStatus \<or> xhpidFireLayer \<le> pid \<and> pid \<le> xhpidLWBand)
       \<and> (src \<le> xhsrcOPU \<or> src = xhsrcHavardServer \<or> src = xhsrcXiomasContol)
       \<and> fl AND NOT xhfValidFlags = 0
       \<and> (pid \<le> xhpidXioStatus \<longrightarrow> unat pl \<le> XioHarMaxPayloadLength)"
proof -
  have [simp]: "unat (word_of_nat pid :: byte) = pid" "unat (word_of_nat src :: byte) = src"
    using assms(2,3) by (simp_all add: unsigned_of_nat take_bit_nat_eq_self)
  show ?thesis
    by (auto simp: xhgValidateHeader_iff filled_fields [OF assms(1) refl]
        xhpid_defs xhsrc_defs xio_sizes)
qed

text \<open>
  C30: The checksum detects any single corrupted byte: a header that validates no longer
  validates, against any length, after one of its sixteen bytes is replaced by another value.
\<close>

theorem single_byte_corruption_detected:
  assumes "wf_hdr h" and "xhgValidateHeader h n" and "i < xio_header_size"
    and "b \<noteq> hdr_bytes h ! i"
  shows "\<not> xhgValidateHeader (hdr_of_bytes ((hdr_bytes h)[i := b])) m"
proof -
  have "hdr_bytes (hdr_of_bytes ((hdr_bytes h)[i := b])) = (hdr_bytes h)[i := b]"
    using assms(1) by (simp add: hdr_bytes_hdr_of_bytes)
  moreover have "sum_list ((hdr_bytes h)[i := b]) \<noteq> sum_list (hdr_bytes h)"
    using assms by (intro sum_list_update_neq) auto
  ultimately show ?thesis
    using assms(2) by (simp add: xhgValidateHeader_iff)
qed

text \<open>
  C31: The packet length that the header announces wraps around: for a payload length of
  2^32 - 16 or more, \<open>xhgGetPacketLength\<close> is smaller than the header itself, and a stream
  header (fire layer or band imagery) with such a length still validates against it.
\<close>

theorem packet_length_wraps:
  assumes "wf_hdr h" and "xhpidFireLayer \<le> pid" and "pid \<le> xhpidLWBand"
    and "src \<le> xhsrcOPU" and "fl AND NOT xhfValidFlags = 0"
    and "2 ^ 32 - 16 \<le> unat pl"
    and "h' = fst (xhgFillHeader h pid src fl pl bc)"
  shows "unat (xhgGetPacketLength h') = unat pl - (2 ^ 32 - 16)
       \<and> unat (xhgGetPacketLength h') < xio_header_size
       \<and> xhgValidateHeader h' (xhgGetPacketLength h')"
proof -
  have pid: "unat (word_of_nat pid :: byte) = pid" and src: "unat (word_of_nat src :: byte) = src"
    using assms(2-4) by (simp_all add: unsigned_of_nat take_bit_nat_eq_self xhpid_defs xhsrc_defs)
  have l: "unat (word_of_nat xio_header_size + pl) = unat pl - (2 ^ 32 - 16)"
    using assms(6) unsigned_less [of pl, where ?'a = nat]
    by (simp add: unat_word_ariths xio_header_size_def mod_if)
  show ?thesis
    unfolding assms(7) using l assms(2-6) unsigned_less [of pl, where ?'a = nat]
    by (auto simp: xhgValidateHeader_iff filled_fields [OF assms(1) refl] pid src
        xhpid_defs xhsrc_defs xio_header_size_def)
qed

section \<open>Witnesses\<close>

definition blank_hdr :: xio_header where
  "blank_hdr = hdr_of_bytes (replicate 16 0)"

lemma wf_blank_hdr [simp]: "wf_hdr blank_hdr"
  by (simp add: blank_hdr_def xio_header_size_def)

theorem field_roundtrip_witness:
  "xhgGetPayloadLength (xhgSetPayloadLength blank_hdr 0xDEADBEEF) = 0xDEADBEEF"
  using field_roundtrip [of blank_hdr "0xDEADBEEF"] by simp

theorem fill_then_validate_witness:
  "xhgValidateHeader (fst (xhgFillHeader blank_hdr xhpidGWControl xhsrcGateway xhfCTS 0 1))
     (snd (xhgFillHeader blank_hdr xhpidGWControl xhsrcGateway xhfCTS 0 1))
   \<and> \<not> xhgValidateHeader (fst (xhgFillHeader blank_hdr 4 xhsrcGateway xhfCTS 0 1))
     (snd (xhgFillHeader blank_hdr 4 xhsrcGateway xhfCTS 0 1))"
  using fill_then_validate [of blank_hdr xhpidGWControl xhsrcGateway xhfCTS 0 1]
    fill_then_validate [of blank_hdr 4 xhsrcGateway xhfCTS 0 1]
  by (simp add: enum_defs)

text \<open>The first gateway header of the recorded session: pid=1 src=1 lrc=c9 flags=20 blk=1.\<close>

lemma recorded_cts_header:
  "hdr_bytes (fst (xhgFillHeader blank_hdr xhpidGWControl xhsrcGateway xhfCTS 0 1)) =
   [0x24, 0x50, 0x4B, 0x54, 1, 1, 0xC9, 0x20, 0, 0, 0, 0, 1, 0, 0, 0]"
  by code_simp

theorem single_byte_corruption_detected_witness:
  "\<not> xhgValidateHeader (hdr_of_bytes ((hdr_bytes
      (fst (xhgFillHeader blank_hdr xhpidGWControl xhsrcGateway xhfCTS 0 1)))[7 := 0x21])) 16"
proof (rule single_byte_corruption_detected)
  show "wf_hdr (fst (xhgFillHeader blank_hdr xhpidGWControl xhsrcGateway xhfCTS 0 1))"
    by (rule filled_fields [OF wf_blank_hdr refl])
  show "xhgValidateHeader (fst (xhgFillHeader blank_hdr xhpidGWControl xhsrcGateway xhfCTS 0 1)) 16"
    by (simp add: xhgValidateHeader_iff filled_fields [OF wf_blank_hdr refl]) (simp add: enum_defs)
qed (simp_all add: recorded_cts_header xio_header_size_def)

theorem packet_length_wraps_witness:
  "unat (xhgGetPacketLength
      (fst (xhgFillHeader blank_hdr xhpidFireLayer xhsrcOPU 0 0xFFFFFFF0 7))) = 0"
  using packet_length_wraps [where h = blank_hdr and pid = xhpidFireLayer and src = xhsrcOPU
      and fl = 0 and pl = "0xFFFFFFF0" and bc = 7, OF wf_blank_hdr _ _ _ _ _ refl]
  by (simp add: enum_defs)

end
