(* ===== verification/Dasio.thy ===== *)
theory Dasio
  imports Prelude
begin

text \<open>
  What the programs use of the DAS_IO library, which is not part of this repository. Nothing
  of it is defined here: its operations are the fields of two records that every handler takes
  as a parameter (\<open>dasio\<close> for the input side of an interface, \<open>chan_ops\<close> for the output
  side), and what the call sites rely on is stated by named predicates that the properties
  take as hypotheses. The concrete records at the end are only instances for the witnesses.
\<close>

section \<open>Input side of an interface\<close>

text \<open>
  The members of \<open>DAS_IO::Interface\<close> the handlers read: the received bytes (\<open>nc\<close> is their
  number) and the parse position \<open>cp\<close>.
\<close>

record inbuf =
  ibuf :: "byte list"
  cp :: nat

abbreviation nc :: "('a) inbuf_scheme \<Rightarrow> nat" where
  "nc s \<equiv> length (ibuf s)"

record dasio =
  consume_op :: "nat \<Rightarrow> inbuf \<Rightarrow> inbuf"
  report_ok_op :: "nat \<Rightarrow> inbuf \<Rightarrow> inbuf"
  report_err_op :: "inbuf \<Rightarrow> inbuf"
  not_found_op :: "byte \<Rightarrow> inbuf \<Rightarrow> bool \<times> inbuf"
  not_str_op :: "byte list \<Rightarrow> inbuf \<Rightarrow> bool \<times> inbuf"

text \<open>
  \<open>consume(n)\<close> removes the first \<open>n\<close> bytes and moves \<open>cp\<close> with the rest; \<open>report_ok(n)\<close>
  does the same after counting a success; \<open>report_err\<close> is a diagnostic.
\<close>

definition consumed :: "nat \<Rightarrow> inbuf \<Rightarrow> inbuf" where
  "consumed n s = s\<lparr>ibuf := drop n (ibuf s), cp := cp s - n\<rparr>"

definition consumes :: "dasio \<Rightarrow> bool" where
  "consumes D \<longleftrightarrow> (\<forall>n s. n \<le> nc s \<longrightarrow> consume_op D n s = consumed n s)
     \<and> (\<forall>n s. n \<le> nc s \<longrightarrow> report_ok_op D n s = consumed n s)"

definition reports_only :: "dasio \<Rightarrow> bool" where
  "reports_only D \<longleftrightarrow> (\<forall>s. report_err_op D s = s)"

text \<open>
  \<open>not_found(c)\<close> searches from \<open>cp\<close>: it returns false with \<open>cp\<close> just past the first \<open>c\<close>,
  or true after consuming everything.
\<close>

definition found_at :: "byte \<Rightarrow> inbuf \<Rightarrow> nat" where
  "found_at c s = cp s + length (takeWhile (\<lambda>b. b \<noteq> c) (drop (cp s) (ibuf s)))"

definition searches :: "dasio \<Rightarrow> bool" where
  "searches D \<longleftrightarrow> (\<forall>c s. not_found_op D c s =
     (if found_at c s < nc s then (False, s\<lparr>cp := found_at c s + 1\<rparr>) else (True, consumed (nc s) s)))"

text \<open>
  \<open>not_str(str)\<close> returns false with \<open>cp\<close> past \<open>str\<close> when the input continues with it; else it
  returns true, with \<open>cp\<close> at the end of the input when what is there is a proper prefix of
  \<open>str\<close>, and at the first mismatch otherwise.
\<close>

fun match_len :: "byte list \<Rightarrow> byte list \<Rightarrow> nat" where
  "match_len (x # xs) (y # ys) = (if x = y then Suc (match_len xs ys) else 0)"
| "match_len _ _ = 0"

definition matches_strings :: "dasio \<Rightarrow> bool" where
  "matches_strings D \<longleftrightarrow> (\<forall>str s. not_str_op D str s =
     (match_len str (drop (cp s) (ibuf s)) \<noteq> length str,
      s\<lparr>cp := cp s + match_len str (drop (cp s) (ibuf s))\<rparr>))"

section \<open>Output side of an interface\<close>

text \<open>
  The output buffer is a state of an unknown type \<open>'o\<close>. \<open>iwrite\<close> and \<open>iwritev\<close> return true on
  a fatal error; \<open>obuf_empty\<close> says that everything written so far has left the buffer.
\<close>

record 'o chan_ops =
  iwrite_op :: "byte list \<Rightarrow> 'o \<Rightarrow> bool \<times> 'o"
  iwritev_op :: "byte list list \<Rightarrow> 'o \<Rightarrow> bool \<times> 'o"
  obuf_empty_op :: "'o \<Rightarrow> bool"

text \<open>
  \<open>written\<close> reads off the state the bytes handed to the buffer so far: a write appends to them.
\<close>

definition appends :: "'o chan_ops \<Rightarrow> ('o \<Rightarrow> byte list) \<Rightarrow> bool" where
  "appends C written \<longleftrightarrow>
     (\<forall>bs out. written (snd (iwrite_op C bs out)) = written out @ bs)
     \<and> (\<forall>bss out. written (snd (iwritev_op C bss out)) = written out @ concat bss)"

lemma appends_iwrite: "appends C w \<Longrightarrow> w (snd (iwrite_op C bs out)) = w out @ bs"
  by (simp add: appends_def)

lemma appends_iwritev: "appends C w \<Longrightarrow> w (snd (iwritev_op C bss out)) = w out @ concat bss"
  by (simp add: appends_def)

section \<open>Framed packets of the telemetry link\<close>

text \<open>
  \<open>serio_pkt_hdr\<close> precedes every packet sent to \<open>tm_ip_export\<close>. Its layout, the packet type
  codes, the CRC and the packet recogniser \<open>not_serio_pkt\<close> belong to the library: fields of
  \<open>serio\<close>. \<open>crc16modbus_word(crc, p, n)\<close> is applied to the \<open>n\<close> bytes at \<open>p\<close>; the call with
  a null pointer and length 0 is the application to the empty list.
\<close>

record serio_pkt_hdr =
  LRC :: byte
  ptype :: byte
  plength :: u16
  CRC :: u32

datatype not_pkt = No_packet inbuf | Packet byte u16 "byte list" inbuf

record serio =
  hdr_image :: "serio_pkt_hdr \<Rightarrow> byte list"
  pkt_hdr_size :: nat
  crc16modbus_word :: "u32 \<Rightarrow> byte list \<Rightarrow> u32"
  pkt_type_CTRL :: byte
  pkt_type_SID :: byte
  pkt_type_XIO :: byte
  pkt_type_NPH :: byte
  not_serio_pkt :: "inbuf \<Rightarrow> not_pkt"
  ctrl_payload_size :: nat
  ctrl_subtype :: "byte list \<Rightarrow> byte"
  ctrl_length :: "byte list \<Rightarrow> nat"
  ctrl_subtype_ACK :: byte

text \<open>
  The layout the checksum loop relies on: the LRC is the first byte of the image, and the rest
  does not depend on it.
\<close>

definition lrc_first :: "serio \<Rightarrow> bool" where
  "lrc_first S \<longleftrightarrow> (\<forall>h. length (hdr_image S h) = pkt_hdr_size S
     \<and> hdr_image S h \<noteq> [] \<and> hd (hdr_image S h) = LRC h
     \<and> (\<forall>l. tl (hdr_image S (h\<lparr>LRC := l\<rparr>)) = tl (hdr_image S h)))"

text \<open>
  \<open>not_serio_pkt\<close> looks for a packet from \<open>cp\<close> on. It either asks for more input, or presents
  a complete packet; the bytes before the packet are dropped, so that it starts at the front of
  the buffer (the call sites consume header and payload from there, and skip a packet they
  refuse by advancing \<open>cp\<close>).
\<close>

definition presents_packets :: "serio \<Rightarrow> bool" where
  "presents_packets S \<longleftrightarrow> 0 < pkt_hdr_size S \<and> (\<forall>s ty len payload s'.
     not_serio_pkt S s = Packet ty len payload s' \<longrightarrow>
       cp s' = 0 \<and> pkt_hdr_size S + unat len \<le> nc s' \<and> nc s' + cp s \<le> nc s
       \<and> payload = take (unat len) (drop (pkt_hdr_size S) (ibuf s')))"

text \<open>
  The header the three \<open>forward_packet\<close> functions of the repository build: with the LRC
  cleared, the CRC over the payload is stored, the bytes after the first are added into the
  LRC, and the LRC is negated.
\<close>

definition fill_serio_hdr :: "serio \<Rightarrow> byte \<Rightarrow> u16 \<Rightarrow> byte list \<Rightarrow> serio_pkt_hdr" where
  "fill_serio_hdr S ty len bfr =
     (let crc = crc16modbus_word S 0 [];
          crc = crc16modbus_word S crc bfr;
          hdr = \<lparr>LRC = 0, ptype = ty, plength = len, CRC = crc\<rparr>;
          lrc = fold (\<lambda>b l. l + b) (tl (hdr_image S hdr)) (LRC hdr)
      in hdr\<lparr>LRC := - lrc\<rparr>)"

lemma fold_add_bytes: "fold (\<lambda>b l. l + b) bs (l :: byte) = l + sum_list bs"
  by (induction bs arbitrary: l) (simp_all add: algebra_simps)

lemma length_hdr_image: "lrc_first S \<Longrightarrow> length (hdr_image S h) = pkt_hdr_size S"
  by (simp add: lrc_first_def)

lemma sum_of_serio_hdr:
  assumes "lrc_first S"
  shows "sum_list (hdr_image S (fill_serio_hdr S ty len bfr)) = 0"
proof -
  define h where
    "h = \<lparr>LRC = 0, ptype = ty, plength = len,
          CRC = crc16modbus_word S (crc16modbus_word S 0 []) bfr\<rparr>"
  define l where "l = sum_list (tl (hdr_image S h))"
  have fill: "fill_serio_hdr S ty len bfr = h\<lparr>LRC := - l\<rparr>"
    by (simp add: fill_serio_hdr_def Let_def h_def l_def fold_add_bytes)
  have "hdr_image S (h\<lparr>LRC := - l\<rparr>) = - l # tl (hdr_image S h)"
    using assms unfolding lrc_first_def
    by (metis list.collapse serio_pkt_hdr.select_convs(1) serio_pkt_hdr.surjective
        serio_pkt_hdr.update_convs(1))
  then show ?thesis
    by (simp add: fill l_def)
qed

section \<open>Instances for the witnesses\<close>

text \<open>
  One input side and one output side that satisfy the hypotheses above. They show that the
  hypotheses can hold; nothing is claimed about them.
\<close>

definition plain_dasio :: dasio where
  "plain_dasio = \<lparr>consume_op = consumed, report_ok_op = consumed, report_err_op = (\<lambda>s. s),
     not_found_op = (\<lambda>c s. if found_at c s < nc s then (False, s\<lparr>cp := found_at c s + 1\<rparr>)
        else (True, consumed (nc s) s)),
     not_str_op = (\<lambda>str s. (match_len str (drop (cp s) (ibuf s)) \<noteq> length str,
        s\<lparr>cp := cp s + match_len str (drop (cp s) (ibuf s))\<rparr>))\<rparr>"

lemma plain_dasio_ok [simp]:
  "consumes plain_dasio" "reports_only plain_dasio" "searches plain_dasio"
  "matches_strings plain_dasio"
  by (simp_all add: plain_dasio_def consumes_def reports_only_def searches_def matches_strings_def)

text \<open>An output side that takes everything at once; its state is the list of bytes written.\<close>

definition open_chan :: "byte list chan_ops" where
  "open_chan = \<lparr>iwrite_op = (\<lambda>bs out. (False, out @ bs)),
     iwritev_op = (\<lambda>bss out. (False, out @ concat bss)), obuf_empty_op = (\<lambda>_. True)\<rparr>"

lemma open_chan_appends [simp]: "appends open_chan (\<lambda>out. out)"
  by (simp add: open_chan_def appends_def)

text \<open>A header of six bytes, a constant CRC, and a recogniser that reads the buffer front.\<close>

definition plain_image :: "serio_pkt_hdr \<Rightarrow> byte list" where
  "plain_image h = [LRC h, ptype h, ucast (plength h), ucast (drop_bit 8 (plength h)),
     ucast (CRC h), ucast (drop_bit 8 (CRC h))]"

definition plain_not_serio_pkt :: "inbuf \<Rightarrow> not_pkt" where
  "plain_not_serio_pkt s =
     (let b = drop (cp s) (ibuf s)
      in if 6 \<le> length b \<and> 6 + unat (le16 (b ! 2) (b ! 3)) \<le> length b
         then Packet (b ! 1) (le16 (b ! 2) (b ! 3))
                (take (unat (le16 (b ! 2) (b ! 3))) (drop 6 b)) (s\<lparr>ibuf := b, cp := 0\<rparr>)
         else No_packet s)"

definition plain_serio :: serio where
  "plain_serio = \<lparr>hdr_image = plain_image, pkt_hdr_size = 6, crc16modbus_word = (\<lambda>c bs. c),
     pkt_type_CTRL = 1, pkt_type_SID = 2, pkt_type_XIO = 3, pkt_type_NPH = 4,
     not_serio_pkt = plain_not_serio_pkt, ctrl_payload_size = 4,
     ctrl_subtype = (\<lambda>p. p ! 0), ctrl_length = (\<lambda>p. unat (le16 (p ! 2) (p ! 3))),
     ctrl_subtype_ACK = 1\<rparr>"

lemma plain_serio_ok [simp]: "lrc_first plain_serio" "presents_packets plain_serio"
  by (auto simp: plain_serio_def lrc_first_def plain_image_def presents_packets_def
      plain_not_serio_pkt_def Let_def split: if_splits)

lemma pkt_hdr_size_plain [simp]: "pkt_hdr_size plain_serio = 6"
  by (simp add: plain_serio_def)

end
