(* ===== verification/ByteFifo.thy ===== *)
theory ByteFifo
  imports Prelude
begin

text \<open>
  The contract between a producer that queues blocks of bytes and a link that sends them on:
  what has been sent, followed by what is queued, is what was queued at the start followed by
  the blocks pushed since. The client lemma is about any sequence of pushes and pops.
\<close>

datatype fifo_op = Push "byte list" | Pop nat

fun pushed :: "fifo_op list \<Rightarrow> byte list" where
  "pushed [] = []"
| "pushed (Push d # ops) = d @ pushed ops"
| "pushed (Pop n # ops) = pushed ops"

fun run_fifo ::
  "(byte list \<Rightarrow> 's \<Rightarrow> fault + 's) \<Rightarrow> (nat \<Rightarrow> 's \<Rightarrow> fault + 's) \<Rightarrow> fifo_op list \<Rightarrow> 's \<Rightarrow> fault + 's" where
  "run_fifo push pop [] s = Inr s"
| "run_fifo push pop (Push d # ops) s = bind_sum (push d s) (run_fifo push pop ops)"
| "run_fifo push pop (Pop n # ops) s = bind_sum (pop n s) (run_fifo push pop ops)"

text \<open>Every push fits the room there is when it is made, and no pop asks for too much.\<close>

fun fits ::
  "('s \<Rightarrow> nat) \<Rightarrow> ('s \<Rightarrow> byte list) \<Rightarrow> (byte list \<Rightarrow> 's \<Rightarrow> fault + 's) \<Rightarrow> (nat \<Rightarrow> 's \<Rightarrow> fault + 's) \<Rightarrow>
   fifo_op list \<Rightarrow> 's \<Rightarrow> bool" where
  "fits room items push pop [] s = True"
| "fits room items push pop (Push d # ops) s \<longleftrightarrow> length d \<le> room s
     \<and> (case push d s of Inl _ \<Rightarrow> True | Inr s' \<Rightarrow> fits room items push pop ops s')"
| "fits room items push pop (Pop n # ops) s \<longleftrightarrow> n \<le> length (items s)
     \<and> (case pop n s of Inl _ \<Rightarrow> True | Inr s' \<Rightarrow> fits room items push pop ops s')"

locale byte_fifo =
  fixes inv :: "'s \<Rightarrow> bool"
    and items :: "'s \<Rightarrow> byte list"
    and sent :: "'s \<Rightarrow> byte list"
    and room :: "'s \<Rightarrow> nat"
    and push :: "byte list \<Rightarrow> 's \<Rightarrow> fault + 's"
    and pop :: "nat \<Rightarrow> 's \<Rightarrow> fault + 's"
  assumes push_law: "inv s \<Longrightarrow> length d \<le> room s \<Longrightarrow>
      \<exists>s'. push d s = Inr s' \<and> inv s' \<and> items s' = items s @ d \<and> sent s' = sent s
        \<and> room s \<le> room s' + length d"
    and pop_law: "inv s \<Longrightarrow> n \<le> length (items s) \<Longrightarrow>
      \<exists>s'. pop n s = Inr s' \<and> inv s' \<and> items s' = drop n (items s)
        \<and> sent s' = sent s @ take n (items s)"
begin

lemma stream_preserved:
  assumes "inv s" and "fits room items push pop ops s"
  shows "\<exists>s'. run_fifo push pop ops s = Inr s' \<and> inv s'
    \<and> sent s' @ items s' = sent s @ items s @ pushed ops"
  using assms
proof (induction ops arbitrary: s)
  case Nil
  then show ?case by simp
next
  case (Cons oper ops)
  show ?case
  proof (cases oper)
    case (Push d)
    with Cons.prems obtain s' where s': "push d s = Inr s'" "inv s'" "items s' = items s @ d"
      "sent s' = sent s" using push_law [of s d] by auto
    with Push Cons.prems(2) have "fits room items push pop ops s'" by simp
    from Cons.IH [OF s'(2) this] s' Push show ?thesis by auto
  next
    case (Pop n)
    with Cons.prems obtain s' where s': "pop n s = Inr s'" "inv s'" "items s' = drop n (items s)"
      "sent s' = sent s @ take n (items s)" using pop_law [of s n] by auto
    with Pop Cons.prems(2) have "fits room items push pop ops s'" by simp
    from Cons.IH [OF s'(2) this] s' Pop show ?thesis
      by (metis append.assoc append_take_drop_id bind_sum_simps(2) pushed.simps(3)
          run_fifo.simps(3))
  qed
qed

text \<open>Two blocks that fit together can be pushed one after the other.\<close>

lemma push_two:
  assumes "inv s" and "length d1 + length d2 \<le> room s"
  shows "\<exists>s' s''. push d1 s = Inr s' \<and> push d2 s' = Inr s'' \<and> inv s'' \<and> inv s'
    \<and> items s'' = items s @ d1 @ d2 \<and> sent s'' = sent s
    \<and> room s \<le> room s'' + length d1 + length d2"
proof -
  obtain s' where s': "push d1 s = Inr s'" "inv s'" "items s' = items s @ d1" "sent s' = sent s"
    "room s \<le> room s' + length d1"
    using push_law [of s d1] assms by auto
  then have "length d2 \<le> room s'" using assms(2) by simp
  from push_law [OF s'(2) this] s' show ?thesis by fastforce
qed

end

end
