(* ===== verification/XioRing.thy ===== *)
theory XioRing
  imports Dasio ByteFifo
begin

text \<open>
  The circular buffer of \<open>xiomas_tcp_export\<close> (\<open>Xiomas/xiomas_export.h\<close> and
  \<open>xiomas_export.cc\<close>): the members \<open>circ\<close>, \<open>circ_size\<close>, \<open>circ_head\<close>, \<open>circ_tail\<close> and
  \<open>outstanding_bytes\<close>, with \<open>circ_length\<close>, \<open>circ_space\<close>, \<open>circ_commit\<close>, \<open>circ_head_bytes\<close>,
  \<open>circ_consume\<close> and \<open>circ_transmit\<close>. The \<open>uint32_t\<close> members are natural numbers and every
  addition and subtraction on them is \<open>add32\<close> or \<open>sub32\<close>. The buffer is empty when the head
  lies beyond \<open>circ_size\<close>, and full when head and tail are equal.
\<close>

section \<open>State and operations\<close>

record ring =
  circ :: "byte list"
  circ_size :: nat
  circ_head :: nat
  circ_tail :: nat
  outstanding_bytes :: nat

definition CIRC_BUFFER_SIZE :: nat where
  "CIRC_BUFFER_SIZE = 270000"

definition circ_length :: "'a ring_scheme \<Rightarrow> nat" where
  "circ_length r =
     (if circ_head r > circ_size r then 0
      else if circ_tail r > circ_head r then sub32 (circ_tail r) (circ_head r)
      else add32 (sub32 (circ_size r) (circ_head r)) (circ_tail r))"

definition circ_space :: "'a ring_scheme \<Rightarrow> nat" where
  "circ_space r = sub32 (circ_size r) (circ_length r)"

definition circ_head_bytes :: "'a ring_scheme \<Rightarrow> nat" where
  "circ_head_bytes r =
     (if circ_head r > circ_size r then 0
      else if circ_tail r > circ_head r then sub32 (circ_head r) (circ_tail r)
      else sub32 (circ_size r) (circ_head r))"

definition circ_consume :: "nat \<Rightarrow> 'a ring_scheme \<Rightarrow> fault + 'a ring_scheme" where
  "circ_consume n_bytes r =
     (if \<not> n_bytes \<le> circ_head_bytes r then Inl Assert_failed
      else
        let r = r\<lparr>outstanding_bytes := add32 (outstanding_bytes r) n_bytes\<rparr>;
            r = r\<lparr>circ_head := add32 (circ_head r) n_bytes\<rparr>;
            r = (if circ_head r = circ_size r then r\<lparr>circ_head := 0\<rparr> else r);
            r = (if circ_head r = circ_tail r
                 then r\<lparr>circ_head := add32 (circ_size r) 1\<rparr> else r)
        in Inr r)"

text \<open>\<open>memcpy(&dst[off], src, n)\<close>; a copy that leaves either array is undefined behaviour.\<close>

definition memcpy :: "byte list \<Rightarrow> nat \<Rightarrow> byte list \<Rightarrow> nat \<Rightarrow> fault + byte list" where
  "memcpy dst off src n =
     (if off + n \<le> length dst \<and> n \<le> length src
      then Inr (take off dst @ take n src @ drop (off + n) dst)
      else Inl Out_of_bounds)"

text \<open>
  \<open>circ_commit\<close>, in the order of its statements: an empty buffer restarts at offset 0; the
  room before the end of the array or before the head; the first copy, which moves the tail
  and wraps it at the end of the array; and the second copy at the front of the array. The
  last assignment of the second copy adds \<open>tail_space\<close>, the length of the first copy, as
  the source does.
\<close>

definition commit_restart :: "'a ring_scheme \<Rightarrow> 'a ring_scheme" where
  "commit_restart r =
     (if circ_head r > circ_size r then r\<lparr>circ_head := 0, circ_tail := 0\<rparr> else r)"

definition commit_tail_space :: "nat \<Rightarrow> 'a ring_scheme \<Rightarrow> nat" where
  "commit_tail_space n_bytes r =
     (let tail_space =
        (if circ_tail r \<ge> circ_head r
         then sub32 (circ_size r) (circ_tail r)
         else sub32 (circ_head r) (circ_tail r))
      in if n_bytes < tail_space then n_bytes else tail_space)"

definition commit_first :: "byte list \<Rightarrow> nat \<Rightarrow> 'a ring_scheme \<Rightarrow> fault + 'a ring_scheme" where
  "commit_first data tail_space r =
     bind_sum (memcpy (circ r) (circ_tail r) data tail_space) (\<lambda>c.
       if \<not> add32 (circ_tail r) tail_space \<le> circ_size r then Inl Assert_failed
       else if add32 (circ_tail r) tail_space = circ_size r
         then Inr (r\<lparr>circ := c, circ_tail := 0\<rparr>)
       else Inr (r\<lparr>circ := c, circ_tail := add32 (circ_tail r) tail_space\<rparr>))"

definition commit_second ::
  "byte list \<Rightarrow> nat \<Rightarrow> nat \<Rightarrow> 'a ring_scheme \<Rightarrow> fault + 'a ring_scheme" where
  "commit_second data n_bytes tail_space r =
     (if n_bytes \<noteq> 0
      then
        if \<not> (circ_tail r = 0 \<and> n_bytes \<le> circ_head r) then Inl Assert_failed
        else bind_sum (memcpy (circ r) (circ_tail r) data n_bytes) (\<lambda>c.
          Inr (r\<lparr>circ := c, circ_tail := add32 (circ_tail r) tail_space\<rparr>))
      else Inr r)"

definition circ_commit :: "byte list \<Rightarrow> nat \<Rightarrow> 'a ring_scheme \<Rightarrow> fault + 'a ring_scheme" where
  "circ_commit data n_bytes r =
     (let n_bytes = (if n_bytes > circ_space r then circ_space r else n_bytes)
      in if n_bytes \<noteq> 0
         then
           let r = commit_restart r;
               tail_space = commit_tail_space n_bytes r
           in bind_sum (commit_first data tail_space r) (\<lambda>r.
                commit_second (drop tail_space data) (sub32 n_bytes tail_space) tail_space r)
         else Inr r)"

text \<open>
  \<open>circ_transmit\<close> writes \<open>n_bytes\<close> from the head in contiguous runs. \<open>iwrite\<close> reads
  \<open>txmit_bytes\<close> bytes from \<open>&circ[circ_head]\<close>. A run is never longer than what is left, so
  the count decreases without wrapping.
\<close>

record 'o ring_out = ring +
  chan :: 'o

function circ_transmit ::
  "'o chan_ops \<Rightarrow> nat \<Rightarrow> ('o, 'b) ring_out_scheme \<Rightarrow> fault + ('o, 'b) ring_out_scheme" where
  "circ_transmit C n_bytes x =
     (if n_bytes = 0 then Inr x
      else if \<not> circ_head_bytes x > 0 then Inl Assert_failed
      else
        let txmit_bytes = (if n_bytes < circ_head_bytes x then n_bytes else circ_head_bytes x)
        in if \<not> circ_head x + txmit_bytes \<le> length (circ x) then Inl Out_of_bounds
           else
             let x1 = x\<lparr>chan := snd (iwrite_op C
                        (take txmit_bytes (drop (circ_head x) (circ x))) (chan x))\<rparr>
             in (case circ_consume txmit_bytes x1 of
                   Inl e \<Rightarrow> Inl e
                 | Inr x2 \<Rightarrow> circ_transmit C (n_bytes - txmit_bytes) x2))"
  by pat_completeness auto
termination
  by (relation "measure (\<lambda>(C, n, x). n)") auto

declare circ_transmit.simps [simp del]

section \<open>Well-formed buffers and their contents\<close>

definition wf_ring :: "'a ring_scheme \<Rightarrow> bool" where
  "wf_ring r \<longleftrightarrow> length (circ r) = circ_size r \<and> 0 < circ_size r \<and> circ_size r \<le> CIRC_BUFFER_SIZE
     \<and> circ_tail r < circ_size r
     \<and> (circ_head r < circ_size r \<or> circ_head r = circ_size r + 1)"

text \<open>The bytes in the buffer, oldest first.\<close>

definition contents :: "'a ring_scheme \<Rightarrow> byte list" where
  "contents r =
     (if circ_head r > circ_size r then []
      else if circ_tail r > circ_head r
        then take (circ_tail r - circ_head r) (drop (circ_head r) (circ r))
      else drop (circ_head r) (circ r) @ take (circ_tail r) (circ r))"

text \<open>How many bytes can be committed in one contiguous copy.\<close>

definition tail_room :: "'a ring_scheme \<Rightarrow> nat" where
  "tail_room r =
     (if circ_head r > circ_size r then circ_size r
      else if circ_tail r \<ge> circ_head r then
        (if circ_tail r = circ_head r then 0 else circ_size r - circ_tail r)
      else circ_head r - circ_tail r)"

text \<open>How many bytes really lie contiguously at the head.\<close>

definition head_run :: "'a ring_scheme \<Rightarrow> nat" where
  "head_run r =
     (if circ_head r > circ_size r then 0
      else if circ_tail r > circ_head r then circ_tail r - circ_head r
      else circ_size r - circ_head r)"

lemma wf_ringD:
  assumes "wf_ring r"
  shows "length (circ r) = circ_size r" "0 < circ_size r" "circ_size r \<le> 270000"
    "circ_tail r < circ_size r" "circ_head r < circ_size r \<or> circ_head r = circ_size r + 1"
  using assms by (auto simp: wf_ring_def CIRC_BUFFER_SIZE_def)

lemma length_contents:
  assumes "wf_ring r"
  shows "circ_length r = length (contents r)"
  using wf_ringD [OF assms]
  by (auto simp: circ_length_def contents_def sub32_exact add32_exact)

lemma length_contents_le:
  assumes "wf_ring r"
  shows "length (contents r) \<le> circ_size r"
  using wf_ringD [OF assms] by (auto simp: contents_def)

lemma circ_space_eq:
  assumes "wf_ring r"
  shows "circ_space r = circ_size r - length (contents r)"
  using wf_ringD [OF assms] length_contents_le [OF assms]
  by (simp add: circ_space_def length_contents [OF assms] sub32_exact)

lemma contents_empty_iff:
  assumes "wf_ring r"
  shows "contents r = [] \<longleftrightarrow> circ_head r = circ_size r + 1"
proof (cases "circ_head r > circ_size r")
  case True
  then show ?thesis using wf_ringD(5) [OF assms] by (simp add: contents_def)
next
  case False
  then have "circ_head r < length (circ r)"
    using wf_ringD(1,5) [OF assms] by simp
  with False show ?thesis by (simp add: contents_def)
qed

lemma tail_room_le_space:
  assumes "wf_ring r"
  shows "tail_room r \<le> circ_space r"
  using wf_ringD [OF assms] by (auto simp: circ_space_eq [OF assms] tail_room_def contents_def)

lemma head_run_le:
  assumes "wf_ring r"
  shows "head_run r \<le> length (contents r)"
  using wf_ringD [OF assms] by (auto simp: head_run_def contents_def)

lemma head_run_pos:
  assumes "wf_ring r"
  shows "contents r \<noteq> [] \<Longrightarrow> 0 < head_run r"
  using wf_ringD [OF assms] by (auto simp: head_run_def contents_def)

lemma circ_head_bytes_eq:
  assumes "wf_ring r"
  shows "circ_head_bytes r =
    (if circ_head r \<le> circ_size r \<and> circ_tail r > circ_head r
     then 2 ^ 32 - head_run r else head_run r)"
  using wf_ringD [OF assms]
  by (auto simp: circ_head_bytes_def head_run_def sub32_exact sub32_wraps)

lemma head_run_le_head_bytes:
  assumes "wf_ring r"
  shows "head_run r \<le> circ_head_bytes r"
  using wf_ringD [OF assms] by (auto simp: circ_head_bytes_eq [OF assms] head_run_def)

section \<open>Committing bytes\<close>

lemma memcpy_Inr:
  "off + n \<le> length dst \<Longrightarrow> n \<le> length src \<Longrightarrow>
   memcpy dst off src n = Inr (take off dst @ take n src @ drop (off + n) dst)"
  by (simp add: memcpy_def)

lemma sub32_self [simp]: "sub32 n n = 0"
  by (simp add: sub32_def)

lemma commit_restart_eq:
  assumes "commit_restart r = r1"
  shows "r\<lparr>circ := c, circ_head := circ_head r1, circ_tail := t\<rparr> = r1\<lparr>circ := c, circ_tail := t\<rparr>"
  using assms by (auto simp: commit_restart_def)

lemma wf_restart:
  assumes "wf_ring r" and "r1 = commit_restart r"
  shows "circ r1 = circ r" "circ_size r1 = circ_size r" "length (circ r1) = circ_size r1"
    "circ_head r1 < circ_size r1" "circ_tail r1 < circ_size r1" "circ_size r1 \<le> 270000"
    "outstanding_bytes r1 = outstanding_bytes r" "ring.more r1 = ring.more r"
  using wf_ringD [OF assms(1)] by (auto simp: assms(2) commit_restart_def)

lemma commit_first_eq:
  assumes "length (circ r) = circ_size r" "circ_size r \<le> 270000"
    and "circ_tail r + k \<le> circ_size r" and "k \<le> length data"
  shows "commit_first data k r =
    Inr (r\<lparr>circ := take (circ_tail r) (circ r) @ take k data @ drop (circ_tail r + k) (circ r),
           circ_tail := (if circ_tail r + k = circ_size r then 0 else circ_tail r + k)\<rparr>)"
proof -
  have "add32 (circ_tail r) k = circ_tail r + k"
    using assms by (intro add32_exact) simp
  then show ?thesis
    using assms by (simp add: commit_first_def memcpy_Inr)
qed

lemma commit_tail_space_eq:
  assumes "circ_size r \<le> 270000" "circ_head r < circ_size r" "circ_tail r < circ_size r"
  shows "commit_tail_space n r =
     min n (if circ_tail r \<ge> circ_head r then circ_size r - circ_tail r
            else circ_head r - circ_tail r)"
  using assms by (auto simp: commit_tail_space_def Let_def sub32_exact min_def)

lemma circ_commit_one_copy:
  assumes wf: "wf_ring r" and n: "n = min n_bytes (circ_space r)" "0 < n" "n \<le> tail_room r"
    and data: "n_bytes \<le> length data" and r1: "r1 = commit_restart r"
  shows "circ_commit data n_bytes r =
    Inr (r1\<lparr>circ := take (circ_tail r1) (circ r1) @ take n data @ drop (circ_tail r1 + n) (circ r1),
           circ_tail := (if circ_tail r1 + n = circ_size r1 then 0 else circ_tail r1 + n)\<rparr>)"
proof -
  note w = wf_restart [OF wf r1]
  have nn: "(if n_bytes > circ_space r then circ_space r else n_bytes) = n"
    using n by simp
  have room: "n \<le> (if circ_tail r1 \<ge> circ_head r1 then circ_size r1 - circ_tail r1
            else circ_head r1 - circ_tail r1)"
    using n(2,3) by (auto simp: r1 commit_restart_def tail_room_def split: if_splits)
  then have ts: "commit_tail_space n r1 = n"
    using w by (subst commit_tail_space_eq) auto
  have k: "circ_tail r1 + n \<le> circ_size r1"
    using room w(4,5) by (simp split: if_splits)
  have "n \<le> length data" using n data by simp
  note first = commit_first_eq [OF w(3) w(6) k this]
  show ?thesis
    unfolding circ_commit_def nn r1 [symmetric] Let_def ts
    using n(2) by (simp add: first commit_second_def)
qed

lemma circ_commit_nothing:
  "min n_bytes (circ_space r) = 0 \<Longrightarrow> circ_commit data n_bytes r = Inr r"
  by (auto simp: circ_commit_def Let_def min_def split: if_splits)

lemma contents_restart:
  assumes "wf_ring r"
  shows "contents r = (if circ_head r > circ_size r then [] else contents (commit_restart r))"
  by (simp add: contents_def commit_restart_def)

lemma contents_one_copy_straight:
  assumes "h \<le> t" "t + length d \<le> length c"
  shows "take (t + length d - h) (drop h (take t c @ d @ drop (t + length d) c)) =
    take (t - h) (drop h c) @ d"
  using assms by (simp add: drop_take)

lemma one_copy_contents:
  assumes wf: "wf_ring r" and n: "0 < n" "n \<le> tail_room r" "n \<le> length data"
    and r1: "r1 = commit_restart r"
    and r': "r' = r1\<lparr>circ := take (circ_tail r1) (circ r1) @ take n data @ drop (circ_tail r1 + n) (circ r1),
           circ_tail := (if circ_tail r1 + n = circ_size r1 then 0 else circ_tail r1 + n)\<rparr>"
  shows "wf_ring r' \<and> contents r' = contents r @ take n data"
proof -
  note w = wf_restart [OF wf r1]
  have k: "circ_tail r1 + n \<le> circ_size r1"
    using n(1,2) w(4,5) by (auto simp: r1 commit_restart_def tail_room_def split: if_splits)
  have len: "length (circ r') = circ_size r'"
    using k w n by (simp add: r')
  have wf': "wf_ring r'"
    using k w len by (auto simp: wf_ring_def r' CIRC_BUFFER_SIZE_def)
  consider "circ_head r > circ_size r" | "circ_head r \<le> circ_size r" "circ_head r < circ_tail r"
    | "circ_head r \<le> circ_size r" "circ_tail r + n \<le> circ_head r"
    using n(1,2) by (fastforce simp: tail_room_def split: if_splits)
  then have "contents r' = contents r @ take n data"
  proof cases
    case 1
    then show ?thesis using wf_ringD(1,2) [OF wf] k n(1,3)
      by (auto simp: r' r1 commit_restart_def contents_def)
  next
    case 2
    then have "r1 = r" by (simp add: r1 commit_restart_def)
    with 2 have "contents r' = take (circ_tail r + n - circ_head r) (drop (circ_head r) (circ r'))"
      using len k by (simp add: contents_def r')
    also have "circ r' = take (circ_tail r) (circ r) @ take n data @ drop (circ_tail r + n) (circ r)"
      by (simp add: r' \<open>r1 = r\<close>)
    also have "take (circ_tail r + n - circ_head r) (drop (circ_head r) \<dots>) =
        take (circ_tail r - circ_head r) (drop (circ_head r) (circ r)) @ take n data"
      using contents_one_copy_straight [of "circ_head r" "circ_tail r" "take n data" "circ r"]
        2 k n(3) wf_ringD(1) [OF wf] \<open>r1 = r\<close> by simp
    also have "\<dots> = contents r @ take n data"
      using 2 by (simp add: contents_def)
    finally show ?thesis .
  next
    case 3
    then have "r1 = r" by (simp add: r1 commit_restart_def)
    moreover have "circ_head r < circ_size r" using 3(1) wf_ringD(5) [OF wf] by auto
    ultimately show ?thesis using 3 wf_ringD(1) [OF wf] n(1,3)
      by (auto simp: r' contents_def)
  qed
  with wf' show ?thesis by simp
qed

lemma commit_room:
  assumes wf: "wf_ring r" and d: "length d \<le> tail_room r"
  obtains r' where "circ_commit d (length d) r = Inr r'" "wf_ring r'"
    "contents r' = contents r @ d" "tail_room r \<le> tail_room r' + length d"
    "outstanding_bytes r' = outstanding_bytes r" "ring.more r' = ring.more r"
proof (cases "d = []")
  case True
  then have "circ_commit d (length d) r = Inr r" by (simp add: circ_commit_nothing)
  with wf True that show thesis by simp
next
  case False
  define r1 where "r1 = commit_restart r"
  define r' where "r' = r1\<lparr>circ := take (circ_tail r1) (circ r1) @ take (length d) d @
      drop (circ_tail r1 + length d) (circ r1),
      circ_tail := (if circ_tail r1 + length d = circ_size r1 then 0 else circ_tail r1 + length d)\<rparr>"
  have n: "0 < length d" using False by simp
  have space: "length d = min (length d) (circ_space r)"
    using d tail_room_le_space [OF wf] by simp
  have "circ_commit d (length d) r = Inr r'"
    using circ_commit_one_copy [OF wf space n d order.refl r1_def] by (simp add: r'_def)
  moreover have "wf_ring r' \<and> contents r' = contents r @ d"
    using one_copy_contents [OF wf n d order.refl r1_def r'_def] by simp
  moreover have "tail_room r \<le> tail_room r' + length d"
    using d n wf_ringD(4,5) [OF wf]
    by (auto simp: r'_def r1_def commit_restart_def tail_room_def)
  ultimately show thesis
    using that wf_restart(7,8) [OF wf r1_def] by (simp add: r'_def)
qed

lemma tail_room_eq_space:
  assumes "wf_ring r" and "\<not> (circ_head r \<le> circ_size r \<and> circ_head r < circ_tail r)"
  shows "tail_room r = circ_space r"
  using wf_ringD(1,4) [OF assms(1)] assms(2)
  by (auto simp: circ_space_eq [OF assms(1)] tail_room_def contents_def)

lemma circ_commit_two_copies:
  assumes wf: "wf_ring r" and n: "n = min n_bytes (circ_space r)" "tail_room r < n"
    and data: "n_bytes \<le> length data"
  defines "k \<equiv> circ_size r - circ_tail r"
  shows "circ_head r < circ_tail r" "k < n" "n - k \<le> circ_head r"
    "circ_commit data n_bytes r =
      Inr (r\<lparr>circ := take (n - k) (drop k data) @ drop (n - k) (take (circ_tail r) (circ r)) @ take k data,
             circ_tail := k\<rparr>)"
proof -
  note w = wf_ringD [OF wf]
  have nn: "(if n_bytes > circ_space r then circ_space r else n_bytes) = n"
    using n by simp
  have ht: "circ_head r < circ_tail r \<and> circ_head r \<le> circ_size r"
    using n tail_room_eq_space [OF wf] by fastforce
  then show "circ_head r < circ_tail r" by simp
  show kn: "k < n" using n(2) ht by (simp add: k_def tail_room_def)
  have "n \<le> circ_size r - (circ_tail r - circ_head r)"
    using n(1) ht w(1,4) by (simp add: circ_space_eq [OF wf] contents_def)
  then show nk: "n - k \<le> circ_head r" using ht w(4) by (simp add: k_def)
  have r1: "commit_restart r = r" using ht by (simp add: commit_restart_def)
  have ts: "commit_tail_space n r = k"
    using ht w kn by (subst commit_tail_space_eq) (auto simp: k_def)
  have tk: "circ_tail r + k = circ_size r" using w(4) by (simp add: k_def)
  have kd: "k \<le> length data" "n - k \<le> length data - k" using kn data n(1) by auto
  have "commit_first data k r = Inr (r\<lparr>circ := take (circ_tail r) (circ r) @ take k data, circ_tail := 0\<rparr>)"
    using commit_first_eq [of r k data] w tk kd(1) by simp
  moreover have "sub32 n k = n - k"
    using kn nk ht w by (intro sub32_exact) (auto simp: k_def)
  moreover have "n - (k + circ_tail r) = 0" using nk ht by linarith
  moreover have "add32 0 k = k" using w tk by (simp add: add32_def)
  ultimately show "circ_commit data n_bytes r =
      Inr (r\<lparr>circ := take (n - k) (drop k data) @ drop (n - k) (take (circ_tail r) (circ r)) @ take k data,
             circ_tail := k\<rparr>)"
    unfolding circ_commit_def nn Let_def r1 ts
    using kn nk kd ht w(1,4)
    by (simp add: commit_second_def memcpy_Inr)
qed

lemma circ_commit_wraps:
  assumes wf: "wf_ring r" and n: "n = min n_bytes (circ_space r)" "tail_room r < n"
    and data: "n_bytes \<le> length data"
  obtains r' where "circ_commit data n_bytes r = Inr r'" "wf_ring r'"
    "contents r' = contents r @ take n data \<longleftrightarrow> n = 2 * (circ_size r - circ_tail r)"
    "outstanding_bytes r' = outstanding_bytes r" "ring.more r' = ring.more r"
    "circ_size r' = circ_size r"
proof -
  define k where "k = circ_size r - circ_tail r"
  define c where "c = take (n - k) (drop k data) @ drop (n - k) (take (circ_tail r) (circ r)) @ take k data"
  define r' where "r' = r\<lparr>circ := c, circ_tail := k\<rparr>"
  note two = circ_commit_two_copies [OF wf n data, folded k_def]
  note w = wf_ringD [OF wf]
  have h: "circ_head r < circ_tail r" "circ_head r < circ_size r" using two(1) w(4) by simp_all
  have kt: "circ_tail r + k = circ_size r" "0 < k" "k < circ_size r"
    using w(4) h(1) by (simp_all add: k_def)
  have nd: "k < n" "n - k \<le> circ_head r" "n \<le> length data"
    using two(2,3) data n(1) by simp_all
  have len: "length c = circ_size r"
    using nd h w(1,4) kt by (simp add: c_def)
  have wf': "wf_ring r'"
    using len kt h w(2,3) by (simp add: r'_def wf_ring_def CIRC_BUFFER_SIZE_def)
  have old: "contents r = take (circ_tail r - circ_head r) (drop (circ_head r) (circ r))"
    using h by (simp add: contents_def)
  have "contents r' = contents r @ take n data \<longleftrightarrow> n = 2 * k"
  proof (cases "k > circ_head r")
    case True
    then have "length (contents r') = k - circ_head r"
      using h kt len by (simp add: contents_def r'_def)
    moreover have "length (contents r @ take n data) = circ_tail r - circ_head r + n"
      using w(1,4) nd old by simp
    ultimately show ?thesis using nd(1) True h nd(2) by fastforce
  next
    case False
    then have c': "contents r' = drop (circ_head r) c @ take k c"
      using h by (simp add: contents_def r'_def)
    have "drop (circ_head r) c = take (circ_tail r - circ_head r) (drop (circ_head r) (circ r)) @ take k data"
      using nd h w(1,4) by (simp add: c_def drop_take)
    then have "contents r' = contents r @ take k data @ take k c"
      using c' old by simp
    moreover have "take n data = take k data @ take (n - k) (drop k data)"
      using nd(1) by (metis less_imp_le take_append_drop_take)
    moreover have "take k c = take (n - k) (drop k data) \<longleftrightarrow> k = n - k"
    proof
      assume "take k c = take (n - k) (drop k data)"
      then have "length (take k c) = length (take (n - k) (drop k data))" by (rule arg_cong)
      then show "k = n - k" using len kt nd by simp
    next
      assume "k = n - k"
      then show "take k c = take (n - k) (drop k data)" using nd(3) by (simp add: c_def)
    qed
    ultimately show ?thesis using nd(1) by auto
  qed
  with two(4) wf' show thesis
    by (intro that [of r']) (simp_all add: r'_def c_def k_def)
qed

lemma circ_commit_total:
  assumes wf: "wf_ring r" and data: "n_bytes \<le> length data"
  obtains r' where "circ_commit data n_bytes r = Inr r'" "wf_ring r'"
    "outstanding_bytes r' = outstanding_bytes r" "ring.more r' = ring.more r"
    "circ_size r' = circ_size r"
proof (cases "min n_bytes (circ_space r) \<le> tail_room r")
  case True
  show thesis
  proof (cases "min n_bytes (circ_space r) = 0")
    case True
    then show thesis using that wf by (simp add: circ_commit_nothing)
  next
    case False
    then have n: "0 < min n_bytes (circ_space r)" by simp
    show thesis
      using that circ_commit_one_copy [OF wf refl n True data refl]
        one_copy_contents [OF wf n True _ refl refl] data wf_restart(2,7,8) [OF wf refl] by simp
  qed
next
  case False
  then show thesis
    using that circ_commit_wraps [OF wf refl _ data] by (metis not_le)
qed

section \<open>Consuming and transmitting bytes\<close>

lemma circ_consume_run:
  assumes wf: "wf_ring r" and n: "0 < n" "n \<le> head_run r"
  obtains r' where "circ_consume n r = Inr r'" "wf_ring r'" "contents r' = drop n (contents r)"
    "outstanding_bytes r' = add32 (outstanding_bytes r) n" "ring.more r' = ring.more r"
    "circ r' = circ r" "tail_room r \<le> tail_room r'" "circ_size r' = circ_size r"
proof -
  note w = wf_ringD [OF wf]
  have h: "circ_head r < circ_size r" "circ_head r + n \<le> circ_size r"
    using n w(2,4,5) by (auto simp: head_run_def split: if_splits)
  then have a: "add32 (circ_head r) n = circ_head r + n" "add32 (circ_size r) (Suc 0) = Suc (circ_size r)"
    using w(3) by (simp_all add: add32_exact)
  define h' where "h' = (if circ_head r + n = circ_size r then 0 else circ_head r + n)"
  define h'' where "h'' = (if h' = circ_tail r then circ_size r + 1 else h')"
  define r' where "r' = r\<lparr>outstanding_bytes := add32 (outstanding_bytes r) n, circ_head := h''\<rparr>"
  have ok: "n \<le> circ_head_bytes r" using n head_run_le_head_bytes [OF wf] by simp
  have "circ_consume n r = Inr r'"
    using ok a by (auto simp: circ_consume_def Let_def r'_def h''_def h'_def)
  moreover have "wf_ring r'"
    using w(1-4) h by (auto simp: wf_ring_def r'_def h''_def h'_def CIRC_BUFFER_SIZE_def)
  moreover have "contents r' = drop n (contents r)"
  proof (cases "circ_tail r > circ_head r")
    case True
    then have "circ_head r + n \<le> circ_tail r" using n h by (simp add: head_run_def)
    then show ?thesis
      using True w(1,4) h n(1) by (auto simp: contents_def r'_def h''_def h'_def drop_take add.commute)
  next
    case False
    then show ?thesis
      using w(1,4) h n(1) by (auto simp: contents_def r'_def h''_def h'_def add.commute)
  qed
  moreover have "tail_room r \<le> tail_room r'"
    using w(4) h n by (auto simp: tail_room_def head_run_def r'_def h''_def h'_def split: if_splits)
  ultimately show thesis using that [of r'] by (simp add: r'_def)
qed

lemma head_bytes_at_head:
  assumes wf: "wf_ring r" and "n \<le> head_run r"
  shows "take n (drop (circ_head r) (circ r)) = take n (contents r)"
  using assms wf_ringD(1,4) [OF wf]
  by (auto simp: head_run_def contents_def min_def split: if_splits)

lemma wf_ring_cong:
  "wf_ring (x\<lparr>chan := c\<rparr>) = wf_ring x" "contents (x\<lparr>chan := c\<rparr>) = contents x"
  "head_run (x\<lparr>chan := c\<rparr>) = head_run x" "tail_room (x\<lparr>chan := c\<rparr>) = tail_room x"
  "circ_head_bytes (x\<lparr>chan := c\<rparr>) = circ_head_bytes x"
  by (simp_all add: wf_ring_def contents_def head_run_def tail_room_def circ_head_bytes_def)

lemma circ_transmit_ok:
  assumes "wf_ring x" and "n \<le> length (contents x)" and app: "appends C w"
  shows "\<exists>x'. circ_transmit C n x = Inr x' \<and> wf_ring x' \<and> contents x' = drop n (contents x)
    \<and> w (chan x') = w (chan x) @ take n (contents x)
    \<and> outstanding_bytes x' = (if n = 0 then outstanding_bytes x else add32 (outstanding_bytes x) n)
    \<and> ring_out.more x' = ring_out.more x \<and> tail_room x \<le> tail_room x'
    \<and> circ_size x' = circ_size x"
  using assms(1,2)
proof (induction n arbitrary: x rule: less_induct)
  case (less n)
  note wf = less.prems(1)
  show ?case
  proof (cases "n = 0")
    case True
    then show ?thesis using wf by (subst circ_transmit.simps) simp
  next
    case False
    have run: "0 < head_run x"
      using False less.prems by (intro head_run_pos) auto
    define m where "m = (if n < circ_head_bytes x then n else circ_head_bytes x)"
    have m: "0 < m" "m \<le> n" "m \<le> head_run x"
      using False run head_run_le_head_bytes [OF wf] less.prems
        wf_ringD [OF wf]
      by (auto simp: m_def circ_head_bytes_eq [OF wf] head_run_def contents_def split: if_splits)
    have len: "circ_head x + m \<le> length (circ x)"
      using m(1,3) wf_ringD(1,4) [OF wf] by (auto simp: head_run_def split: if_splits)
    define x1 where "x1 = x\<lparr>chan := snd (iwrite_op C (take m (drop (circ_head x) (circ x))) (chan x))\<rparr>"
    have x1: "wf_ring x1" "m \<le> head_run x1" "contents x1 = contents x"
      "outstanding_bytes x1 = outstanding_bytes x" "ring_out.more x1 = ring_out.more x"
      "w (chan x1) = w (chan x) @ take m (contents x)" "tail_room x1 = tail_room x"
      "circ_size x1 = circ_size x"
      using wf m app by (simp_all add: x1_def wf_ring_cong appends_iwrite head_bytes_at_head)
    obtain x2 where x2: "circ_consume m x1 = Inr x2" "wf_ring x2" "contents x2 = drop m (contents x)"
      "outstanding_bytes x2 = add32 (outstanding_bytes x) m" "ring.more x2 = ring.more x1"
      "tail_room x \<le> tail_room x2" "circ_size x2 = circ_size x"
      using circ_consume_run [OF x1(1) m(1) x1(2)] x1(3,4,7,8) by metis
    have chan2: "chan x2 = chan x1" "ring_out.more x2 = ring_out.more x"
      using x2(5) x1(5) by (cases x2, cases x1, simp)+
    have step: "circ_transmit C n x = circ_transmit C (n - m) x2"
      using False m(1) run head_run_le_head_bytes [OF wf] len x2(1)
      by (subst circ_transmit.simps) (simp add: Let_def m_def [symmetric] x1_def [symmetric])
    obtain x' where x': "circ_transmit C (n - m) x2 = Inr x'" "wf_ring x'"
      "contents x' = drop (n - m) (contents x2)"
      "w (chan x') = w (chan x2) @ take (n - m) (contents x2)"
      "outstanding_bytes x' = (if n - m = 0 then outstanding_bytes x2 else add32 (outstanding_bytes x2) (n - m))"
      "ring_out.more x' = ring_out.more x2" "tail_room x2 \<le> tail_room x'"
      "circ_size x' = circ_size x2"
      using less.IH [of "n - m" x2] m x2(2,3) less.prems(2) by (auto simp: diff_le_mono)
    have "w (chan x') = w (chan x) @ take n (contents x)"
      using x'(4) x2(3) chan2(1) x1(6) m(2) by (simp add: take_append_drop_take)
    moreover have "outstanding_bytes x' = add32 (outstanding_bytes x) n"
      using x'(5) x2(4) m(2) by (auto simp: add32_add32 split: if_splits)
    moreover have "contents x' = drop n (contents x)"
      using x'(3) x2(3) m(2) by simp
    ultimately show ?thesis using step x'(1,2,6,7,8) x2(6,7) chan2(2) False by simp
  qed
qed

section \<open>The buffer as a byte queue\<close>

lemma ring_out_eqs:
  assumes "ring.more x' = ring.more (x :: ('o, 'b) ring_out_scheme)"
  shows "chan x' = chan x" "ring_out.more x' = ring_out.more x"
  using assms by (cases x', cases x, simp)+

interpretation ring_fifo: byte_fifo
  "\<lambda>x :: ('o, 'b) ring_out_scheme. wf_ring x \<and> appends C w" contents "\<lambda>x. w (chan x)"
  tail_room "\<lambda>d. circ_commit d (length d)" "circ_transmit C"
  for C :: "'o chan_ops" and w :: "'o \<Rightarrow> byte list"
proof unfold_locales
  fix s :: "('o, 'b) ring_out_scheme" and d :: "byte list"
  assume "wf_ring s \<and> appends C w" and "length d \<le> tail_room s"
  then show "\<exists>s'. circ_commit d (length d) s = Inr s' \<and> (wf_ring s' \<and> appends C w)
      \<and> contents s' = contents s @ d \<and> w (chan s') = w (chan s)
      \<and> tail_room s \<le> tail_room s' + length d"
    using commit_room [of s d] ring_out_eqs by metis
next
  fix s :: "('o, 'b) ring_out_scheme" and n :: nat
  assume "wf_ring s \<and> appends C w" and "n \<le> length (contents s)"
  then show "\<exists>s'. circ_transmit C n s = Inr s' \<and> (wf_ring s' \<and> appends C w)
      \<and> contents s' = drop n (contents s) \<and> w (chan s') = w (chan s) @ take n (contents s)"
    using circ_transmit_ok [of s n C w] by blast
qed

section \<open>Properties\<close>

text \<open>
  C10: On a well-formed buffer \<open>circ_commit\<close> fails no assertion and stays inside both arrays,
  whatever the length; it leaves a well-formed buffer. When the bytes it takes (at most the free
  space) fit before the end of the array or before the head, they are appended in order.
\<close>

theorem circ_commit_appends:
  assumes "wf_ring r" and "n_bytes \<le> length data"
  shows "\<exists>r'. circ_commit data n_bytes r = Inr r' \<and> wf_ring r'
    \<and> (min n_bytes (circ_space r) \<le> tail_room r \<longrightarrow>
         contents r' = contents r @ take (min n_bytes (circ_space r)) data)"
proof (cases "min n_bytes (circ_space r) \<le> tail_room r")
  case True
  show ?thesis
  proof (cases "min n_bytes (circ_space r) = 0")
    case True
    then show ?thesis using assms(1) by (simp add: circ_commit_nothing)
  next
    case False
    then show ?thesis
      using circ_commit_one_copy [OF assms(1) refl _ True assms(2) refl]
        one_copy_contents [OF assms(1) _ True _ refl refl] assms(2) by simp
  qed
next
  case False
  then show ?thesis
    using circ_commit_wraps [OF assms(1) refl _ assms(2)] by (metis not_le)
qed

text \<open>
  C24: When the bytes have to be split at the end of the array, \<open>circ_commit\<close> queues the
  right bytes only if the two parts have the same length: after the second copy the tail is
  advanced by the length of the first. In every other case the queue holds something else.
\<close>

theorem circ_commit_wrap_corrupts:
  assumes "wf_ring r" and "n_bytes \<le> length data"
    and "tail_room r < min n_bytes (circ_space r)"
  shows "\<exists>r'. circ_commit data n_bytes r = Inr r'
    \<and> (contents r' = contents r @ take (min n_bytes (circ_space r)) data \<longleftrightarrow>
         min n_bytes (circ_space r) = 2 * (circ_size r - circ_tail r))"
  using circ_commit_wraps [OF assms(1) refl assms(3,2)] by metis

text \<open>
  C5: Any sequence of commits that each fit contiguously and of transmissions of at most what is
  queued runs without a failed assertion, and the bytes written to the socket followed by the
  bytes still queued are the initial ones followed by the committed ones, in order.
\<close>

theorem ring_stream_preserved:
  assumes "wf_ring x" and "appends C w"
    and "fits tail_room contents (\<lambda>d. circ_commit d (length d)) (circ_transmit C) ops x"
  shows "\<exists>x'. run_fifo (\<lambda>d. circ_commit d (length d)) (circ_transmit C) ops x = Inr x'
    \<and> wf_ring x' \<and> w (chan x') @ contents x' = w (chan x) @ contents x @ pushed ops"
  using ring_fifo.stream_preserved [of x C w ops] assms by auto

text \<open>
  C32: \<open>circ_head_bytes\<close> does not return the contiguous bytes at the head when the queued bytes
  do not wrap: its subtraction is the wrong way round and the unsigned result is near 2^32. The
  value is never below the true one, and \<open>circ_transmit\<close> of what is queued still writes
  exactly the queued bytes and credits them as outstanding.
\<close>

theorem circ_head_bytes_wrong_but_harmless:
  assumes "wf_ring x" and "appends C w" and "n \<le> length (contents x)" and "0 < n"
  shows "head_run x \<le> circ_head_bytes x
    \<and> (circ_head x < circ_tail x \<and> circ_head x \<le> circ_size x \<longrightarrow>
         circ_head_bytes x = 2 ^ 32 - head_run x)
    \<and> (\<exists>x'. circ_transmit C n x = Inr x' \<and> w (chan x') = w (chan x) @ take n (contents x)
         \<and> contents x' = drop n (contents x)
         \<and> outstanding_bytes x' = add32 (outstanding_bytes x) n)"
  using circ_transmit_ok [OF assms(1,3,2)] head_run_le_head_bytes [OF assms(1)]
    circ_head_bytes_eq [OF assms(1)] assms(4) by auto

section \<open>Witnesses\<close>

definition small_ring :: "nat \<Rightarrow> nat \<Rightarrow> byte list ring_out" where
  "small_ring h t = \<lparr>circ = [0, 1, 2, 3, 4, 5, 6, 7], circ_size = 8, circ_head = h, circ_tail = t,
     outstanding_bytes = 0, chan = []\<rparr>"

lemma wf_small_ring [simp]: "h < 8 \<or> h = 9 \<Longrightarrow> t < 8 \<Longrightarrow> wf_ring (small_ring h t)"
  by (auto simp: wf_ring_def small_ring_def CIRC_BUFFER_SIZE_def)

theorem circ_commit_appends_witness:
  "\<exists>r'. circ_commit [21, 22] 2 (small_ring 3 6) = Inr r' \<and> contents r' = [3, 4, 5, 21, 22]"
proof -
  have c: "circ_space (small_ring 3 6) = 5" "tail_room (small_ring 3 6) = 2"
    "contents (small_ring 3 6) = [3, 4, 5]" by code_simp+
  show ?thesis
    using circ_commit_appends [of "small_ring 3 6" 2 "[21, 22]"] by (auto simp: c)
qed

theorem circ_commit_wrap_corrupts_witness:
  "\<exists>r'. circ_commit [21, 22, 23, 24, 25] 5 (small_ring 3 6) = Inr r'
    \<and> contents r' \<noteq> [3, 4, 5, 21, 22, 23, 24, 25]"
proof -
  have c: "circ_space (small_ring 3 6) = 5" "tail_room (small_ring 3 6) = 2"
    "contents (small_ring 3 6) = [3, 4, 5]" "circ_size (small_ring 3 6) = 8"
    "circ_tail (small_ring 3 6) = 6" by code_simp+
  show ?thesis
    using circ_commit_wrap_corrupts [of "small_ring 3 6" 5 "[21, 22, 23, 24, 25]"]
    by (auto simp: c)
qed

theorem ring_stream_preserved_witness:
  "\<exists>x'. run_fifo (\<lambda>d. circ_commit d (length d)) (circ_transmit open_chan)
      [Push [21, 22, 23], Pop 2, Push [24, 25]] (small_ring 9 0) = Inr x'
    \<and> chan x' @ contents x' = [21, 22, 23, 24, 25]"
proof -
  have f: "fits tail_room contents (\<lambda>d. circ_commit d (length d)) (circ_transmit open_chan)
      [Push [21, 22, 23], Pop 2, Push [24, 25]] (small_ring 9 0)"
    by code_simp
  have c: "chan (small_ring 9 0) = []" "contents (small_ring 9 0) = []" by code_simp+
  show ?thesis
    using ring_stream_preserved [OF _ open_chan_appends f]
    by (auto simp: c simp del: run_fifo.simps)
qed

theorem circ_head_bytes_wrong_but_harmless_witness:
  "circ_head_bytes (small_ring 3 6) = 2 ^ 32 - 3
   \<and> (\<exists>x'. circ_transmit open_chan 2 (small_ring 3 6) = Inr x' \<and> chan x' = [3, 4])"
proof -
  have c: "contents (small_ring 3 6) = [3, 4, 5]" "head_run (small_ring 3 6) = 3"
    "circ_head (small_ring 3 6) < circ_tail (small_ring 3 6)" "chan (small_ring 3 6) = []"
    "circ_head (small_ring 3 6) \<le> circ_size (small_ring 3 6)"
    by code_simp+
  show ?thesis
    using circ_head_bytes_wrong_but_harmless [of "small_ring 3 6" open_chan "\<lambda>out. out" 2]
    by (auto simp: c)
qed

end
