(* ===== verification/CtrlInput.thy ===== *)
theory CtrlInput
  imports Dasio
begin

text \<open>
  The loop that \<open>xiomas_tcp_export::app_input\<close> and \<open>nephex_tcp_export::app_input\<close> have in
  common: it takes framed packets off the input, hands the length of every acknowledge to the
  exporter, and refuses everything else. The exporter enters as two parameters, its count of
  outstanding bytes and its reaction to an acknowledge; its contract is the locale below.
\<close>

section \<open>The loop\<close>

partial_function (option) ctrl_input ::
  "dasio \<Rightarrow> serio \<Rightarrow> ('x \<Rightarrow> nat) \<Rightarrow> (nat \<Rightarrow> 'x \<Rightarrow> (fault + 'x) option) \<Rightarrow> inbuf \<Rightarrow> 'x \<Rightarrow>
   (fault + inbuf \<times> 'x) option" where
  "ctrl_input D S outst on_ack s x =
     (if \<not> cp s < nc s then Some (Inr (s, x))
      else case not_serio_pkt S s of
        No_packet s \<Rightarrow> Some (Inr (s, x))
      | Packet ty len payload s \<Rightarrow>
          if ty = pkt_type_CTRL S
          then
            if unat len \<noteq> ctrl_payload_size S
            then
              let s = report_err_op D s
              in ctrl_input D S outst on_ack (s\<lparr>cp := cp s + 1\<rparr>) x
            else if ctrl_subtype S payload = ctrl_subtype_ACK S
            then
              let s = (if ctrl_length S payload > outst x then report_err_op D s else s)
              in (case on_ack (ctrl_length S payload) x of
                    None \<Rightarrow> None
                  | Some (Inl e) \<Rightarrow> Some (Inl e)
                  | Some (Inr x) \<Rightarrow>
                      ctrl_input D S outst on_ack
                        (report_ok_op D (pkt_hdr_size S + unat len) s) x)
            else
              let s = report_err_op D s
              in ctrl_input D S outst on_ack (report_ok_op D (pkt_hdr_size S + unat len) s) x
          else ctrl_input D S outst on_ack (report_err_op D s) x)"

text \<open>
  The input on which the loop comes to a packet that is not a control packet: at once, or after
  control packets of the wrong length, which are skipped by a byte, and of the right length, which
  are taken.
\<close>

inductive meets_other :: "serio \<Rightarrow> inbuf \<Rightarrow> bool" for S where
  other: "cp s < nc s \<Longrightarrow> not_serio_pkt S s = Packet ty len payload s' \<Longrightarrow> ty \<noteq> pkt_type_CTRL S \<Longrightarrow>
     meets_other S s"
| skipped: "cp s < nc s \<Longrightarrow> not_serio_pkt S s = Packet (pkt_type_CTRL S) len payload s' \<Longrightarrow>
     unat len \<noteq> ctrl_payload_size S \<Longrightarrow> meets_other S (s'\<lparr>cp := cp s' + 1\<rparr>) \<Longrightarrow> meets_other S s"
| taken: "cp s < nc s \<Longrightarrow> not_serio_pkt S s = Packet (pkt_type_CTRL S) len payload s' \<Longrightarrow>
     unat len = ctrl_payload_size S \<Longrightarrow> meets_other S (consumed (pkt_hdr_size S + unat len) s') \<Longrightarrow>
     meets_other S s"

text \<open>A recogniser that, asked again, presents the packet at the front of the buffer again.\<close>

definition finds_again :: "serio \<Rightarrow> bool" where
  "finds_again S \<longleftrightarrow> (\<forall>s ty len payload s'. not_serio_pkt S s = Packet ty len payload s' \<longrightarrow>
     not_serio_pkt S s' = Packet ty len payload s')"

section \<open>Contract of the exporter\<close>

text \<open>
  \<open>inv\<close> is what the exporter maintains and \<open>rel x x'\<close> what it promises about its state across
  acknowledges, a reflexive and transitive relation.
\<close>

locale ack_handler =
  fixes outst :: "'x \<Rightarrow> nat"
    and on_ack :: "nat \<Rightarrow> 'x \<Rightarrow> (fault + 'x) option"
    and inv :: "'x \<Rightarrow> bool"
    and rel :: "'x \<Rightarrow> 'x \<Rightarrow> bool"
  assumes ack_law: "inv x \<Longrightarrow> \<exists>x'. on_ack n x = Some (Inr x') \<and> inv x' \<and> rel x x'"
    and rel_refl: "rel x x"
    and rel_trans: "rel x y \<Longrightarrow> rel y z \<Longrightarrow> rel x z"
begin

lemma ctrl_input_returns:
  assumes "consumes D" and "reports_only D" and "presents_packets S"
    and "inv x" and "\<not> meets_other S s"
  shows "\<exists>s' x'. ctrl_input D S outst on_ack s x = Some (Inr (s', x')) \<and> inv x' \<and> rel x x'"
  using assms(4,5)
proof (induction "nc s - cp s" arbitrary: s x rule: less_induct)
  case less
  have err: "report_err_op D t = t" for t using assms(2) by (simp add: reports_only_def)
  have ok: "report_ok_op D n t = consumed n t" if "n \<le> nc t" for n t
    using assms(1) that by (simp add: consumes_def)
  show ?case
  proof (cases "cp s < nc s")
    case False
    then have "ctrl_input D S outst on_ack s x = Some (Inr (s, x))"
      by (subst ctrl_input.simps) simp
    with less.prems(1) rel_refl show ?thesis by blast
  next
    case True
    show ?thesis
    proof (cases "not_serio_pkt S s")
      case (No_packet s1)
      then have "ctrl_input D S outst on_ack s x = Some (Inr (s1, x))"
        using True by (subst ctrl_input.simps) simp
      with less.prems(1) rel_refl show ?thesis by blast
    next
      case (Packet ty len payload s1)
      have ty: "ty = pkt_type_CTRL S" using True Packet less.prems(2) other by blast
      have p: "0 < pkt_hdr_size S" "cp s1 = 0" "pkt_hdr_size S + unat len \<le> nc s1"
        "nc s1 + cp s \<le> nc s"
        using assms(3) Packet by (simp_all add: presents_packets_def)
      define s2 where "s2 = consumed (pkt_hdr_size S + unat len) s1"
      have skip: "nc (s1\<lparr>cp := 1\<rparr>) - cp (s1\<lparr>cp := 1\<rparr>) < nc s - cp s"
        using p True by simp
      have adv: "nc s2 - cp s2 < nc s - cp s"
        using p True by (simp add: s2_def consumed_def)
      consider "unat len \<noteq> ctrl_payload_size S"
        | "unat len = ctrl_payload_size S" "ctrl_subtype S payload = ctrl_subtype_ACK S"
        | "unat len = ctrl_payload_size S" "ctrl_subtype S payload \<noteq> ctrl_subtype_ACK S"
        by blast
      then show ?thesis
      proof cases
        case 1
        then have "ctrl_input D S outst on_ack s x = ctrl_input D S outst on_ack (s1\<lparr>cp := 1\<rparr>) x"
          using True Packet ty p by (subst ctrl_input.simps) (simp add: err Let_def)
        moreover have "\<not> meets_other S (s1\<lparr>cp := 1\<rparr>)"
          using skipped [OF True Packet [unfolded ty] 1] less.prems(2) p(2) by auto
        ultimately show ?thesis using less.hyps [OF skip less.prems(1)] by simp
      next
        case 2
        obtain x1 where x1: "on_ack (ctrl_length S payload) x = Some (Inr x1)" "inv x1" "rel x x1"
          using ack_law [OF less.prems(1)] by blast
        have "ctrl_input D S outst on_ack s x = ctrl_input D S outst on_ack s2 x1"
          using True Packet ty p 2 x1(1)
          by (subst ctrl_input.simps) (simp add: err ok Let_def s2_def)
        moreover have "\<not> meets_other S s2"
          using taken [OF True Packet [unfolded ty] 2(1)] less.prems(2) by (auto simp: s2_def)
        ultimately show ?thesis using less.hyps [OF adv x1(2)] x1(3) rel_trans by fastforce
      next
        case 3
        then have "ctrl_input D S outst on_ack s x = ctrl_input D S outst on_ack s2 x"
          using True Packet ty p by (subst ctrl_input.simps) (simp add: err ok Let_def s2_def)
        moreover have "\<not> meets_other S s2"
          using taken [OF True Packet [unfolded ty] 3(1)] less.prems(2) by (auto simp: s2_def)
        ultimately show ?thesis using less.hyps [OF adv less.prems(1)] by simp
      qed
    qed
  qed
qed

text \<open>Whatever the packets are: the loop does not fault, and when it returns it has kept the contract.\<close>

lemma ctrl_input_kept:
  assumes "ctrl_input D S outst on_ack s x = Some r" and "inv x"
  shows "\<exists>s' x'. r = Inr (s', x') \<and> inv x' \<and> rel x x'"
proof -
  have "o' = outst \<and> a' = on_ack \<and> inv x \<longrightarrow> (\<exists>s' x'. r = Inr (s', x') \<and> inv x' \<and> rel x x')"
    if "ctrl_input D S o' a' s x = Some r" for D S o' a' s x r
  proof (rule ctrl_input.raw_induct [where P = "\<lambda>D S o' a' s x r.
        o' = outst \<and> a' = on_ack \<and> inv x \<longrightarrow> (\<exists>s' x'. r = Inr (s', x') \<and> inv x' \<and> rel x x')"
        and xa = "(((((D, S), o'), a'), s), x)" and y = r, unfolded prod.case])
    fix f :: "dasio \<Rightarrow> serio \<Rightarrow> ('x \<Rightarrow> nat) \<Rightarrow> (nat \<Rightarrow> 'x \<Rightarrow> (fault + 'x) option) \<Rightarrow> inbuf
      \<Rightarrow> 'x \<Rightarrow> (fault + inbuf \<times> 'x) option"
    fix D S o' a' s x r
    assume IH: "\<And>D S o' a' s x r. f D S o' a' s x = Some r \<Longrightarrow>
        o' = outst \<and> a' = on_ack \<and> inv x \<longrightarrow> (\<exists>s' x'. r = Inr (s', x') \<and> inv x' \<and> rel x x')"
    assume eq: "(if \<not> cp s < nc s then Some (Inr (s, x))
      else case not_serio_pkt S s of
        No_packet s \<Rightarrow> Some (Inr (s, x))
      | Packet ty len payload s \<Rightarrow>
          if ty = pkt_type_CTRL S
          then
            if unat len \<noteq> ctrl_payload_size S
            then
              let s = report_err_op D s
              in f D S o' a' (s\<lparr>cp := cp s + 1\<rparr>) x
            else if ctrl_subtype S payload = ctrl_subtype_ACK S
            then
              let s = (if ctrl_length S payload > o' x then report_err_op D s else s)
              in (case a' (ctrl_length S payload) x of
                    None \<Rightarrow> None
                  | Some (Inl e) \<Rightarrow> Some (Inl e)
                  | Some (Inr x) \<Rightarrow>
                      f D S o' a' (report_ok_op D (pkt_hdr_size S + unat len) s) x)
            else
              let s = report_err_op D s
              in f D S o' a' (report_ok_op D (pkt_hdr_size S + unat len) s) x
          else f D S o' a' (report_err_op D s) x) = Some r"
    show "o' = outst \<and> a' = on_ack \<and> inv x \<longrightarrow> (\<exists>s' x'. r = Inr (s', x') \<and> inv x' \<and> rel x x')"
    proof (intro impI, elim conjE)
      assume o: "o' = outst" "a' = on_ack" and x: "inv x"
      have again: "\<exists>s' x'. r = Inr (s', x') \<and> inv x' \<and> rel x x'"
        if "f D S outst on_ack t y = Some r" "inv y" "rel x y" for t y
        using IH [OF that(1)] that(2,3) rel_trans by blast
      show "\<exists>s' x'. r = Inr (s', x') \<and> inv x' \<and> rel x x'"
      proof (cases "cp s < nc s")
        case False
        then show ?thesis using eq x rel_refl by auto
      next
        case True
        show ?thesis
        proof (cases "not_serio_pkt S s")
          case (No_packet t)
          then show ?thesis using eq True x rel_refl by auto
        next
          case (Packet ty len payload t)
          obtain y where "on_ack (ctrl_length S payload) x = Some (Inr y)" "inv y" "rel x y"
            using ack_law [OF x] by blast
          with eq True Packet show ?thesis
            using again [OF _ x rel_refl] again by (auto simp: o Let_def split: if_splits)
        qed
      qed
    qed
  qed (use that in simp_all)
  then show ?thesis using assms by blast
qed

end

section \<open>A packet of another type\<close>

text \<open>
  The branch for other packet types neither advances \<open>cp\<close> nor consumes anything: when the
  recogniser presents the same packet again, the loop never returns.
\<close>

lemma ctrl_input_stuck:
  fixes outst :: "'x \<Rightarrow> nat"
  assumes "reports_only D" and "presents_packets S"
    and "cp s < nc s" and "not_serio_pkt S s = Packet ty len payload s'"
    and "ty \<noteq> pkt_type_CTRL S" and "not_serio_pkt S s' = Packet ty len payload s'"
  shows "ctrl_input D S outst on_ack s x = None"
proof (rule ccontr)
  have s': "cp s' < nc s'"
    using assms(2,4) unfolding presents_packets_def
    by (metis add_gr_0 less_le_trans)
  have err: "report_err_op D t = t" for t using assms(1) by (simp add: reports_only_def)
  have F: False if "ctrl_input D S outst on_ack t y = Some r" "t = s'" for t y r
  proof (rule ctrl_input.raw_induct [where P = "\<lambda>D' S' (outst' :: 'x \<Rightarrow> nat) on_ack' t (y :: 'x) r.
        D' = D \<and> S' = S \<and> t = s' \<longrightarrow> False"
        and xa = "(((((D, S), outst), on_ack), t), y)" and y = r, unfolded prod.case, THEN mp])
    fix D' S' t r
    fix f :: "dasio \<Rightarrow> serio \<Rightarrow> ('x \<Rightarrow> nat) \<Rightarrow> (nat \<Rightarrow> 'x \<Rightarrow> (fault + 'x) option) \<Rightarrow> inbuf
      \<Rightarrow> 'x \<Rightarrow> (fault + inbuf \<times> 'x) option"
    fix outst' :: "'x \<Rightarrow> nat" and on_ack' :: "nat \<Rightarrow> 'x \<Rightarrow> (fault + 'x) option" and y :: 'x
    assume IH: "\<And>D' S' outst' on_ack' t y r. f D' S' outst' on_ack' t y = Some r \<Longrightarrow>
        D' = D \<and> S' = S \<and> t = s' \<longrightarrow> False"
    assume eq: "(if \<not> cp t < nc t then Some (Inr (t, y))
      else case not_serio_pkt S' t of
        No_packet s \<Rightarrow> Some (Inr (s, y))
      | Packet ty len payload s \<Rightarrow>
          if ty = pkt_type_CTRL S'
          then
            if unat len \<noteq> ctrl_payload_size S'
            then
              let s = report_err_op D' s
              in f D' S' outst' on_ack' (s\<lparr>cp := cp s + 1\<rparr>) y
            else if ctrl_subtype S' payload = ctrl_subtype_ACK S'
            then
              let s = (if ctrl_length S' payload > outst' y then report_err_op D' s else s)
              in (case on_ack' (ctrl_length S' payload) y of
                    None \<Rightarrow> None
                  | Some (Inl e) \<Rightarrow> Some (Inl e)
                  | Some (Inr x) \<Rightarrow>
                      f D' S' outst' on_ack' (report_ok_op D' (pkt_hdr_size S' + unat len) s) x)
            else
              let s = report_err_op D' s
              in f D' S' outst' on_ack' (report_ok_op D' (pkt_hdr_size S' + unat len) s) y
          else f D' S' outst' on_ack' (report_err_op D' s) y) = Some r"
    show "D' = D \<and> S' = S \<and> t = s' \<longrightarrow> False"
    proof
      assume D': "D' = D \<and> S' = S \<and> t = s'"
      then have "f D S outst' on_ack' s' y = Some r"
        using eq s' assms(5,6) by (simp add: err)
      then show False using IH by blast
    qed
  qed (use that in simp_all)
  assume "ctrl_input D S outst on_ack s x \<noteq> None"
  then obtain r where "ctrl_input D S outst on_ack s x = Some r" by blast
  moreover have "ctrl_input D S outst on_ack s x = ctrl_input D S outst on_ack s' x"
    using assms(3-5) by (subst ctrl_input.simps) (simp add: err)
  ultimately show False using F [OF _ refl] by auto
qed

context ack_handler
begin

lemma ctrl_input_hangs:
  assumes "meets_other S s" and "consumes D" "reports_only D" "presents_packets S" "finds_again S"
    and "inv x"
  shows "ctrl_input D S outst on_ack s x = None"
  using assms(1,6)
proof (induction arbitrary: x)
  case (other s ty len payload s')
  then show ?case
    using ctrl_input_stuck [OF assms(3,4)] assms(5) unfolding finds_again_def by metis
next
  case (skipped s len payload s')
  then show ?case
    using assms(3) by (subst ctrl_input.simps) (simp add: reports_only_def Let_def)
next
  case (taken s len payload s')
  have err: "report_err_op D t = t" for t using assms(3) by (simp add: reports_only_def)
  have "pkt_hdr_size S + unat len \<le> nc s'"
    using assms(4) taken.hyps(2) unfolding presents_packets_def by blast
  then have ok: "report_ok_op D (pkt_hdr_size S + unat len) s' = consumed (pkt_hdr_size S + unat len) s'"
    using assms(2) by (simp add: consumes_def)
  obtain y where "on_ack (ctrl_length S payload) x = Some (Inr y)" "inv y"
    using ack_law [OF taken.prems] by blast
  then show ?case
    using taken ok by (subst ctrl_input.simps) (simp add: err Let_def)
qed

end

text \<open>The recogniser of the witnesses does so.\<close>

lemma plain_serio_finds_again [simp]: "finds_again plain_serio"
  by (auto simp: finds_again_def plain_serio_def plain_not_serio_pkt_def Let_def split: if_splits)

end
