(* ===== verification/XioTcpExport.thy ===== *)
theory XioTcpExport
  imports XioRing CtrlInput
begin

text \<open>
  \<open>class xiomas_tcp_export\<close> (\<open>Xiomas/xiomas_export.h\<close>, \<open>xiomas_export.cc\<close>): the client of
  \<open>tm_ip_export\<close> that queues framed image data in the circular buffer, sends it while the
  link gives credit, and tells the receiver that asked for it when the queue has drained.
\<close>

section \<open>State\<close>

text \<open>
  \<open>client\<close> is the receiver an acknowledge is owed to (receivers are numbered); \<open>refs\<close> counts
  the references this object took on each, and \<open>acks\<close> records the calls of \<open>client->ack()\<close>,
  oldest first.
\<close>

record 'o xte = "'o ring_out" +
  client :: "nat option"
  refs :: "nat \<Rightarrow> int"
  acks :: "nat list"

definition MAX_SPKT_DATA_PER_SERIO_PKT :: nat where
  "MAX_SPKT_DATA_PER_SERIO_PKT = 956"

definition MAX_SPKT_LENGTH :: nat where
  "MAX_SPKT_LENGTH = 213183"

text \<open>
  The constructor sets every member but \<open>client\<close>, whose value is whatever the memory held:
  it and the buffer's contents are arguments.
\<close>

definition xiomas_tcp_export :: "nat option \<Rightarrow> byte list \<Rightarrow> 'o \<Rightarrow> 'o xte" where
  "xiomas_tcp_export client0 circ0 out =
     \<lparr>circ = circ0, circ_size = CIRC_BUFFER_SIZE, circ_head = CIRC_BUFFER_SIZE + 1, circ_tail = 0,
      outstanding_bytes = 0, chan = out, client = client0, refs = (\<lambda>_. 0), acks = []\<rparr>"

section \<open>Operations\<close>

definition xte_CTS :: "'o chan_ops \<Rightarrow> 'o xte \<Rightarrow> bool" where
  "xte_CTS C x \<longleftrightarrow> outstanding_bytes x < 2000 \<and> obuf_empty_op C (chan x)"

definition request_ack :: "nat \<Rightarrow> 'o xte \<Rightarrow> 'o xte" where
  "request_ack c x =
     (let x = (case client x of None \<Rightarrow> x | Some d \<Rightarrow> x\<lparr>refs := (refs x)(d := refs x d - 1)\<rparr>);
          x = x\<lparr>client := Some c\<rparr>
      in x\<lparr>refs := (refs x)(c := refs x c + 1)\<rparr>)"

text \<open>\<open>client->ack(); dereference(client); client = 0;\<close>\<close>

definition ack_client :: "'o xte \<Rightarrow> 'o xte" where
  "ack_client x =
     (case client x of None \<Rightarrow> x
      | Some c \<Rightarrow> x\<lparr>acks := acks x @ [c], refs := (refs x)(c := refs x c - 1), client := None\<rparr>)"

partial_function (option) process_queue ::
  "serio \<Rightarrow> 'o chan_ops \<Rightarrow> 'o xte \<Rightarrow> (fault + 'o xte) option" where
  "process_queue S C x =
     (let len = circ_length x
      in if xte_CTS C x \<and> len > 0
         then
           let len = (if len > MAX_SPKT_DATA_PER_SERIO_PKT + pkt_hdr_size S
                      then MAX_SPKT_DATA_PER_SERIO_PKT + pkt_hdr_size S else len)
           in (case circ_transmit C len x of
                 Inl e \<Rightarrow> Some (Inl e)
               | Inr x \<Rightarrow> process_queue S C x)
         else Some (Inr (if len = 0 then ack_client x else x)))"

definition xte_forward_packet ::
  "serio \<Rightarrow> 'o chan_ops \<Rightarrow> byte list \<Rightarrow> nat \<Rightarrow> 'o xte \<Rightarrow> (fault + 'o xte) option" where
  "xte_forward_packet S C bfr n_bytes x =
     (let hdr = fill_serio_hdr S (pkt_type_SID S) (word_of_nat n_bytes) (take n_bytes bfr)
      in case bind_sum (circ_commit (hdr_image S hdr) (pkt_hdr_size S) x)
                (circ_commit bfr n_bytes) of
           Inl e \<Rightarrow> Some (Inl e)
         | Inr x \<Rightarrow> process_queue S C x)"

text \<open>
  The acknowledge of \<open>app_input\<close>: an acknowledge for more than is outstanding is reported and
  clears the count.
\<close>

definition xte_ack :: "nat \<Rightarrow> 'o xte \<Rightarrow> 'o xte" where
  "xte_ack len x =
     (if len > outstanding_bytes x then x\<lparr>outstanding_bytes := 0\<rparr>
      else x\<lparr>outstanding_bytes := sub32 (outstanding_bytes x) len\<rparr>)"

definition xte_on_ack ::
  "serio \<Rightarrow> 'o chan_ops \<Rightarrow> nat \<Rightarrow> 'o xte \<Rightarrow> (fault + 'o xte) option" where
  "xte_on_ack S C len x = process_queue S C (xte_ack len x)"

definition xte_app_input ::
  "dasio \<Rightarrow> serio \<Rightarrow> 'o chan_ops \<Rightarrow> inbuf \<Rightarrow> 'o xte \<Rightarrow> (fault + inbuf \<times> 'o xte) option" where
  "xte_app_input D S C s x = ctrl_input D S outstanding_bytes (xte_on_ack S C) s x"

section \<open>Draining the queue\<close>

lemma xte_more_eqs:
  assumes "ring_out.more x' = ring_out.more (x :: 'o xte)"
  shows "client x' = client x" "refs x' = refs x" "acks x' = acks x"
  using assms by (cases x', cases x, simp)+

lemma wf_ring_fields:
  assumes "circ x' = circ x" "circ_size x' = circ_size x" "circ_head x' = circ_head x"
    "circ_tail x' = circ_tail x"
  shows "wf_ring x' = wf_ring x" "contents x' = contents x" "tail_room x' = tail_room x"
  using assms by (simp_all add: wf_ring_def contents_def tail_room_def)

lemma ack_client_fields [simp]:
  "circ (ack_client x) = circ x" "circ_size (ack_client x) = circ_size x"
  "circ_head (ack_client x) = circ_head x" "circ_tail (ack_client x) = circ_tail x"
  "outstanding_bytes (ack_client x) = outstanding_bytes x" "chan (ack_client x) = chan x"
  "client (ack_client x) = None"
  by (simp_all add: ack_client_def split: option.splits)

lemma ack_client_ring [simp]:
  "wf_ring (ack_client x) = wf_ring x" "contents (ack_client x) = contents x"
  "tail_room (ack_client x) = tail_room x"
  by (rule wf_ring_fields; simp)+

lemma xte_CTS_ack_client [simp]: "xte_CTS C (ack_client x) = xte_CTS C x"
  by (simp add: xte_CTS_def)

definition quantum :: "serio \<Rightarrow> nat" where
  "quantum S = MAX_SPKT_DATA_PER_SERIO_PKT + pkt_hdr_size S"

text \<open>
  What a run of \<open>process_queue\<close> does to the state: the first \<open>k\<close> queued bytes go out.
\<close>

definition drained :: "serio \<Rightarrow> 'o chan_ops \<Rightarrow> ('o \<Rightarrow> byte list) \<Rightarrow> nat \<Rightarrow> 'o xte \<Rightarrow> 'o xte \<Rightarrow> bool" where
  "drained S C w k x x' \<longleftrightarrow> wf_ring x' \<and> tail_room x \<le> tail_room x'
     \<and> circ_size x' = circ_size x \<and> k \<le> length (contents x) \<and> contents x' = drop k (contents x)
     \<and> w (chan x') = w (chan x) @ take k (contents x)
     \<and> outstanding_bytes x' = outstanding_bytes x + k
     \<and> outstanding_bytes x' \<le> max (outstanding_bytes x) (1999 + quantum S)
     \<and> (contents x' \<noteq> [] \<longrightarrow> \<not> xte_CTS C x')
     \<and> (let y = (if contents x' = [] then ack_client x else x)
        in client x' = client y \<and> refs x' = refs y \<and> acks x' = acks y)"

lemma process_queue_ok:
  assumes "wf_ring x" and app: "appends C w" 
  shows "\<exists>x' k. process_queue S C x = Some (Inr x') \<and> drained S C w k x x'"
  using assms(1)
proof (induction "length (contents x)" arbitrary: x rule: less_induct)
  case less
  note wf = less.prems
  show ?case
  proof (cases "xte_CTS C x \<and> contents x \<noteq> []")
    case False
    then have "process_queue S C x = Some (Inr (if contents x = [] then ack_client x else x))"
      by (subst process_queue.simps) (auto simp: length_contents [OF wf] Let_def)
    moreover have "drained S C w 0 x (if contents x = [] then ack_client x else x)"
      using False wf by (auto simp: drained_def Let_def)
    ultimately show ?thesis by blast
  next
    case True
    define n where "n = min (length (contents x)) (quantum S)"
    have n: "n \<le> length (contents x)" "0 < n" "n \<le> quantum S"
      using True by (auto simp: n_def quantum_def MAX_SPKT_DATA_PER_SERIO_PKT_def)
    obtain x1 where x1: "circ_transmit C n x = Inr x1" "wf_ring x1"
      "contents x1 = drop n (contents x)" "w (chan x1) = w (chan x) @ take n (contents x)"
      "outstanding_bytes x1 = add32 (outstanding_bytes x) n" "ring_out.more x1 = ring_out.more x"
      "tail_room x \<le> tail_room x1" "circ_size x1 = circ_size x"
      using circ_transmit_ok [OF wf n(1) app] n(2) by auto
    have less': "length (contents x1) < length (contents x)"
      using x1(3) n by simp
    obtain x' k where x': "process_queue S C x1 = Some (Inr x')" "drained S C w k x1 x'"
      using less.hyps [OF less' x1(2)] by blast
    have clamp: "(if length (contents x) > MAX_SPKT_DATA_PER_SERIO_PKT + pkt_hdr_size S
        then MAX_SPKT_DATA_PER_SERIO_PKT + pkt_hdr_size S else length (contents x)) = n"
      by (simp add: n_def quantum_def)
    have step: "process_queue S C x = process_queue S C x1"
      using True x1(1)
      by (subst process_queue.simps) (simp add: length_contents [OF wf] Let_def clamp)
    have o1: "outstanding_bytes x1 = outstanding_bytes x + n" "outstanding_bytes x < 2000"
      using True n(1) length_contents_le [OF wf] wf_ringD(3) [OF wf] x1(5)
      by (simp_all add: xte_CTS_def add32_exact)
    have "drained S C w (n + k) x x'"
      using x'(2) n(1,3) o1 x1(3,4,7,8) xte_more_eqs [OF x1(6)]
      by (auto simp: drained_def Let_def take_add ack_client_def add.commute [of k n] split: option.splits)
    with step x'(1) show ?thesis by auto
  qed
qed

lemma drained_stream: "drained S C w k x x' \<Longrightarrow> w (chan x') @ contents x' = w (chan x) @ contents x"
  by (simp add: drained_def)

lemma drained_bookkeeping:
  assumes "drained S C w k x x'"
  shows "outstanding_bytes x' \<le> max (outstanding_bytes x) (1999 + quantum S)"
    "contents x' \<noteq> [] \<Longrightarrow> \<not> xte_CTS C x'"
    "contents x' \<noteq> [] \<Longrightarrow> client x' = client x \<and> refs x' = refs x \<and> acks x' = acks x"
    "contents x' = [] \<Longrightarrow> client x' = None \<and> refs x' = refs (ack_client x)
      \<and> acks x' = acks (ack_client x)"
  using assms by (auto simp: drained_def Let_def)

text \<open>Across a drain the receiver owed an acknowledge either stays owed, or gets the one call.\<close>

definition ack_kept :: "'o xte \<Rightarrow> 'o xte \<Rightarrow> bool" where
  "ack_kept x x' \<longleftrightarrow> client x' = client x \<and> acks x' = acks x
     \<or> (\<exists>c. client x = Some c \<and> client x' = None \<and> acks x' = acks x @ [c])"

lemma ack_kept_refl [simp]: "ack_kept x x"
  by (simp add: ack_kept_def)

lemma ack_kept_trans: "ack_kept x y \<Longrightarrow> ack_kept y z \<Longrightarrow> ack_kept x z"
  by (auto simp: ack_kept_def)

lemma ack_kept_ack_client: "ack_kept x (ack_client x)"
  by (simp add: ack_kept_def ack_client_def split: option.splits)

lemma ack_kept_cong:
  "client y = client x \<Longrightarrow> acks y = acks x \<Longrightarrow> ack_kept y z = ack_kept x z"
  "client y' = client z \<Longrightarrow> acks y' = acks z \<Longrightarrow> ack_kept x y' = ack_kept x z"
  by (simp_all add: ack_kept_def)

lemma drained_ack_kept:
  assumes "drained S C w k x x'"
  shows "ack_kept x x'"
proof (cases "contents x' = []")
  case True
  then show ?thesis
    using assms ack_kept_ack_client [of x] ack_kept_cong(2) [of x' "ack_client x" x]
    by (simp add: drained_def Let_def)
next
  case False
  then show ?thesis using assms by (simp add: drained_def Let_def ack_kept_def)
qed

section \<open>Queueing a packet\<close>

text \<open>A piece on the link: its \<open>serio_pkt\<close> header and its bytes.\<close>

definition sid_frame :: "serio \<Rightarrow> byte list \<Rightarrow> byte list" where
  "sid_frame S p =
     hdr_image S (fill_serio_hdr S (pkt_type_SID S) (word_of_nat (length p)) p) @ p"

text \<open>The bytes of the header add up to 0 modulo 256.\<close>

lemma sid_frame_parts:
  assumes "lrc_first S"
  shows "drop (pkt_hdr_size S) (sid_frame S p) = p"
    "sum_list (take (pkt_hdr_size S) (sid_frame S p)) = 0"
  using length_hdr_image [OF assms] sum_of_serio_hdr [OF assms] by (simp_all add: sid_frame_def)

lemma forward_packet_ok:
  assumes wf: "wf_ring x" and app: "appends C w" and lrc: "lrc_first S"
    and room: "pkt_hdr_size S + n \<le> tail_room x" and n: "n = length bfr"
    and hdr: "hdr = fill_serio_hdr S (pkt_type_SID S) (word_of_nat n) bfr"
  obtains x2 x' k where "xte_forward_packet S C bfr n x = Some (Inr x')"
    "drained S C w k x2 x'" "contents x2 = contents x @ hdr_image S hdr @ bfr"
    "chan x2 = chan x" "outstanding_bytes x2 = outstanding_bytes x"
    "client x2 = client x" "refs x2 = refs x" "acks x2 = acks x"
    "tail_room x \<le> tail_room x' + (pkt_hdr_size S + n)"
proof -
  have len: "pkt_hdr_size S = length (hdr_image S hdr)" using lrc by (simp add: length_hdr_image)
  have two: "wf_ring x \<and> appends C w" "length (hdr_image S hdr) + length bfr \<le> tail_room x"
    using wf app room n len by simp_all
  obtain x1 where x1: "circ_commit (hdr_image S hdr) (pkt_hdr_size S) x = Inr x1" "wf_ring x1"
    "contents x1 = contents x @ hdr_image S hdr" "tail_room x \<le> tail_room x1 + pkt_hdr_size S"
    "outstanding_bytes x1 = outstanding_bytes x" "ring.more x1 = ring.more x"
    using commit_room [OF wf, of "hdr_image S hdr"] room unfolding len [symmetric]
    by (metis add_leD1)
  have "length bfr \<le> tail_room x1" using x1(4) room n by simp
  then obtain x2 where x2: "circ_commit bfr n x1 = Inr x2" "wf_ring x2"
    "contents x2 = contents x1 @ bfr" "outstanding_bytes x2 = outstanding_bytes x1"
    "ring.more x2 = ring.more x1" "tail_room x1 \<le> tail_room x2 + n"
    using commit_room [OF x1(2), of bfr] n by metis
  have eqs: "chan x2 = chan x" "client x2 = client x" "refs x2 = refs x" "acks x2 = acks x"
    using ring_out_eqs [of x2 x] xte_more_eqs [of x2 x] x1(6) x2(5) by simp_all
  obtain x' k where x': "process_queue S C x2 = Some (Inr x')" "drained S C w k x2 x'"
    using process_queue_ok [OF x2(2) app] by blast
  have "xte_forward_packet S C bfr n x = Some (Inr x')"
    using x1(1) x2(1) x'(1) by (simp add: xte_forward_packet_def Let_def n hdr)
  moreover have "tail_room x2 \<le> tail_room x'" using x'(2) by (simp add: drained_def)
  ultimately show thesis
    using that x'(2) x2(3,4,6) x1(3,4,5) eqs by simp
qed

section \<open>Acknowledges\<close>

lemma xte_ack_fields [simp]:
  "circ (xte_ack n x) = circ x" "circ_size (xte_ack n x) = circ_size x"
  "circ_head (xte_ack n x) = circ_head x" "circ_tail (xte_ack n x) = circ_tail x"
  "chan (xte_ack n x) = chan x" "client (xte_ack n x) = client x"
  "refs (xte_ack n x) = refs x" "acks (xte_ack n x) = acks x"
  by (simp_all add: xte_ack_def)

lemma xte_ack_ring [simp]:
  "wf_ring (xte_ack n x) = wf_ring x" "contents (xte_ack n x) = contents x"
  "tail_room (xte_ack n x) = tail_room x"
  by (rule wf_ring_fields; simp)+

lemma xte_ack_outstanding:
  "outstanding_bytes x < 2 ^ 32 \<Longrightarrow>
   outstanding_bytes (xte_ack n x) = outstanding_bytes x - n"
  by (simp add: xte_ack_def sub32_exact)

section \<open>References\<close>

text \<open>The exporter holds one reference on the receiver it owes an acknowledge, and no other.\<close>

definition refs_balanced :: "'o xte \<Rightarrow> bool" where
  "refs_balanced x \<longleftrightarrow> (\<forall>c. refs x c = (if client x = Some c then 1 else 0))"

lemma refs_balanced_ack_client: "refs_balanced x \<Longrightarrow> refs_balanced (ack_client x)"
  by (auto simp: refs_balanced_def ack_client_def split: option.splits)

lemma refs_balanced_request_ack: "refs_balanced x \<Longrightarrow> refs_balanced (request_ack c x)"
  by (auto simp: refs_balanced_def request_ack_def Let_def split: option.splits)

lemma refs_balanced_drained: "drained S C w k x x' \<Longrightarrow> refs_balanced x \<Longrightarrow> refs_balanced x'"
  using refs_balanced_ack_client [of x]
  by (auto simp: drained_def Let_def refs_balanced_def split: if_splits)


lemma refs_balanced_xte_ack: "refs_balanced (xte_ack n x) = refs_balanced x"
  by (simp add: refs_balanced_def)

text \<open>
  The invariant of the exporter: a well-formed buffer, and no more outstanding than the credit
  limit and one packet; and, as its promise over a run of \<open>app_input\<close>, the bytes written and
  queued stay the same stream.
\<close>

definition xte_inv :: "serio \<Rightarrow> 'o chan_ops \<Rightarrow> ('o \<Rightarrow> byte list) \<Rightarrow> 'o xte \<Rightarrow> bool" where
  "xte_inv S C w x \<longleftrightarrow> wf_ring x \<and> circ_size x = CIRC_BUFFER_SIZE \<and> appends C w \<and> outstanding_bytes x \<le> 1999 + quantum S
     \<and> quantum S < 2 ^ 31"

definition ack_promise :: "('o \<Rightarrow> byte list) \<Rightarrow> 'o xte \<Rightarrow> 'o xte \<Rightarrow> bool" where
  "ack_promise w x x' \<longleftrightarrow> w (chan x') @ contents x' = w (chan x) @ contents x
     \<and> tail_room x \<le> tail_room x' \<and> ack_kept x x' \<and> (refs_balanced x \<longrightarrow> refs_balanced x')"

lemma xte_on_ack_ok:
  assumes "xte_inv S C w x"
  shows "\<exists>x'. xte_on_ack S C n x = Some (Inr x') \<and> xte_inv S C w x' \<and> ack_promise w x x'"
proof -
  have inv: "wf_ring (xte_ack n x)" "appends C w" "outstanding_bytes x < 2 ^ 32"
    using assms by (simp_all add: xte_inv_def)
  obtain x' k where x': "process_queue S C (xte_ack n x) = Some (Inr x')"
    "drained S C w k (xte_ack n x) x'"
    using process_queue_ok [OF inv(1,2)] by blast
  have "outstanding_bytes x' \<le> 1999 + quantum S"
    using drained_bookkeeping(1) [OF x'(2)] assms
    by (simp add: xte_inv_def xte_ack_outstanding [OF inv(3)] max_def split: if_splits)
  then have "xte_inv S C w x'"
    using assms x'(2) by (simp add: xte_inv_def drained_def)
  moreover have "ack_promise w x x'"
    using drained_stream [OF x'(2)] x'(2) refs_balanced_drained [OF x'(2)]
      drained_ack_kept [OF x'(2)] ack_kept_cong(1) [of "xte_ack n x" x x']
    by (simp add: ack_promise_def drained_def refs_balanced_xte_ack)
  ultimately show ?thesis using x'(1) by (auto simp: xte_on_ack_def)
qed

interpretation xte_acks: ack_handler outstanding_bytes "xte_on_ack S C" "xte_inv S C w"
  "ack_promise w" for S :: serio and C :: "'o chan_ops" and w :: "'o \<Rightarrow> byte list"
proof unfold_locales
  fix x :: "'o xte" and n
  assume "xte_inv S C w x"
  then show "\<exists>x'. xte_on_ack S C n x = Some (Inr x') \<and> xte_inv S C w x' \<and> ack_promise w x x'"
    by (rule xte_on_ack_ok)
qed (auto simp: ack_promise_def intro: ack_kept_trans)

section \<open>Everything that can happen to the exporter\<close>

lemma forward_packet_safe:
  assumes inv: "xte_inv S C w x" and lrc: "lrc_first S" and n: "n \<le> length bfr"
  shows "\<exists>x'. xte_forward_packet S C bfr n x = Some (Inr x') \<and> xte_inv S C w x'
    \<and> ack_kept x x' \<and> (refs_balanced x \<longrightarrow> refs_balanced x')"
proof -
  define hdr where "hdr = fill_serio_hdr S (pkt_type_SID S) (word_of_nat n) (take n bfr)"
  have wf: "wf_ring x" "appends C w" using inv by (simp_all add: xte_inv_def)
  obtain x1 where x1: "circ_commit (hdr_image S hdr) (pkt_hdr_size S) x = Inr x1" "wf_ring x1"
    "outstanding_bytes x1 = outstanding_bytes x" "ring.more x1 = ring.more x"
    "circ_size x1 = circ_size x"
    using circ_commit_total [OF wf(1), of "pkt_hdr_size S" "hdr_image S hdr"] lrc
    by (auto simp: length_hdr_image)
  obtain x2 where x2: "circ_commit bfr n x1 = Inr x2" "wf_ring x2"
    "outstanding_bytes x2 = outstanding_bytes x1" "ring.more x2 = ring.more x1"
    "circ_size x2 = circ_size x1"
    using circ_commit_total [OF x1(2) n] by metis
  have eqs: "client x2 = client x" "refs x2 = refs x" "acks x2 = acks x"
    using ring_out_eqs [of x2 x] xte_more_eqs [of x2 x] x1(4) x2(4) by simp_all
  obtain x' k where x': "process_queue S C x2 = Some (Inr x')" "drained S C w k x2 x'"
    using process_queue_ok [OF x2(2) wf(2)] by blast
  have "outstanding_bytes x' \<le> 1999 + quantum S"
    using drained_bookkeeping(1) [OF x'(2)] inv x1(3) x2(3)
    by (simp add: xte_inv_def max_def split: if_splits)
  then have "xte_inv S C w x'" using inv x'(2) x1(5) x2(5) by (simp add: xte_inv_def drained_def)
  moreover have "refs_balanced x2" if "refs_balanced x"
    using that eqs by (simp add: refs_balanced_def)
  moreover have "ack_kept x x'"
    using drained_ack_kept [OF x'(2)] ack_kept_cong(1) [of x2 x x'] eqs by simp
  ultimately show ?thesis
    using x1(1) x2(1) x' refs_balanced_drained
    by (auto simp: xte_forward_packet_def Let_def hdr_def [symmetric])
qed

lemma request_ack_inv: "xte_inv S C w (request_ack c x) = xte_inv S C w x"
  by (simp add: xte_inv_def request_ack_def Let_def wf_ring_def split: option.splits)


definition link_ok :: "dasio \<Rightarrow> serio \<Rightarrow> bool" where
  "link_ok D S \<longleftrightarrow> consumes D \<and> reports_only D \<and> presents_packets S \<and> lrc_first S"

lemma xte_init_inv:
  assumes "length circ0 = CIRC_BUFFER_SIZE" and "appends C w" and "pkt_hdr_size S < 2 ^ 30"
  shows "xte_inv S C w (xiomas_tcp_export c0 circ0 out)"
  using assms
  by (simp add: xte_inv_def wf_ring_def xiomas_tcp_export_def CIRC_BUFFER_SIZE_def quantum_def
      MAX_SPKT_DATA_PER_SERIO_PKT_def)

lemma refs_balanced_init: "refs_balanced (xiomas_tcp_export None circ0 out)"
  by (simp add: refs_balanced_def xiomas_tcp_export_def)


text \<open>
  The constructor leaves \<open>client\<close> uninitialised. If the memory held the address \<open>c\<close>,
  forwarding the first packet of at most 956 bytes over an idle link ends with a call of \<open>ack()\<close>
  on \<open>c\<close>, although no receiver has asked for an acknowledge.
\<close>

lemma uninitialised_client_acked:
  assumes "length circ0 = CIRC_BUFFER_SIZE" and "appends C w" and "lrc_first S"
    and "\<And>out. obuf_empty_op C out" and "length bfr \<le> MAX_SPKT_DATA_PER_SERIO_PKT"
    and "pkt_hdr_size S \<le> 1000"
  shows "\<exists>x'. xte_forward_packet S C bfr (length bfr) (xiomas_tcp_export (Some c) circ0 out)
    = Some (Inr x') \<and> acks x' = [c]"
proof -
  let ?x = "xiomas_tcp_export (Some c) circ0 out"
  define hdr where "hdr = fill_serio_hdr S (pkt_type_SID S) (word_of_nat (length bfr)) bfr"
  have x: "wf_ring ?x" "contents ?x = []" "tail_room ?x = CIRC_BUFFER_SIZE"
    "outstanding_bytes ?x = 0" "client ?x = Some c" "acks ?x = []"
    using assms(1)
    by (simp_all add: xiomas_tcp_export_def wf_ring_def contents_def tail_room_def
        CIRC_BUFFER_SIZE_def)
  have room: "pkt_hdr_size S + length bfr \<le> tail_room ?x"
    using assms(5,6) by (simp add: x(3) CIRC_BUFFER_SIZE_def MAX_SPKT_DATA_PER_SERIO_PKT_def)
  obtain x2 x' k where x': "xte_forward_packet S C bfr (length bfr) ?x = Some (Inr x')"
    "drained S C w k x2 x'" "contents x2 = hdr_image S hdr @ bfr"
    "outstanding_bytes x2 = 0" "client x2 = Some c" "acks x2 = []"
    using forward_packet_ok [OF x(1) assms(2,3) room refl hdr_def] x by (metis append_Nil)
  have "k \<le> pkt_hdr_size S + length bfr" "outstanding_bytes x' = k"
    using x'(2,3,4) length_hdr_image [OF assms(3)] by (simp_all add: drained_def)
  then have "xte_CTS C x'"
    using assms(4-6) by (simp add: xte_CTS_def MAX_SPKT_DATA_PER_SERIO_PKT_def)
  then have "contents x' = []" using drained_bookkeeping(2) [OF x'(2)] by blast
  then have "acks x' = acks (ack_client x2)" using drained_bookkeeping(4) [OF x'(2)] by blast
  with x' show ?thesis by (auto simp: ack_client_def)
qed

section \<open>Properties\<close>

text \<open>
  C18: \<open>process_queue\<close> always returns. It writes a prefix of the queue to the socket, counts it
  as outstanding, and stops only when the queue is empty or the link is not clear to send; the
  pending receiver is acknowledged, once, exactly when the queue is empty.
\<close>

theorem process_queue_drains:
  assumes "wf_ring x" and "appends C w"
  shows "\<exists>x' k. process_queue S C x = Some (Inr x') \<and> wf_ring x' \<and> k \<le> length (contents x)
    \<and> w (chan x') = w (chan x) @ take k (contents x) \<and> contents x' = drop k (contents x)
    \<and> outstanding_bytes x' = outstanding_bytes x + k
    \<and> (contents x' = [] \<or> \<not> xte_CTS C x')
    \<and> acks x' = acks x @ (if contents x' = [] then (case client x of None \<Rightarrow> [] | Some c \<Rightarrow> [c]) else [])
    \<and> client x' = (if contents x' = [] then None else client x)"
proof -
  obtain x' k where x': "process_queue S C x = Some (Inr x')" "drained S C w k x x'"
    using process_queue_ok [OF assms] by blast
  have "acks (ack_client x) = acks x @ (case client x of None \<Rightarrow> [] | Some c \<Rightarrow> [c])"
    by (simp add: ack_client_def split: option.splits)
  with x' show ?thesis
    by (intro exI [of _ x'] exI [of _ k]) (auto simp: drained_def Let_def)
qed

text \<open>
  C28: \<open>app_input\<close> does not return when \<open>tm_ip_export\<close> sends a packet of a type other than
  CTRL: that branch reports the packet and leaves it where it is, so the recogniser finds it
  again for ever.
\<close>

theorem xte_app_input_stuck:
  assumes "reports_only D" and "presents_packets S" and "cp s < nc s"
    and "not_serio_pkt S s = Packet ty len payload s'" and "ty \<noteq> pkt_type_CTRL S"
    and "not_serio_pkt S s' = Packet ty len payload s'"
  shows "xte_app_input D S C s x = None"
  unfolding xte_app_input_def by (rule ctrl_input_stuck [OF assms])

section \<open>Witnesses\<close>

lemma link_ok_plain_serio [simp]: "link_ok plain_dasio plain_serio"
  by (simp add: link_ok_def)

lemma quantum_plain_serio [simp]: "quantum plain_serio = 962"
  by (simp add: quantum_def MAX_SPKT_DATA_PER_SERIO_PKT_def)

definition small_xte :: "nat \<Rightarrow> nat \<Rightarrow> nat \<Rightarrow> byte list xte" where
  "small_xte h t outst = \<lparr>circ = replicate 20 7, circ_size = 20, circ_head = h, circ_tail = t,
     outstanding_bytes = outst, chan = [], client = Some 5, refs = (\<lambda>c. if c = 5 then 1 else 0),
     acks = []\<rparr>"

lemma small_xte_facts [simp]:
  "wf_ring (small_xte 21 0 n)" "wf_ring (small_xte 2 6 n)"
  "contents (small_xte 21 0 n) = []" "contents (small_xte 2 6 n) = replicate 4 7"
  "tail_room (small_xte 21 0 n) = 20" "outstanding_bytes (small_xte h t n) = n"
  "chan (small_xte h t n) = []" "client (small_xte h t n) = Some 5" "acks (small_xte h t n) = []"
  by (simp_all add: small_xte_def wf_ring_def contents_def tail_room_def CIRC_BUFFER_SIZE_def)

theorem process_queue_drains_witness:
  "\<exists>x'. process_queue plain_serio open_chan (small_xte 2 6 0) = Some (Inr x')
     \<and> chan x' = replicate 4 7 \<and> acks x' = [5]"
proof -
  obtain x' k where x': "process_queue plain_serio open_chan (small_xte 2 6 0) = Some (Inr x')"
    "k \<le> 4" "chan x' = take k (replicate 4 7)" "contents x' = drop k (replicate 4 7)"
    "outstanding_bytes x' = k" "contents x' = [] \<or> \<not> xte_CTS open_chan x'"
    "contents x' = [] \<longrightarrow> acks x' = [5]"
    using process_queue_drains [OF small_xte_facts(2) open_chan_appends, of plain_serio 0] by force
  then have "contents x' = []" by (auto simp: xte_CTS_def open_chan_def)
  with x' show ?thesis by auto
qed

theorem xte_app_input_stuck_witness:
  "xte_app_input plain_dasio plain_serio open_chan
     \<lparr>ibuf = [0, 9, 1, 0, 0, 0, 42], cp = 0\<rparr> (small_xte 21 0 0) = None"
proof (rule xte_app_input_stuck [where s' = "\<lparr>ibuf = [0, 9, 1, 0, 0, 0, 42], cp = 0\<rparr>" and ty = 9
      and len = 1 and payload = "[42]"])
  show "not_serio_pkt plain_serio \<lparr>ibuf = [0, 9, 1, 0, 0, 0, 42], cp = 0\<rparr> =
      Packet 9 1 [42] \<lparr>ibuf = [0, 9, 1, 0, 0, 0, 42], cp = 0\<rparr>" by code_simp
  then show "not_serio_pkt plain_serio \<lparr>ibuf = [0, 9, 1, 0, 0, 0, 42], cp = 0\<rparr> =
      Packet 9 1 [42] \<lparr>ibuf = [0, 9, 1, 0, 0, 0, 42], cp = 0\<rparr>" .
  show "(9 :: byte) \<noteq> pkt_type_CTRL plain_serio" by (simp add: plain_serio_def)
qed simp_all

end
