(* ===== verification/XioTcpRcvr.thy ===== *)
theory XioTcpRcvr
  imports XioPacket XioTcpExport
begin

text \<open>
  \<open>class xiomas_tcp_rcvr\<close> (\<open>Xiomas/xiomas_export.h\<close>, \<open>xiomas_export.cc\<close>): the TCP connection
  from the instrument. It finds packets in the byte stream, logs them in pieces and forwards
  the pieces to the exporter. Receivers are numbered; \<open>c\<close> is the number of this one.
\<close>

section \<open>State\<close>

datatype xtr_state = xtr_idle | xtr_mid_pkt | xtr_lost

datatype log_mode = log_newfile | log_default | log_curfile

text \<open>
  \<open>rTO\<close> is the timeout in seconds when one is set, \<open>rchan\<close> the output side of the socket, and
  \<open>logged\<close> records the calls of \<open>log_packet\<close>, oldest first. The input buffer is kept apart.
\<close>

record 'o xtr =
  transmitting_current_packet :: bool
  rstate :: xtr_state
  bytes_remaining_in_packet :: nat
  bytes_discarding :: nat
  block_count :: u32
  rTO :: "nat option"
  rflags :: u32
  rchan :: 'o
  logged :: "(log_mode \<times> byte list) list"

text \<open>
  The constructor; \<open>transmitting_current_packet\<close> is not initialised, the flags and the output
  side come from the base class.
\<close>

definition xiomas_tcp_rcvr :: "bool \<Rightarrow> u32 \<Rightarrow> 'o \<Rightarrow> 'o xtr" where
  "xiomas_tcp_rcvr tcp0 flags0 out =
     \<lparr>transmitting_current_packet = tcp0, rstate = xtr_lost, bytes_remaining_in_packet = 0,
      bytes_discarding = 0, block_count = 0, rTO = None, rflags = flags0, rchan = out,
      logged = []\<rparr>"

section \<open>Operations\<close>

definition xtr_ack :: "u32 \<Rightarrow> 'o xtr \<Rightarrow> 'o xtr" where
  "xtr_ack Fl_Timeout r = r\<lparr>rTO := Some 120, rflags := rflags r OR Fl_Timeout\<rparr>"

definition xtr_CTS :: "'o chan_ops \<Rightarrow> 'o xtr \<Rightarrow> bool" where
  "xtr_CTS C r \<longleftrightarrow> obuf_empty_op C (rchan r)"

definition get_txmit_size :: "inbuf \<Rightarrow> 'o xtr \<Rightarrow> nat" where
  "get_txmit_size s r =
     (let to_send =
        (if bytes_remaining_in_packet r \<ge> MAX_SPKT_DATA_PER_SERIO_PKT
         then MAX_SPKT_DATA_PER_SERIO_PKT else bytes_remaining_in_packet r)
      in if nc s - cp s \<ge> to_send then to_send else 0)"

text \<open>
  \<open>sendFlag\<close>; its header variable is uninitialised before \<open>xhgFillHeader\<close>, which writes every
  field.
\<close>

definition xtr_sendFlag :: "'o chan_ops \<Rightarrow> byte \<Rightarrow> 'o xtr \<Rightarrow> bool \<times> 'o xtr" where
  "xtr_sendFlag C flag r =
     (let r = r\<lparr>block_count := block_count r + 1\<rparr>;
          hdr = fst (xhgFillHeader blank_hdr xhpidGWControl xhsrcGateway flag 0 (block_count r));
          w = iwrite_op C (hdr_bytes hdr) (rchan r)
      in (fst w, r\<lparr>rchan := snd w\<rparr>))"

definition xtr_sendCTS :: "'o chan_ops \<Rightarrow> 'o xtr \<Rightarrow> bool \<times> 'o xtr" where
  "xtr_sendCTS C r = xtr_sendFlag C xhfCTS r"

definition xtr_sendNCTS :: "'o chan_ops \<Rightarrow> 'o xtr \<Rightarrow> bool \<times> 'o xtr" where
  "xtr_sendNCTS C r = xtr_sendFlag C xhfNCTS r"

text \<open>
  \<open>protocol_timeout\<close>. The mask is \<open>Fl_Timeout\<close> itself, as in the source. \<open>reset()\<close> is a
  function of the base class.
\<close>

definition xtr_protocol_timeout ::
  "u32 \<Rightarrow> ('o xtr \<Rightarrow> bool \<times> 'o xtr) \<Rightarrow> 'o chan_ops \<Rightarrow> 'o xtr \<Rightarrow> bool \<times> 'o xtr" where
  "xtr_protocol_timeout Fl_Timeout reset C r =
     (let r = r\<lparr>rTO := None\<rparr>;
          r = r\<lparr>rflags := rflags r AND Fl_Timeout\<rparr>;
          r = snd (xtr_sendCTS C r)
      in reset r)"

subsection \<open>The cases of \<open>protocol_input\<close>\<close>

text \<open>What a pass through the \<open>switch\<close> does next: return, go round the loop, or transmit.\<close>

datatype pass_result = Return | Continue | Transmit nat

definition xtr_lost_step :: "dasio \<Rightarrow> inbuf \<Rightarrow> 'o xtr \<Rightarrow> inbuf \<times> 'o xtr" where
  "xtr_lost_step D s r =
     (let cp0 = cp s; nc0 = nc s
      in case not_found_op D 0x24 s of
           (True, s) \<Rightarrow> (s, r\<lparr>bytes_discarding := add32 (bytes_discarding r) (nc0 - cp0)\<rparr>)
         | (False, s) \<Rightarrow>
             let s = s\<lparr>cp := cp s - 1\<rparr>;
                 r = r\<lparr>bytes_discarding := add32 (bytes_discarding r) (cp s - cp0)\<rparr>
             in (s, r\<lparr>rstate := xtr_idle\<rparr>))"

definition xtr_idle_step ::
  "dasio \<Rightarrow> serio \<Rightarrow> 'o chan_ops \<Rightarrow> nat \<Rightarrow> inbuf \<Rightarrow> 'o xtr \<Rightarrow> pass_result \<times> inbuf \<times> 'o xtr" where
  "xtr_idle_step D S C exp_space s r =
     (if nc s - cp s < xio_header_size then (Return, consume_op D (cp s) s, r)
      else
        let hdr = hdr_of_bytes (drop (cp s) (ibuf s));
            r = r\<lparr>bytes_remaining_in_packet := unat (xhgGetPacketLength hdr)\<rparr>
        in if \<not> xhgValidateHeader hdr (word_of_nat (bytes_remaining_in_packet r))
           then (Continue, s\<lparr>cp := cp s + 1\<rparr>, r\<lparr>rstate := xtr_lost\<rparr>)
           else if bytes_remaining_in_packet r > MAX_SPKT_LENGTH + 1000
           then
             let s = report_err_op D s
             in (Continue, s\<lparr>cp := cp s + 1\<rparr>, r\<lparr>rstate := xtr_lost\<rparr>)
           else
             let txmit_size = get_txmit_size s r
             in if txmit_size = 0 then (Return, s, r)
                else
                  let s = (if bytes_discarding r \<noteq> 0 then report_err_op D s else s);
                      r = (if bytes_discarding r \<noteq> 0 then r\<lparr>bytes_discarding := 0\<rparr> else r);
                      s = (if unat (m_uSource hdr) \<noteq> xhsrcOPU then report_err_op D s else s);
                      r = (if m_uFlags hdr AND xhfRTS \<noteq> 0 \<and> xtr_CTS C r
                           then snd (xtr_sendCTS C r) else r);
                      r = r\<lparr>rstate := xtr_mid_pkt\<rparr>;
                      n_pkts = (bytes_remaining_in_packet r + MAX_SPKT_DATA_PER_SERIO_PKT - 1)
                               div MAX_SPKT_DATA_PER_SERIO_PKT;
                      total_pkts_size = bytes_remaining_in_packet r + n_pkts * pkt_hdr_size S;
                      r = r\<lparr>transmitting_current_packet := total_pkts_size \<le> exp_space\<rparr>;
                      mode = (if unat (xhgGetPacketLength hdr) > 2000
                              then log_newfile else log_default);
                      r = r\<lparr>logged := logged r @ [(mode, take txmit_size (drop (cp s) (ibuf s)))]\<rparr>
                  in (Transmit txmit_size, s, r))"

definition xtr_mid_step :: "inbuf \<Rightarrow> 'o xtr \<Rightarrow> pass_result \<times> inbuf \<times> 'o xtr" where
  "xtr_mid_step s r =
     (let txmit_size = get_txmit_size s r;
          r = (if txmit_size \<noteq> 0
               then r\<lparr>logged := logged r @ [(log_curfile, take txmit_size (drop (cp s) (ibuf s)))]\<rparr>
               else r)
      in (Transmit txmit_size, s, r))"

text \<open>
  A call of the exporter may call \<open>ack()\<close> on this receiver: it has, if the exporter's record of
  such calls grew by an entry for it.
\<close>

definition deliver_acks :: "u32 \<Rightarrow> nat \<Rightarrow> 'o xte \<Rightarrow> 'o xte \<Rightarrow> 'o xtr \<Rightarrow> 'o xtr" where
  "deliver_acks Fl_Timeout c x x' r =
     (if c \<in> set (drop (length (acks x)) (acks x')) then xtr_ack Fl_Timeout r else r)"

definition xtr_forward ::
  "serio \<Rightarrow> 'o chan_ops \<Rightarrow> u32 \<Rightarrow> nat \<Rightarrow> byte list \<Rightarrow> nat \<Rightarrow> 'o xtr \<Rightarrow> 'o xte \<Rightarrow>
   (fault + 'o xtr \<times> 'o xte) option" where
  "xtr_forward S C Fl_Timeout c bfr txmit_size r x =
     (case (if transmitting_current_packet r then xte_forward_packet S C bfr txmit_size x
            else Some (Inr x)) of
        None \<Rightarrow> None
      | Some (Inl e) \<Rightarrow> Some (Inl e)
      | Some (Inr x') \<Rightarrow>
          let r = deliver_acks Fl_Timeout c x x' r;
              r = r\<lparr>bytes_remaining_in_packet := sub32 (bytes_remaining_in_packet r) txmit_size\<rparr>
          in Some (Inr (r, if bytes_remaining_in_packet r = 0 then request_ack c x' else x')))"

partial_function (option) xtr_protocol_input ::
  "dasio \<Rightarrow> serio \<Rightarrow> 'o chan_ops \<Rightarrow> u32 \<Rightarrow> nat \<Rightarrow> inbuf \<Rightarrow> 'o xtr \<Rightarrow> 'o xte \<Rightarrow>
   (fault + inbuf \<times> 'o xtr \<times> 'o xte) option" where
  "xtr_protocol_input D S C Fl_Timeout c s r x =
     (if \<not> cp s < nc s then Some (Inr (report_ok_op D (cp s) s, r, x))
      else if rstate r = xtr_lost
      then (case xtr_lost_step D s r of (s, r) \<Rightarrow> xtr_protocol_input D S C Fl_Timeout c s r x)
      else
        (case (if rstate r = xtr_idle then xtr_idle_step D S C (circ_space x) s r
               else xtr_mid_step s r) of
           (Return, s, r) \<Rightarrow> Some (Inr (s, r, x))
         | (Continue, s, r) \<Rightarrow> xtr_protocol_input D S C Fl_Timeout c s r x
         | (Transmit txmit_size, s, r) \<Rightarrow>
             if txmit_size \<noteq> 0
             then
               (case xtr_forward S C Fl_Timeout c (drop (cp s) (ibuf s)) txmit_size r x of
                  None \<Rightarrow> None
                | Some (Inl e) \<Rightarrow> Some (Inl e)
                | Some (Inr (r, x)) \<Rightarrow>
                    xtr_protocol_input D S C Fl_Timeout c (s\<lparr>cp := cp s + txmit_size\<rparr>) r x)
             else Some (Inr (report_ok_op D (cp s) s, r, x))))"

section \<open>What the receiver does to a byte stream\<close>

text \<open>
  The same scanner as a function of the bytes still to be parsed: it returns what is logged, the
  state, the bytes that remain of the packet and the bytes left for the next call. It knows
  neither the exporter nor the buffer.
\<close>

definition piece_size :: "nat \<Rightarrow> byte list \<Rightarrow> nat" where
  "piece_size R bs =
     (if length bs \<ge> min MAX_SPKT_DATA_PER_SERIO_PKT R then min MAX_SPKT_DATA_PER_SERIO_PKT R else 0)"

definition announced :: "byte list \<Rightarrow> nat" where
  "announced bs = unat (xhgGetPacketLength (hdr_of_bytes bs))"

definition acceptable :: "byte list \<Rightarrow> bool" where
  "acceptable bs \<longleftrightarrow> xhgValidateHeader (hdr_of_bytes bs) (word_of_nat (announced bs))
     \<and> announced bs \<le> MAX_SPKT_LENGTH + 1000"

definition first_mode :: "byte list \<Rightarrow> log_mode" where
  "first_mode bs = (if announced bs > 2000 then log_newfile else log_default)"

function pieces :: "nat \<Rightarrow> byte list \<Rightarrow> byte list list" where
  "pieces R bs =
     (if piece_size R bs = 0 then []
      else take (piece_size R bs) bs # pieces (R - piece_size R bs) (drop (piece_size R bs) bs))"
  by pat_completeness auto
termination
  by (relation "measure (\<lambda>(R, bs). R)") (auto simp: piece_size_def split: if_splits)

declare pieces.simps [simp del]

definition taken :: "nat \<Rightarrow> byte list \<Rightarrow> nat" where
  "taken R bs = length (concat (pieces R bs))"

function xtr_scan ::
  "xtr_state \<Rightarrow> nat \<Rightarrow> byte list \<Rightarrow> (log_mode \<times> byte list) list \<times> xtr_state \<times> nat \<times> byte list" where
  "xtr_scan st R bs =
     (if bs = [] then ([], st, R, [])
      else case st of
        xtr_lost \<Rightarrow>
          (if 0x24 \<in> set bs then xtr_scan xtr_idle R (dropWhile (\<lambda>b. b \<noteq> 0x24) bs)
           else ([], xtr_lost, R, []))
      | xtr_idle \<Rightarrow>
          (if length bs < xio_header_size then ([], xtr_idle, R, bs)
           else if \<not> acceptable bs then xtr_scan xtr_lost (announced bs) (drop 1 bs)
           else if piece_size (announced bs) bs = 0 then ([], xtr_idle, announced bs, bs)
           else
             let n = piece_size (announced bs) bs;
                 t = xtr_scan xtr_mid_pkt (announced bs - n) (drop n bs)
             in ((first_mode bs, take n bs) # fst t, snd t))
      | xtr_mid_pkt \<Rightarrow>
          (if piece_size R bs = 0 then ([], xtr_mid_pkt, R, bs)
           else
             let n = piece_size R bs;
                 t = xtr_scan xtr_mid_pkt (R - n) (drop n bs)
             in ((log_curfile, take n bs) # fst t, snd t)))"
  by pat_completeness auto
termination
  by (relation "measure (\<lambda>(st, R, bs). 2 * length bs + (if st = xtr_lost then 1 else 0))")
    (auto simp: piece_size_def less_Suc_eq_le length_dropWhile_le neq_Nil_conv split: if_splits)

declare xtr_scan.simps [simp del]

lemma announced_less [simp]: "announced bs < 4294967296"
  using unsigned_less [of "xhgGetPacketLength (hdr_of_bytes bs)", where ?'a = nat]
  by (simp add: announced_def)

lemma piece_size_le: "piece_size R bs \<le> R" "piece_size R bs \<le> length bs"
  "piece_size R bs \<le> MAX_SPKT_DATA_PER_SERIO_PKT"
  by (auto simp: piece_size_def)

lemma piece_size_append: "piece_size R bs \<noteq> 0 \<Longrightarrow> piece_size R (bs @ cs) = piece_size R bs"
  by (auto simp: piece_size_def split: if_splits)

lemma piece_size_0 [simp]: "piece_size 0 bs = 0"
  by (simp add: piece_size_def)

lemma pieces_unfold:
  "piece_size R bs = 0 \<Longrightarrow> pieces R bs = []"
  "piece_size R bs \<noteq> 0 \<Longrightarrow> pieces R bs = take (piece_size R bs) bs #
     pieces (R - piece_size R bs) (drop (piece_size R bs) bs)"
  by (simp_all add: pieces.simps [of R bs])

lemma taken_unfold:
  "piece_size R bs = 0 \<Longrightarrow> taken R bs = 0"
  "piece_size R bs \<noteq> 0 \<Longrightarrow> taken R bs = piece_size R bs +
     taken (R - piece_size R bs) (drop (piece_size R bs) bs)"
  using piece_size_le(2) [of R bs] by (simp_all add: taken_def pieces_unfold)

lemma pieces_0 [simp]: "pieces 0 bs = []" "taken 0 bs = 0"
  by (simp_all add: pieces_unfold taken_unfold)

lemma concat_pieces: "concat (pieces R bs) = take (taken R bs) bs \<and> taken R bs \<le> R
  \<and> taken R bs \<le> length bs"
proof (induction R bs rule: pieces.induct)
  case (1 R bs)
  show ?case
    using "1.IH" piece_size_le [of R bs]
    by (cases "piece_size R bs = 0") (auto simp: pieces_unfold taken_unfold take_add)
qed

section \<open>Forwarding a packet in pieces\<close>

lemma commit_take:
  assumes "n \<le> length data"
  shows "circ_commit (take n data) n r = circ_commit data n r"
proof -
  have mc: "memcpy dst off (take n data) m = memcpy dst off data m" if "m \<le> n" for dst off m
    using that assms by (simp add: memcpy_def min_def)
  have mc2: "memcpy dst off (drop k (take n data)) m = memcpy dst off (drop k data) m"
    if "m + k \<le> n" for dst off m k
    using that assms by (auto simp: memcpy_def drop_take min_def)
  define n' where "n' = (if n > circ_space r then circ_space r else n)"
  define ts where "ts = commit_tail_space n' (commit_restart r)"
  have n': "n' \<le> n" "n' < 2 ^ 32" if "n' \<noteq> 0"
    using sub32_less [of "circ_size r" "circ_length r"]
    by (auto simp: n'_def circ_space_def not_less le_less_trans)
  have ts: "ts \<le> n'" by (auto simp: ts_def commit_tail_space_def Let_def)
  have "commit_first (take n data) ts q = commit_first data ts q"
    "commit_second (drop ts (take n data)) (sub32 n' ts) ts
      = (commit_second (drop ts data) (sub32 n' ts) ts :: 'a ring_scheme \<Rightarrow> _)"
    if "n' \<noteq> 0" for q :: "'a ring_scheme"
    using n' [OF that] ts
    by (simp_all add: commit_first_def commit_second_def mc mc2 sub32_exact fun_eq_iff)
  then show ?thesis
    by (simp add: circ_commit_def Let_def n'_def [symmetric] ts_def [symmetric])
qed

lemma commit_take_fun: "n \<le> length data \<Longrightarrow> circ_commit (take n data) n = circ_commit data n"
  by (rule ext) (rule commit_take)

lemma forward_packet_take:
  assumes "n \<le> length bfr"
  shows "xte_forward_packet S C (take n bfr) n x = xte_forward_packet S C bfr n x"
  using assms by (simp add: xte_forward_packet_def Let_def commit_take_fun)

fun forward_all ::
  "serio \<Rightarrow> 'o chan_ops \<Rightarrow> byte list list \<Rightarrow> 'o xte \<Rightarrow> (fault + 'o xte) option" where
  "forward_all S C [] x = Some (Inr x)"
| "forward_all S C (p # ps) x =
     (case xte_forward_packet S C p (length p) x of
        Some (Inr x) \<Rightarrow> forward_all S C ps x | other \<Rightarrow> other)"

lemma get_txmit_size_eq:
  "cp s \<le> nc s \<Longrightarrow> get_txmit_size s r = piece_size (bytes_remaining_in_packet r) (drop (cp s) (ibuf s))"
  by (simp add: get_txmit_size_def piece_size_def min_def)

text \<open>What the exporter sees while the pieces of a packet with \<open>R\<close> bytes to go are passed on.\<close>

definition passes_on ::
  "serio \<Rightarrow> 'o chan_ops \<Rightarrow> nat \<Rightarrow> bool \<Rightarrow> nat \<Rightarrow> byte list \<Rightarrow> 'o xte \<Rightarrow> 'o xte \<Rightarrow> bool" where
  "passes_on S C c tcp R bs x x' \<longleftrightarrow>
     (\<exists>x1. forward_all S C (if tcp then pieces R bs else []) x = Some (Inr x1)
       \<and> x' = (if 0 < R \<and> taken R bs = R then request_ack c x1 else x1))"

lemma deliver_acks_fields [simp]:
  "rstate (deliver_acks F c x x' r) = rstate r" "logged (deliver_acks F c x x' r) = logged r"
  "bytes_remaining_in_packet (deliver_acks F c x x' r) = bytes_remaining_in_packet r"
  "transmitting_current_packet (deliver_acks F c x x' r) = transmitting_current_packet r"
  by (simp_all add: deliver_acks_def xtr_ack_def)

definition rcvr_ok :: "dasio \<Rightarrow> serio \<Rightarrow> bool" where
  "rcvr_ok D S \<longleftrightarrow> consumes D \<and> reports_only D \<and> searches D \<and> lrc_first S"

lemma xtr_forward_ok:
  assumes "rcvr_ok D S" and "xte_inv S C w x" and "n \<le> length bs"
    and "n \<le> bytes_remaining_in_packet r" and "bytes_remaining_in_packet r < 2 ^ 32"
  obtains r' x1 where
    "(if transmitting_current_packet r then xte_forward_packet S C (take n bs) n x
      else Some (Inr x)) = Some (Inr x1)" "xte_inv S C w x1"
    "xtr_forward S C F c bs n r x = Some (Inr (r', if bytes_remaining_in_packet r = n
       then request_ack c x1 else x1))"
    "rstate r' = rstate r" "logged r' = logged r"
    "bytes_remaining_in_packet r' = bytes_remaining_in_packet r - n"
    "transmitting_current_packet r' = transmitting_current_packet r"
proof -
  obtain x1 where x1: "(if transmitting_current_packet r then xte_forward_packet S C bs n x
      else Some (Inr x)) = Some (Inr x1)" "xte_inv S C w x1"
    using forward_packet_safe [OF assms(2) _ assms(3)] assms(1,2)
    by (cases "transmitting_current_packet r") (auto simp: rcvr_ok_def)
  have fwd: "xtr_forward S C F c bs n r x = Some (Inr (deliver_acks F c x x1 r
      \<lparr>bytes_remaining_in_packet := bytes_remaining_in_packet r - n\<rparr>,
      if bytes_remaining_in_packet r = n then request_ack c x1 else x1))"
    using assms(4,5) x1(1) by (simp add: xtr_forward_def Let_def sub32_exact)
  show thesis
    by (rule that [OF _ x1(2) fwd]) (use x1(1) assms(3) in \<open>auto simp: forward_packet_take split: if_splits\<close>)
qed

lemma protocol_input_end:
  assumes "rcvr_ok D S" and "\<not> cp s < nc s" and "cp s \<le> nc s"
  shows "xtr_protocol_input D S C F c s r x
    = Some (Inr (\<lparr>ibuf = drop (cp s) (ibuf s), cp = 0\<rparr>, r, x))"
  using assms by (subst xtr_protocol_input.simps) (simp add: rcvr_ok_def consumes_def consumed_def)

lemma passes_on_step:
  assumes n: "n = piece_size R bs" "n \<noteq> 0"
    and fwd: "(if tcp then xte_forward_packet S C (take n bs) n x else Some (Inr x)) = Some (Inr x1)"
    and rest: "passes_on S C c tcp (R - n) (drop n bs) (if R = n then request_ack c x1 else x1) x'"
  shows "passes_on S C c tcp R bs x x'"
proof -
  have le: "n \<le> R" "n \<le> length bs" using piece_size_le [of R bs] n(1) by simp_all
  have split: "pieces R bs = take n bs # pieces (R - n) (drop n bs)"
    "taken R bs = n + taken (R - n) (drop n bs)"
    using pieces_unfold(2) [of R bs] taken_unfold(2) [of R bs] n by simp_all
  show ?thesis
  proof (cases "R = n")
    case True
    then have "pieces R bs = [take n bs]" "taken R bs = R" "x' = request_ack c x1"
      using split rest by (auto simp: passes_on_def split: if_splits)
    then show ?thesis
      using fwd n(2) le True by (auto simp: passes_on_def split: if_splits)
  next
    case False
    then have "n + taken (R - n) (drop n bs) = R \<longleftrightarrow> n < R \<and> taken (R - n) (drop n bs) = R - n"
      using le by auto
    then show ?thesis
      using rest fwd False n(2) le by (auto simp: passes_on_def split split: if_splits)
  qed
qed

lemma mid_run:
  assumes ok: "rcvr_ok D S"
    and "rstate r = xtr_mid_pkt" and "cp s \<le> nc s" and "xte_inv S C w x"
    and "bytes_remaining_in_packet r < 2 ^ 32"
    and "bs = drop (cp s) (ibuf s)" and "R = bytes_remaining_in_packet r"
  shows "\<exists>r' x'. xtr_protocol_input D S C F c s r x
      = Some (Inr (\<lparr>ibuf = drop (taken R bs) bs, cp = 0\<rparr>, r', x'))
    \<and> xte_inv S C w x' \<and> rstate r' = xtr_mid_pkt
    \<and> bytes_remaining_in_packet r' = R - taken R bs
    \<and> transmitting_current_packet r' = transmitting_current_packet r
    \<and> logged r' = logged r @ map (Pair log_curfile) (pieces R bs)
    \<and> passes_on S C c (transmitting_current_packet r) R bs x x'"
  using assms(2-)
proof (induction R bs arbitrary: s r x rule: pieces.induct)
  case (1 R bs)
  note prem = "1.prems"
  define n where "n = piece_size R bs"
  have rep: "report_ok_op D (cp s) s = \<lparr>ibuf = bs, cp = 0\<rparr>"
    using ok prem(2,5) by (simp add: rcvr_ok_def consumes_def consumed_def)
  have size: "get_txmit_size s r = n"
    using prem by (simp add: get_txmit_size_eq n_def)
  show ?case
  proof (cases "n = 0")
    case True
    have "xtr_protocol_input D S C F c s r x = Some (Inr (\<lparr>ibuf = bs, cp = 0\<rparr>, r, x))"
      using prem(1,5) size True rep
      by (subst xtr_protocol_input.simps) (simp add: xtr_mid_step_def)
    then show ?thesis
      using True prem by (auto simp: n_def pieces_unfold taken_unfold passes_on_def)
  next
    case False
    define r1 where "r1 = r\<lparr>logged := logged r @ [(log_curfile, take n bs)]\<rparr>"
    have n: "n \<le> length bs" "n \<le> R" using piece_size_le [of R bs] by (simp_all add: n_def)
    have cp: "cp s < nc s" using n(1) False prem(5) by simp
    have r1: "n \<le> bytes_remaining_in_packet r1" "bytes_remaining_in_packet r1 < 2 ^ 32"
      using n prem by (simp_all add: r1_def)
    obtain r2 x1 where x1: "(if transmitting_current_packet r1
          then xte_forward_packet S C (take n bs) n x else Some (Inr x)) = Some (Inr x1)"
      "xte_inv S C w x1"
      "xtr_forward S C F c bs n r1 x = Some (Inr (r2, if bytes_remaining_in_packet r1 = n
         then request_ack c x1 else x1))"
      "rstate r2 = rstate r1" "logged r2 = logged r1"
      "bytes_remaining_in_packet r2 = bytes_remaining_in_packet r1 - n"
      "transmitting_current_packet r2 = transmitting_current_packet r1"
      using xtr_forward_ok [OF ok prem(3) n(1) r1] by metis
    define x2 where "x2 = (if R = n then request_ack c x1 else x1)"
    define s2 where "s2 = s\<lparr>cp := cp s + n\<rparr>"
    have step: "xtr_protocol_input D S C F c s r x = xtr_protocol_input D S C F c s2 r2 x2"
      using prem(1,5,6) size False cp x1(3)
      by (subst xtr_protocol_input.simps) (simp add: xtr_mid_step_def s2_def x2_def r1_def)
    have inv2: "xte_inv S C w x2" using x1(2) by (simp add: x2_def request_ack_inv)
    have rst: "rstate r2 = xtr_mid_pkt" and cp2: "cp s2 \<le> nc s2"
      and bs2: "drop n bs = drop (cp s2) (ibuf s2)"
      and rem: "bytes_remaining_in_packet r2 < 2 ^ 32" "R - n = bytes_remaining_in_packet r2"
      using prem x1(4,6) n cp by (simp_all add: r1_def s2_def add.commute)
    obtain r' x' where IH: "xtr_protocol_input D S C F c s2 r2 x2
        = Some (Inr (\<lparr>ibuf = drop (taken (R - n) (drop n bs)) (drop n bs), cp = 0\<rparr>, r', x'))"
      "xte_inv S C w x'" "rstate r' = xtr_mid_pkt"
      "bytes_remaining_in_packet r' = R - n - taken (R - n) (drop n bs)"
      "transmitting_current_packet r' = transmitting_current_packet r2"
      "logged r' = logged r2 @ map (Pair log_curfile) (pieces (R - n) (drop n bs))"
      "passes_on S C c (transmitting_current_packet r2) (R - n) (drop n bs) x2 x'"
      using "1.IH" [folded n_def, OF False rst cp2 inv2 rem(1) bs2 rem(2)] by blast
    have po: "passes_on S C c (transmitting_current_packet r) R bs x x'"
      by (rule passes_on_step [OF n_def False, where ?x1.0 = x1])
        (use x1(1,7) IH(7) in \<open>simp_all add: r1_def x2_def\<close>)
    show ?thesis
      using step IH False n x1(5,7) po
      by (simp add: pieces_unfold(2) [of R bs] taken_unfold(2) [of R bs] n_def [symmetric] r1_def
          add.commute)
  qed
qed

lemma xtr_scan_mid:
  "xtr_scan xtr_mid_pkt R bs =
     (map (Pair log_curfile) (pieces R bs), xtr_mid_pkt, R - taken R bs, drop (taken R bs) bs)"
proof (induction R bs rule: pieces.induct)
  case (1 R bs)
  show ?case
  proof (cases "piece_size R bs = 0")
    case True
    then show ?thesis by (subst xtr_scan.simps) (simp add: pieces_unfold taken_unfold)
  next
    case False
    moreover have "bs \<noteq> []" using False piece_size_le(2) [of R bs] by auto
    ultimately show ?thesis using "1.IH" [OF False]
      by (subst xtr_scan.simps) (simp add: pieces_unfold taken_unfold Let_def add.commute)
  qed
qed

text \<open>Whether the exporter has room for a packet of \<open>L\<close> bytes cut into pieces.\<close>

definition has_room :: "serio \<Rightarrow> nat \<Rightarrow> 'o xte \<Rightarrow> bool" where
  "has_room S L x \<longleftrightarrow> L + ((L + MAX_SPKT_DATA_PER_SERIO_PKT - 1) div MAX_SPKT_DATA_PER_SERIO_PKT)
     * pkt_hdr_size S \<le> circ_space x"

lemma idle_commit:
  assumes ok: "rcvr_ok D S" and "rstate r = xtr_idle" and "cp s \<le> nc s" and inv: "xte_inv S C w x"
    and bs: "bs = drop (cp s) (ibuf s)"
    and acc: "xio_header_size \<le> length bs" "acceptable bs"
    and n: "n = piece_size (announced bs) bs" "n \<noteq> 0"
  shows "\<exists>r' x'. xtr_protocol_input D S C F c s r x
      = Some (Inr (\<lparr>ibuf = drop (taken (announced bs) bs) bs, cp = 0\<rparr>, r', x'))
    \<and> xte_inv S C w x' \<and> rstate r' = xtr_mid_pkt
    \<and> bytes_remaining_in_packet r' = announced bs - taken (announced bs) bs
    \<and> transmitting_current_packet r' = has_room S (announced bs) x
    \<and> logged r' = logged r @ (first_mode bs, take n bs)
        # map (Pair log_curfile) (pieces (announced bs - n) (drop n bs))
    \<and> passes_on S C c (has_room S (announced bs) x) (announced bs) bs x x'"
proof -
  define L where "L = announced bs"
  have le: "n \<le> length bs" "n \<le> L" "L < 2 ^ 32"
    using piece_size_le [of L bs] n by (simp_all add: L_def)
  obtain r1 where r1: "xtr_idle_step D S C (circ_space x) s r = (Transmit n, s, r1)"
    "rstate r1 = xtr_mid_pkt" "bytes_remaining_in_packet r1 = L"
    "transmitting_current_packet r1 = has_room S L x"
    "logged r1 = logged r @ [(first_mode bs, take n bs)]"
    using assms(1-3) acc n bs
    by (simp add: xtr_idle_step_def Let_def get_txmit_size_eq rcvr_ok_def reports_only_def
        acceptable_def announced_def L_def has_room_def first_mode_def xtr_sendCTS_def
        xtr_sendFlag_def)
  have rem: "n \<le> bytes_remaining_in_packet r1" "bytes_remaining_in_packet r1 < 2 ^ 32"
    using le r1(3) by simp_all
  obtain r2 x1 where x1: "(if transmitting_current_packet r1
        then xte_forward_packet S C (take n bs) n x else Some (Inr x)) = Some (Inr x1)"
    "xte_inv S C w x1"
    "xtr_forward S C F c bs n r1 x = Some (Inr (r2, if bytes_remaining_in_packet r1 = n
       then request_ack c x1 else x1))"
    "rstate r2 = rstate r1" "logged r2 = logged r1"
    "bytes_remaining_in_packet r2 = bytes_remaining_in_packet r1 - n"
    "transmitting_current_packet r2 = transmitting_current_packet r1"
    using xtr_forward_ok [OF ok inv le(1) rem] by metis
  define x2 where "x2 = (if L = n then request_ack c x1 else x1)"
  define s2 where "s2 = s\<lparr>cp := cp s + n\<rparr>"
  have cp: "cp s < nc s" "cp s2 \<le> nc s2" "drop n bs = drop (cp s2) (ibuf s2)"
    using le(1) n(2) bs assms(3) by (simp_all add: s2_def add.commute)
  have step: "xtr_protocol_input D S C F c s r x = xtr_protocol_input D S C F c s2 r2 x2"
    using assms(2) bs r1(1,3) n(2) cp(1) x1(3)
    by (subst xtr_protocol_input.simps) (simp add: s2_def x2_def)
  have mid: "rstate r2 = xtr_mid_pkt" "xte_inv S C w x2" "bytes_remaining_in_packet r2 < 2 ^ 32"
    "L - n = bytes_remaining_in_packet r2"
    using x1 r1 le by (simp_all add: x2_def request_ack_inv)
  obtain r' x' where run: "xtr_protocol_input D S C F c s2 r2 x2
      = Some (Inr (\<lparr>ibuf = drop (taken (L - n) (drop n bs)) (drop n bs), cp = 0\<rparr>, r', x'))"
    "xte_inv S C w x'" "rstate r' = xtr_mid_pkt"
    "bytes_remaining_in_packet r' = L - n - taken (L - n) (drop n bs)"
    "transmitting_current_packet r' = transmitting_current_packet r2"
    "logged r' = logged r2 @ map (Pair log_curfile) (pieces (L - n) (drop n bs))"
    "passes_on S C c (transmitting_current_packet r2) (L - n) (drop n bs) x2 x'"
    using mid_run [OF ok mid(1) cp(2) mid(2,3) cp(3) mid(4), of F c] by blast
  have "passes_on S C c (has_room S L x) L bs x x'"
    by (rule passes_on_step [OF n [folded L_def], where ?x1.0 = x1])
      (use x1(1,7) r1(4) run(7) in \<open>simp_all add: x2_def\<close>)
  then show ?thesis
    using step run x1(5,7) r1(4,5) n taken_unfold(2) [of L bs]
    by (simp add: L_def [symmetric] add.commute)
qed

text \<open>
  \<open>protocol_input\<close> returns, without fault, and does what the scanner says: this is the
  refinement that the properties use.
\<close>

definition scanned ::
  "serio \<Rightarrow> 'o chan_ops \<Rightarrow> nat \<Rightarrow> 'o xtr \<Rightarrow> byte list \<Rightarrow> 'o xte \<Rightarrow> inbuf \<Rightarrow> 'o xtr \<Rightarrow> 'o xte \<Rightarrow> bool" where
  "scanned S C c r bs x s' r' x' \<longleftrightarrow>
     (let t = xtr_scan (rstate r) (bytes_remaining_in_packet r) bs
      in logged r' = logged r @ fst t
       \<and> (rstate r', bytes_remaining_in_packet r', drop (cp s') (ibuf s')) = snd t
       \<and> (let ps = map snd (fst t);
              L = bytes_remaining_in_packet r' + length (concat ps);
              tcp = (if rstate r = xtr_mid_pkt then transmitting_current_packet r
                     else has_room S L x)
          in (rstate r' = xtr_mid_pkt \<longrightarrow> transmitting_current_packet r' = tcp)
            \<and> (\<exists>x1. forward_all S C (if tcp then ps else []) x = Some (Inr x1)
            \<and> x' = (if ps \<noteq> [] \<and> bytes_remaining_in_packet r' = 0 then request_ack c x1 else x1))))"

lemma taken_pos: "0 < taken R bs \<longleftrightarrow> pieces R bs \<noteq> []"
  using taken_unfold [of R bs] by (subst pieces.simps) (auto simp: pieces_unfold taken_def)

lemma pieces_all_iff: "0 < R \<and> taken R bs = R \<longleftrightarrow> pieces R bs \<noteq> [] \<and> R \<le> taken R bs"
  using concat_pieces [of R bs] by (auto simp: taken_pos [symmetric])

lemma scanned_transfer:
  assumes "scanned S C c r1 bs1 x s' r' x'" and "rstate r \<noteq> xtr_mid_pkt" "rstate r1 \<noteq> xtr_mid_pkt"
    and "logged r1 = logged r"
    and "xtr_scan (rstate r) (bytes_remaining_in_packet r) bs
       = xtr_scan (rstate r1) (bytes_remaining_in_packet r1) bs1"
  shows "scanned S C c r bs x s' r' x'"
  using assms by (simp add: scanned_def)

lemma scanned_mid:
  assumes "rstate r = xtr_mid_pkt" and "R = bytes_remaining_in_packet r"
    and "rstate r' = xtr_mid_pkt" "bytes_remaining_in_packet r' = R - taken R bs"
    and "transmitting_current_packet r' = transmitting_current_packet r"
    and "logged r' = logged r @ map (Pair log_curfile) (pieces R bs)"
    and "passes_on S C c (transmitting_current_packet r) R bs x x'"
  shows "scanned S C c r bs x \<lparr>ibuf = drop (taken R bs) bs, cp = 0\<rparr> r' x'"
  using assms
  by (auto simp: scanned_def Let_def xtr_scan_mid passes_on_def pieces_all_iff o_def split: if_splits)

lemma length_pieces_step:
  assumes "n = piece_size L bs" "n \<noteq> 0"
  shows "take n bs # pieces (L - n) (drop n bs) = pieces L bs"
  using pieces_unfold(2) [of L bs] assms by simp

lemma xtr_scan_commit:
  assumes "xio_header_size \<le> length bs" "acceptable bs"
    and n: "n = piece_size (announced bs) bs" "n \<noteq> 0"
  shows "xtr_scan xtr_idle R bs = ((first_mode bs, take n bs)
    # map (Pair log_curfile) (pieces (announced bs - n) (drop n bs)), xtr_mid_pkt,
      announced bs - taken (announced bs) bs, drop (taken (announced bs) bs) bs)"
proof -
  have "bs \<noteq> []" using piece_size_le(2) [of "announced bs" bs] n by auto
  then show ?thesis
    using assms taken_unfold(2) [of "announced bs" bs]
    by (subst xtr_scan.simps) (simp add: Let_def xtr_scan_mid add.commute)
qed

lemma scanned_idle:
  assumes "rstate r = xtr_idle" and "xio_header_size \<le> length bs" "acceptable bs"
    and n: "n = piece_size (announced bs) bs" "n \<noteq> 0"
    and r': "rstate r' = xtr_mid_pkt"
      "bytes_remaining_in_packet r' = announced bs - taken (announced bs) bs"
      "transmitting_current_packet r' = has_room S (announced bs) x"
    and log: "logged r' = logged r @ (first_mode bs, take n bs)
        # map (Pair log_curfile) (pieces (announced bs - n) (drop n bs))"
    and po: "passes_on S C c (has_room S (announced bs) x) (announced bs) bs x x'"
  shows "scanned S C c r bs x \<lparr>ibuf = drop (taken (announced bs) bs) bs, cp = 0\<rparr> r' x'"
proof -
  define L where "L = announced bs"
  note scan = xtr_scan_commit [OF assms(2,3) n, folded L_def]
  have ps: "map snd (fst (xtr_scan xtr_idle R bs)) = pieces L bs" for R
    using length_pieces_step [OF n] by (simp add: scan o_def L_def)
  have "L - taken L bs + length (concat (pieces L bs)) = L"
    using concat_pieces [of L bs] by (simp add: taken_def)
  then show ?thesis
    using assms(1) r' log po ps [of "bytes_remaining_in_packet r"]
    unfolding L_def [symmetric]
    by (auto simp: scanned_def Let_def passes_on_def pieces_all_iff scan split: if_splits)
qed

lemma lost_step_ok:
  assumes "rcvr_ok D S" and "rstate r = xtr_lost" and "cp s < nc s"
  obtains s1 r1 where "xtr_lost_step D s r = (s1, r1)" "cp s1 \<le> nc s1"
    "ibuf s1 = ibuf s \<or> ibuf s1 = []" "rstate r1 \<noteq> xtr_mid_pkt"
    "bytes_remaining_in_packet r1 = bytes_remaining_in_packet r" "logged r1 = logged r"
    "2 * (nc s1 - cp s1) + (if rstate r1 = xtr_lost then 1 else 0) < 2 * (nc s - cp s) + 1"
    "xtr_scan xtr_lost (bytes_remaining_in_packet r) (drop (cp s) (ibuf s))
     = xtr_scan (rstate r1) (bytes_remaining_in_packet r1) (drop (cp s1) (ibuf s1))"
proof -
  define bs where "bs = drop (cp s) (ibuf s)"
  define k where "k = length (takeWhile (\<lambda>b. b \<noteq> 0x24) bs)"
  have k: "k \<le> length bs" "drop k bs = dropWhile (\<lambda>b. b \<noteq> 0x24) bs"
    by (simp_all add: k_def dropWhile_eq_drop length_takeWhile_le)
  have bs: "length bs = nc s - cp s" "bs \<noteq> []" using assms(3) by (simp_all add: bs_def)
  have search: "not_found_op D 0x24 s =
      (if cp s + k < nc s then (False, s\<lparr>cp := cp s + k + 1\<rparr>) else (True, consumed (nc s) s))"
    using assms(1) by (simp add: rcvr_ok_def searches_def found_at_def k_def bs_def)
  show thesis
  proof (cases "0x24 \<in> set bs")
    case True
    then have "k < length bs"
      using takeWhile_eq_all_conv [of "\<lambda>b. b \<noteq> 0x24" bs] k(1)
        takeWhile_eq_take [of "\<lambda>b. b \<noteq> 0x24" bs] by (auto simp: k_def le_less)
    then have k': "cp s + k < nc s" using bs(1) by simp
    let ?r1 = "r\<lparr>bytes_discarding := add32 (bytes_discarding r) k, rstate := xtr_idle\<rparr>"
    have "xtr_lost_step D s r = (s\<lparr>cp := cp s + k\<rparr>, ?r1)"
      using k' by (simp add: xtr_lost_step_def search Let_def)
    then show thesis
    proof (rule that)
      show "xtr_scan xtr_lost (bytes_remaining_in_packet r) (drop (cp s) (ibuf s)) = xtr_scan
          (rstate ?r1) (bytes_remaining_in_packet ?r1)
          (drop (cp (s\<lparr>cp := cp s + k\<rparr>)) (ibuf (s\<lparr>cp := cp s + k\<rparr>)))"
        using True bs(2) k(2) xtr_scan.simps [of xtr_lost "bytes_remaining_in_packet r" bs]
        by (auto simp: bs_def add.commute)
    qed (use k' in simp_all)
  next
    case False
    then have "takeWhile (\<lambda>b. b \<noteq> 0x24) bs = bs" by (auto simp: takeWhile_eq_all_conv)
    then have "k = length bs" unfolding k_def by (rule arg_cong)
    then show thesis
      using that search False bs assms(2,3)
      by (simp add: xtr_lost_step_def Let_def xtr_scan.simps [of xtr_lost] bs_def [symmetric]
          consumed_def)
  qed
qed

text \<open>
  A read leaves \<open>cp\<close> at the start of the buffer, unless the receiver waits for the rest of a packet
  whose header it has.
\<close>

definition waits_at :: "byte list \<Rightarrow> inbuf \<Rightarrow> 'o xtr \<Rightarrow> bool" where
  "waits_at bs s r \<longleftrightarrow> ibuf s = bs \<and> rstate r = xtr_idle
     \<and> xio_header_size \<le> length (drop (cp s) (ibuf s))"

definition run_ok ::
  "serio \<Rightarrow> 'o chan_ops \<Rightarrow> ('o \<Rightarrow> byte list) \<Rightarrow> nat \<Rightarrow> inbuf \<Rightarrow> 'o xtr \<Rightarrow> 'o xte \<Rightarrow>
   (fault + inbuf \<times> 'o xtr \<times> 'o xte) option \<Rightarrow> bool" where
  "run_ok S C w c s r x res \<longleftrightarrow> (\<exists>s' r' x'. res = Some (Inr (s', r', x')) \<and> cp s' \<le> nc s'
     \<and> xte_inv S C w x' \<and> bytes_remaining_in_packet r' < 2 ^ 32
     \<and> scanned S C c r (drop (cp s) (ibuf s)) x s' r' x' \<and> (cp s' = 0 \<or> waits_at (ibuf s) s' r'))"

text \<open>A pass that goes round the loop outside a packet changes neither log nor outcome.\<close>

lemma run_ok_again:
  assumes "run_ok S C w c s1 r1 x res"
    and "rstate r \<noteq> xtr_mid_pkt" "rstate r1 \<noteq> xtr_mid_pkt" "logged r1 = logged r"
    and ibuf: "ibuf s1 = ibuf s \<or> ibuf s1 = []"
    and "xtr_scan (rstate r) (bytes_remaining_in_packet r) (drop (cp s) (ibuf s))
       = xtr_scan (rstate r1) (bytes_remaining_in_packet r1) (drop (cp s1) (ibuf s1))"
  shows "run_ok S C w c s r x res"
proof -
  obtain s' r' x' where run: "res = Some (Inr (s', r', x'))" "cp s' \<le> nc s'" "xte_inv S C w x'"
    "bytes_remaining_in_packet r' < 2 ^ 32"
    "scanned S C c r1 (drop (cp s1) (ibuf s1)) x s' r' x'" "cp s' = 0 \<or> waits_at (ibuf s1) s' r'"
    using assms(1) by (auto simp: run_ok_def)
  have "scanned S C c r (drop (cp s) (ibuf s)) x s' r' x'"
    using scanned_transfer [OF run(5) assms(2-4,6)] .
  moreover have "cp s' = 0 \<or> waits_at (ibuf s) s' r'"
    using ibuf run(2,6) by (auto simp: waits_at_def)
  ultimately show ?thesis using run(1-4) by (auto simp: run_ok_def)
qed

text \<open>The state \<open>xtr_idle\<close>: the read ends, or the search for a header goes on behind \<open>cp\<close>.\<close>

lemma idle_pass:
  assumes ok: "rcvr_ok D S" and idle: "rstate r = xtr_idle" and s: "cp s < nc s"
    and inv: "xte_inv S C w x" and R: "bytes_remaining_in_packet r < 2 ^ 32"
  obtains (finished) "run_ok S C w c s r x (xtr_protocol_input D S C F c s r x)"
    | (again) s1 r1 where "xtr_protocol_input D S C F c s r x = xtr_protocol_input D S C F c s1 r1 x"
      "s1 = s\<lparr>cp := cp s + 1\<rparr>" "rstate r1 = xtr_lost" "logged r1 = logged r"
      "bytes_remaining_in_packet r1 < 2 ^ 32"
      "xtr_scan (rstate r) (bytes_remaining_in_packet r) (drop (cp s) (ibuf s))
       = xtr_scan (rstate r1) (bytes_remaining_in_packet r1) (drop (cp s1) (ibuf s1))"
proof -
  define bs where "bs = drop (cp s) (ibuf s)"
  have bs: "bs \<noteq> []" "length bs = nc s - cp s" using s by (simp_all add: bs_def)
  let ?L = "announced bs"
  note step = xtr_protocol_input.simps [of D S C F c s r x]
  note defs = run_ok_def scanned_def waits_at_def bs_def [symmetric]
  consider (short) "length bs < xio_header_size"
    | (bad) "xio_header_size \<le> length bs" "\<not> acceptable bs"
    | (wait) "xio_header_size \<le> length bs" "acceptable bs" "piece_size ?L bs = 0"
    | (commit) "xio_header_size \<le> length bs" "acceptable bs" "piece_size ?L bs \<noteq> 0"
    by linarith
  then show thesis
  proof cases
    case short
    then have "xtr_protocol_input D S C F c s r x = Some (Inr (\<lparr>ibuf = bs, cp = 0\<rparr>, r, x))"
      using idle s ok
      by (subst step) (simp add: xtr_idle_step_def bs rcvr_ok_def consumes_def consumed_def bs_def)
    then show thesis
      using R inv short bs idle by (intro finished) (auto simp: defs xtr_scan.simps [of xtr_idle _ bs])
  next
    case bad
    define r1 where "r1 = r\<lparr>bytes_remaining_in_packet := ?L, rstate := xtr_lost\<rparr>"
    define s1 where "s1 = s\<lparr>cp := cp s + 1\<rparr>"
    have "xtr_idle_step D S C (circ_space x) s r = (Continue, s1, r1)"
      using bad bs ok by (auto simp: xtr_idle_step_def Let_def rcvr_ok_def reports_only_def
          acceptable_def announced_def r1_def s1_def bs_def [symmetric])
    then have run: "xtr_protocol_input D S C F c s r x = xtr_protocol_input D S C F c s1 r1 x"
      using s idle by (subst step) simp
    have "xtr_scan (rstate r) (bytes_remaining_in_packet r) bs =
        xtr_scan (rstate r1) (bytes_remaining_in_packet r1) (drop (cp s1) (ibuf s1))"
      using bad bs idle
      by (simp add: xtr_scan.simps [of xtr_idle _ bs] r1_def s1_def) (simp add: bs_def)
    then show thesis
      using again [OF run] unfolding bs_def by (simp add: s1_def r1_def)
  next
    case wait
    define r1 where "r1 = r\<lparr>bytes_remaining_in_packet := ?L\<rparr>"
    have "xtr_idle_step D S C (circ_space x) s r = (Return, s, r1)"
      using wait bs s by (simp add: xtr_idle_step_def Let_def get_txmit_size_eq
          acceptable_def announced_def r1_def bs_def [symmetric])
    then have "xtr_protocol_input D S C F c s r x = Some (Inr (s, r1, x))"
      using s idle by (subst step) simp
    then show thesis
      using s inv wait bs idle
      by (intro finished) (auto simp: defs xtr_scan.simps [of xtr_idle _ bs] r1_def)
  next
    case commit
    obtain r' x' where run: "xtr_protocol_input D S C F c s r x
        = Some (Inr (\<lparr>ibuf = drop (taken ?L bs) bs, cp = 0\<rparr>, r', x'))"
      "xte_inv S C w x'" "rstate r' = xtr_mid_pkt"
      "bytes_remaining_in_packet r' = ?L - taken ?L bs"
      "transmitting_current_packet r' = has_room S ?L x"
      "logged r' = logged r @ (first_mode bs, take (piece_size ?L bs) bs)
        # map (Pair log_curfile) (pieces (?L - piece_size ?L bs) (drop (piece_size ?L bs) bs))"
      "passes_on S C c (has_room S ?L x) ?L bs x x'"
      using idle_commit [OF ok idle less_imp_le [OF s] inv bs_def commit(1,2) refl commit(3)] by metis
    have "scanned S C c r bs x \<lparr>ibuf = drop (taken ?L bs) bs, cp = 0\<rparr> r' x'"
      by (rule scanned_idle [OF idle commit(1,2) refl commit(3) run(3-7)])
    then show thesis
      using run by (intro finished) (auto simp: run_ok_def bs_def [symmetric] less_imp_diff_less)
  qed
qed

lemma mid_pass:
  assumes ok: "rcvr_ok D S" and mid: "rstate r = xtr_mid_pkt" and s: "cp s \<le> nc s"
    and inv: "xte_inv S C w x" and R: "bytes_remaining_in_packet r < 2 ^ 32"
  shows "run_ok S C w c s r x (xtr_protocol_input D S C F c s r x)"
proof -
  let ?bs = "drop (cp s) (ibuf s)" and ?R = "bytes_remaining_in_packet r"
  obtain r' x' where run: "xtr_protocol_input D S C F c s r x
      = Some (Inr (\<lparr>ibuf = drop (taken ?R ?bs) ?bs, cp = 0\<rparr>, r', x'))"
    "xte_inv S C w x'" "rstate r' = xtr_mid_pkt" "bytes_remaining_in_packet r' = ?R - taken ?R ?bs"
    "transmitting_current_packet r' = transmitting_current_packet r"
    "logged r' = logged r @ map (Pair log_curfile) (pieces ?R ?bs)"
    "passes_on S C c (transmitting_current_packet r) ?R ?bs x x'"
    using mid_run [OF ok mid s inv R refl refl] by metis
  have "scanned S C c r ?bs x \<lparr>ibuf = drop (taken ?R ?bs) ?bs, cp = 0\<rparr> r' x'"
    by (rule scanned_mid [OF mid refl run(3-7)])
  then show ?thesis using run(1,2,4) R by (simp add: run_ok_def)
qed

lemma run_ok_input:
  assumes ok: "rcvr_ok D S" and "cp s \<le> nc s" and inv: "xte_inv S C w x"
    and "bytes_remaining_in_packet r < 2 ^ 32"
  shows "run_ok S C w c s r x (xtr_protocol_input D S C F c s r x)"
  using assms(2,4)
proof (induction "2 * (nc s - cp s) + (if rstate r = xtr_lost then 1 else 0)" arbitrary: s r
    rule: less_induct)
  case less
  show ?case
  proof (cases "cp s < nc s")
    case False
    then have "xtr_protocol_input D S C F c s r x
        = Some (Inr (\<lparr>ibuf = drop (cp s) (ibuf s), cp = 0\<rparr>, r, x))"
      using protocol_input_end [OF ok False less.prems(1)] by simp
    with False less.prems inv show ?thesis
      by (auto simp: run_ok_def scanned_def Let_def xtr_scan.simps [of "rstate r" _ "[]"])
  next
    case True
    show ?thesis
    proof (cases "rstate r")
      case xtr_lost
      obtain s1 r1 where s1: "xtr_lost_step D s r = (s1, r1)" "cp s1 \<le> nc s1"
        "ibuf s1 = ibuf s \<or> ibuf s1 = []" "rstate r1 \<noteq> xtr_mid_pkt"
        "bytes_remaining_in_packet r1 = bytes_remaining_in_packet r" "logged r1 = logged r"
        "2 * (nc s1 - cp s1) + (if rstate r1 = xtr_lost then 1 else 0) < 2 * (nc s - cp s) + 1"
        "xtr_scan xtr_lost (bytes_remaining_in_packet r) (drop (cp s) (ibuf s))
         = xtr_scan (rstate r1) (bytes_remaining_in_packet r1) (drop (cp s1) (ibuf s1))"
        using lost_step_ok [OF ok xtr_lost True] by metis
      have "xtr_protocol_input D S C F c s r x = xtr_protocol_input D S C F c s1 r1 x"
        using True xtr_lost s1(1) by (subst xtr_protocol_input.simps) simp
      moreover have "run_ok S C w c s1 r1 x (xtr_protocol_input D S C F c s1 r1 x)"
        using s1 xtr_lost less.prems(2) by (intro less.hyps) simp_all
      from run_ok_again [OF this _ s1(4,6,3)]
      have "run_ok S C w c s r x (xtr_protocol_input D S C F c s1 r1 x)" using s1(8) xtr_lost by simp
      ultimately show ?thesis by simp
    next
      case xtr_mid_pkt
      then show ?thesis by (rule mid_pass [OF ok _ less.prems(1) inv less.prems(2)])
    next
      case xtr_idle
      show ?thesis
      proof (cases rule: idle_pass [OF ok xtr_idle True inv less.prems(2), of c F,
            case_names finished again])
        case (again s1 r1)
        have "run_ok S C w c s1 r1 x (xtr_protocol_input D S C F c s1 r1 x)"
          using again True xtr_idle by (intro less.hyps) simp_all
        from run_ok_again [OF this _ _ again(4) _ again(6)] show ?thesis
          unfolding again(1) using again(2,3) xtr_idle by simp
      qed
    qed
  qed
qed

lemma xtr_run_waits:
  assumes "rcvr_ok D S" and "cp s \<le> nc s" and "xte_inv S C w x"
    and "bytes_remaining_in_packet r < 2 ^ 32"
  shows "\<exists>s' r' x'. xtr_protocol_input D S C F c s r x = Some (Inr (s', r', x'))
    \<and> cp s' \<le> nc s' \<and> xte_inv S C w x' \<and> bytes_remaining_in_packet r' < 2 ^ 32
    \<and> scanned S C c r (drop (cp s) (ibuf s)) x s' r' x' \<and> (cp s' = 0 \<or> waits_at (ibuf s) s' r')"
  using run_ok_input [OF assms] by (simp add: run_ok_def)

lemma xtr_run:
  assumes "rcvr_ok D S" and "cp s \<le> nc s" and "xte_inv S C w x"
    and "bytes_remaining_in_packet r < 2 ^ 32"
  shows "\<exists>s' r' x'. xtr_protocol_input D S C F c s r x = Some (Inr (s', r', x'))
    \<and> cp s' \<le> nc s' \<and> xte_inv S C w x' \<and> bytes_remaining_in_packet r' < 2 ^ 32
    \<and> scanned S C c r (drop (cp s) (ibuf s)) x s' r' x'"
  using xtr_run_waits [OF assms] by blast

section \<open>Facts about the scanner\<close>

lemma header_append:
  assumes "xio_header_size \<le> length bs"
  shows "hdr_of_bytes (bs @ cs) = hdr_of_bytes bs" "announced (bs @ cs) = announced bs"
    "acceptable (bs @ cs) = acceptable bs" "first_mode (bs @ cs) = first_mode bs"
proof -
  show h: "hdr_of_bytes (bs @ cs) = hdr_of_bytes bs"
    using assms by (simp add: hdr_of_bytes_def xio_header_size_def nth_append)
  show a: "announced (bs @ cs) = announced bs" by (simp add: announced_def h)
  show "acceptable (bs @ cs) = acceptable bs" "first_mode (bs @ cs) = first_mode bs"
    by (simp_all add: acceptable_def first_mode_def h a)
qed

lemma acceptable_starts: "acceptable bs \<Longrightarrow> xio_header_size \<le> length bs \<Longrightarrow> bs \<noteq> [] \<and> hd bs = 0x24"
  by (cases bs) (auto simp: acceptable_def xhgValidateHeader_iff hdr_of_bytes_def XioHarPacketStart_def
      xio_header_size_def)

lemma xtr_scan_Nil [simp]: "xtr_scan st R [] = ([], st, R, [])"
  by (simp add: xtr_scan.simps [of st R "[]"])

lemma xtr_scan_lost:
  "xtr_scan xtr_lost R bs =
     (if 0x24 \<in> set bs then xtr_scan xtr_idle R (dropWhile (\<lambda>b. b \<noteq> 0x24) bs)
      else ([], xtr_lost, R, []))"
  by (subst xtr_scan.simps) auto

lemma xtr_scan_idle:
  "length bs < xio_header_size \<Longrightarrow> xtr_scan xtr_idle R bs = ([], xtr_idle, R, bs)"
  "xio_header_size \<le> length bs \<Longrightarrow> \<not> acceptable bs \<Longrightarrow>
     xtr_scan xtr_idle R bs = xtr_scan xtr_lost (announced bs) (drop 1 bs)"
  "xio_header_size \<le> length bs \<Longrightarrow> acceptable bs \<Longrightarrow> piece_size (announced bs) bs = 0 \<Longrightarrow>
     xtr_scan xtr_idle R bs = ([], xtr_idle, announced bs, bs)"
  by (simp_all add: xtr_scan.simps [of xtr_idle R bs] xio_header_size_def) auto

text \<open>
  Outside a packet, a scan that ends waiting for the rest of a packet can be started again from
  its first byte, in the other state: it comes to the same.
\<close>

lemma xtr_scan_idle_any:
  assumes "xio_header_size \<le> length bs"
  shows "xtr_scan xtr_idle R bs = xtr_scan xtr_idle R' bs"
proof (cases "acceptable bs \<and> piece_size (announced bs) bs \<noteq> 0")
  case True
  then show ?thesis using xtr_scan_commit [OF assms _ refl] by simp
next
  case False
  then show ?thesis using xtr_scan_idle(2,3) [OF assms] by (cases "acceptable bs") simp_all
qed

lemma xtr_scan_again:
  assumes scan: "xtr_scan st R bs = ([], xtr_idle, L, left)" and "st \<noteq> xtr_mid_pkt"
    and left: "xio_header_size \<le> length left"
  shows "xtr_scan xtr_idle R' bs = ([], xtr_idle, L, left)"
proof -
  have idle: "xtr_scan xtr_idle R'' ds = ([], xtr_idle, L, left) \<and> xio_header_size \<le> length ds"
    if "xtr_scan xtr_idle R ds = ([], xtr_idle, L, left)" for R R'' ds
  proof (cases "length ds < xio_header_size")
    case True
    then show ?thesis using that left by (simp add: xtr_scan_idle(1))
  next
    case False
    then show ?thesis using that xtr_scan_idle_any [of ds R R''] by simp
  qed
  show ?thesis
  proof (cases st)
    case xtr_lost
    define ds where "ds = dropWhile (\<lambda>b. b \<noteq> 0x24) bs"
    have "xtr_scan xtr_idle R ds = ([], xtr_idle, L, left)"
      using scan xtr_lost by (auto simp: xtr_scan_lost [of R bs] ds_def split: if_splits)
    note ds = idle [OF this]
    show ?thesis
    proof (cases "bs = ds")
      case True
      then show ?thesis using ds by simp
    next
      case False
      then obtain b cs where bs: "bs = b # cs" "b \<noteq> 0x24" "ds = dropWhile (\<lambda>b. b \<noteq> 0x24) cs"
        by (cases bs) (auto simp: ds_def split: if_splits)
      have "length ds \<le> length bs" by (simp add: ds_def length_dropWhile_le)
      then have len: "xio_header_size \<le> length bs" using ds by (meson le_trans)
      then have "\<not> acceptable bs" using acceptable_starts [OF _ len] bs(1,2) by auto
      moreover have "ds \<noteq> []" using ds left by (auto simp: xio_header_size_def)
      then have "0x24 \<in> set cs" unfolding bs(3) by (simp add: dropWhile_eq_Nil_conv)
      ultimately show ?thesis
        using xtr_scan_idle(2) [OF len, of R'] xtr_scan_lost [of "announced bs" cs] ds bs by simp
    qed
  qed (use idle scan assms(2) in auto)
qed

text \<open>Scanning a stream in two parts: what is left of the first is the start of the second.\<close>

lemma xtr_scan_append:
  "xtr_scan st R (bs @ cs) =
     (let t = xtr_scan st R bs; u = snd t;
          t2 = xtr_scan (fst u) (fst (snd u)) (snd (snd u) @ cs)
      in (fst t @ fst t2, snd t2))"
proof (induction st R bs rule: xtr_scan.induct)
  case (1 st R bs)
  show ?case
  proof (cases "bs = []")
    case True
    then show ?thesis by (simp add: xtr_scan.simps [of st R "[]"])
  next
    case ne: False
    show ?thesis
    proof (cases st)
      case xtr_lost
      show ?thesis
      proof (cases "0x24 \<in> set bs")
        case True
        then show ?thesis
          using "1.IH"(4) [OF ne xtr_lost True] ne xtr_lost
          by (simp add: xtr_scan_lost [of R "bs @ cs"] xtr_scan_lost [of R bs])
      next
        case False
        then have "dropWhile (\<lambda>b. b \<noteq> 0x24) (bs @ cs) = dropWhile (\<lambda>b. b \<noteq> 0x24) cs"
          by (intro dropWhile_append2) auto
        then show ?thesis
          using xtr_lost False by (simp add: xtr_scan_lost)
      qed
    next
      case xtr_mid_pkt
      show ?thesis
      proof (cases "piece_size R bs = 0")
        case True
        then show ?thesis using ne xtr_mid_pkt by (simp add: xtr_scan.simps [of xtr_mid_pkt R bs])
      next
        case False
        then show ?thesis
          using "1.IH"(3) [OF ne xtr_mid_pkt False refl] ne xtr_mid_pkt piece_size_le(2) [of R bs]
          by (simp add: xtr_scan.simps [of xtr_mid_pkt R "bs @ cs"]
              xtr_scan.simps [of xtr_mid_pkt R bs] Let_def piece_size_append)
      qed
    next
      case xtr_idle
      note eqs = xtr_scan.simps [of xtr_idle R "bs @ cs"] xtr_scan.simps [of xtr_idle R bs]
      consider (short) "length bs < xio_header_size"
        | (bad) "\<not> length bs < xio_header_size" "\<not> acceptable bs"
        | (wait) "\<not> length bs < xio_header_size" "acceptable bs" "piece_size (announced bs) bs = 0"
        | (commit) "\<not> length bs < xio_header_size" "acceptable bs"
            "piece_size (announced bs) bs \<noteq> 0"
        by linarith
      then show ?thesis
      proof cases
        case short
        then show ?thesis using ne xtr_idle by (simp add: xtr_scan.simps [of xtr_idle R bs])
      next
        case bad
        moreover have "Suc 0 - length bs = 0" using ne by (cases bs) simp_all
        ultimately show ?thesis
          using "1.IH"(1) [OF ne xtr_idle bad(1)] ne xtr_idle
          by (simp add: eqs header_append Let_def)
      next
        case wait
        then show ?thesis
          using ne xtr_idle
          by (simp add: eqs header_append Let_def
              xtr_scan.simps [of xtr_idle "announced bs" "bs @ cs"])
      next
        case commit
        then show ?thesis
          using "1.IH"(2) [OF ne xtr_idle commit(1) _ commit(3) refl] ne xtr_idle
            piece_size_le(2) [of "announced bs" bs]
          by (simp add: eqs header_append Let_def piece_size_append)
      qed
    qed
  qed
qed

lemma piece_size_whole: "R \<le> length bs \<Longrightarrow> piece_size R bs = min MAX_SPKT_DATA_PER_SERIO_PKT R"
  by (auto simp: piece_size_def)

lemma pieces_whole:
  assumes "R \<le> length bs"
  shows "taken R bs = R \<and> concat (pieces R bs) = take R bs
    \<and> length (pieces R bs) = (R + MAX_SPKT_DATA_PER_SERIO_PKT - 1) div MAX_SPKT_DATA_PER_SERIO_PKT"
  using assms
proof (induction R bs rule: pieces.induct)
  case (1 R bs)
  show ?case
  proof (cases "R = 0")
    case True
    then show ?thesis by (simp add: MAX_SPKT_DATA_PER_SERIO_PKT_def)
  next
    case False
    define n where "n = piece_size R bs"
    have n: "n = min MAX_SPKT_DATA_PER_SERIO_PKT R" "n \<noteq> 0"
      using "1.prems" False by (auto simp: n_def piece_size_whole MAX_SPKT_DATA_PER_SERIO_PKT_def)
    have IH: "taken (R - n) (drop n bs) = R - n"
      "length (pieces (R - n) (drop n bs)) =
        (R - n + MAX_SPKT_DATA_PER_SERIO_PKT - 1) div MAX_SPKT_DATA_PER_SERIO_PKT"
      using "1.IH" [folded n_def] n "1.prems" by simp_all
    have tk: "taken R bs = R"
      using taken_unfold(2) [of R bs] n IH(1) by (simp add: n_def [symmetric])
    moreover have "length (pieces R bs) = Suc (length (pieces (R - n) (drop n bs)))"
      using pieces_unfold(2) [of R bs] n by (simp add: n_def [symmetric])
    then have "length (pieces R bs) =
        (R + MAX_SPKT_DATA_PER_SERIO_PKT - 1) div MAX_SPKT_DATA_PER_SERIO_PKT"
      using IH(2) n False by (simp add: MAX_SPKT_DATA_PER_SERIO_PKT_def min_def split: if_splits)
    ultimately show ?thesis using concat_pieces [of R bs] by simp
  qed
qed

text \<open>After a complete packet the scanner is in the middle of a packet with nothing to go.\<close>

lemma xtr_scan_done: "xtr_scan xtr_mid_pkt 0 bs = ([], xtr_mid_pkt, 0, bs)"
  by (simp add: xtr_scan_mid)

lemma acceptable_packet:
  assumes "xhgValidateHeader (hdr_of_bytes pkt) (word_of_nat (length pkt))"
    and "length pkt \<le> MAX_SPKT_LENGTH + 1000"
  shows "announced pkt = length pkt" "acceptable pkt"
proof -
  have "xhgGetPacketLength (hdr_of_bytes pkt) = word_of_nat (length pkt)"
    using assms(1) by (simp add: xhgValidateHeader_iff)
  then show a: "announced pkt = length pkt"
    using assms(2)
    by (simp add: announced_def unsigned_of_nat take_bit_nat_eq_self MAX_SPKT_LENGTH_def)
  show "acceptable pkt" using assms by (simp add: acceptable_def a)
qed

lemma xtr_scan_sync:
  assumes "0x24 \<notin> set junk" and "bs \<noteq> []" "hd bs = 0x24"
  shows "xtr_scan xtr_lost R (junk @ bs) = xtr_scan xtr_idle R bs"
proof -
  have "dropWhile (\<lambda>b. b \<noteq> 0x24) (junk @ bs) = dropWhile (\<lambda>b. b \<noteq> 0x24) bs"
    using assms(1) by (intro dropWhile_append2) auto
  also have "\<dots> = bs" using assms(2,3) by (cases bs) auto
  finally show ?thesis
    using assms by (cases bs) (auto simp: xtr_scan_lost)
qed

lemma xtr_scan_packet:
  assumes "xhgValidateHeader (hdr_of_bytes pkt) (word_of_nat (length pkt))"
    and "xio_header_size \<le> length pkt" and "length pkt \<le> MAX_SPKT_LENGTH + 1000"
  shows "\<exists>p ps. xtr_scan xtr_idle R (pkt @ rest)
      = ((first_mode pkt, p) # map (Pair log_curfile) ps, xtr_mid_pkt, 0, rest)
    \<and> p # ps = pieces (length pkt) (pkt @ rest)"
proof -
  define L where "L = length pkt"
  have ann: "announced (pkt @ rest) = L" "acceptable (pkt @ rest)"
    "first_mode (pkt @ rest) = first_mode pkt"
    using acceptable_packet [OF assms(1,3)] header_append [OF assms(2)] by (simp_all add: L_def)
  define n where "n = piece_size L (pkt @ rest)"
  have n: "n \<noteq> 0" "n \<le> length pkt"
    using assms(2) by (auto simp: n_def L_def piece_size_whole MAX_SPKT_DATA_PER_SERIO_PKT_def
        xio_header_size_def)
  have "xtr_scan xtr_idle R (pkt @ rest)
      = ((first_mode pkt, take n (pkt @ rest))
         # map (Pair log_curfile) (pieces (L - n) (drop n (pkt @ rest))), xtr_mid_pkt, 0, rest)"
    using xtr_scan_commit [of "pkt @ rest" n R] assms(2) ann n(1)
      pieces_whole [of L "pkt @ rest"]
    by (simp add: n_def [symmetric]) (simp add: L_def)
  moreover have "take n (pkt @ rest) # pieces (L - n) (drop n (pkt @ rest)) = pieces L (pkt @ rest)"
    by (rule length_pieces_step [OF n_def n(1)])
  ultimately show ?thesis by (auto simp: L_def)
qed

lemma xtr_scan_first_packet:
  assumes "0x24 \<notin> set junk"
    and pkt: "xhgValidateHeader (hdr_of_bytes pkt) (word_of_nat (length pkt))"
      "xio_header_size \<le> length pkt" "length pkt \<le> MAX_SPKT_LENGTH + 1000"
  obtains p ps where "xtr_scan xtr_lost R (junk @ pkt @ rest)
      = ((first_mode pkt, p) # map (Pair log_curfile) ps, xtr_mid_pkt, 0, rest)"
    "p # ps = pieces (length pkt) (pkt @ rest)"
proof -
  have "acceptable (pkt @ rest)"
    using acceptable_packet [OF pkt(1,3)] header_append [OF pkt(2)] by simp
  then have "pkt @ rest \<noteq> [] \<and> hd (pkt @ rest) = 0x24"
    using pkt(2) by (intro acceptable_starts) simp_all
  then have "xtr_scan xtr_lost R (junk @ pkt @ rest) = xtr_scan xtr_idle R (pkt @ rest)"
    using xtr_scan_sync [OF assms(1)] by blast
  with that xtr_scan_packet [OF pkt, of R rest] show thesis by metis
qed

lemma pieces_sizes: "p \<in> set (pieces R bs) \<Longrightarrow> 0 < length p \<and> length p \<le> MAX_SPKT_DATA_PER_SERIO_PKT"
proof (induction R bs rule: pieces.induct)
  case (1 R bs)
  then show ?case
    using piece_size_le [of R bs] by (cases "piece_size R bs = 0") (auto simp: pieces_unfold)
qed

section \<open>Properties\<close>

text \<open>
  C3: \<open>protocol_input\<close> always returns, whatever bytes arrive and whatever state the receiver
  and the exporter are in: no fault, the loop ends, and log, state, bytes to go and remaining
  input are those the scanner computes from the bytes alone. The exporter is handed exactly the
  logged pieces if it had room for the whole packet, and the acknowledge request when the packet
  is complete.
\<close>

theorem protocol_input_refines_scanner:
  assumes "rcvr_ok D S" and "xte_inv S C w x" and "cp s \<le> nc s"
    and "bytes_remaining_in_packet r < 2 ^ 32"
  shows "\<exists>s' r' x'. xtr_protocol_input D S C F c s r x = Some (Inr (s', r', x'))
    \<and> xte_inv S C w x' \<and> bytes_remaining_in_packet r' < 2 ^ 32
    \<and> (let (log, t) = xtr_scan (rstate r) (bytes_remaining_in_packet r) (drop (cp s) (ibuf s));
           ps = map snd log;
           tcp = (if rstate r = xtr_mid_pkt then transmitting_current_packet r
             else has_room S (bytes_remaining_in_packet r' + length (concat ps)) x)
       in logged r' = logged r @ log
         \<and> (rstate r', bytes_remaining_in_packet r', drop (cp s') (ibuf s')) = t
         \<and> (rstate r' = xtr_mid_pkt \<longrightarrow> transmitting_current_packet r' = tcp)
         \<and> (\<exists>x1. forward_all S C (if tcp then ps else []) x = Some (Inr x1)
            \<and> x' = (if ps \<noteq> [] \<and> bytes_remaining_in_packet r' = 0 then request_ack c x1 else x1)))"
proof -
  obtain s' r' x' where run: "xtr_protocol_input D S C F c s r x = Some (Inr (s', r', x'))"
    "xte_inv S C w x'" "bytes_remaining_in_packet r' < 2 ^ 32"
    "scanned S C c r (drop (cp s) (ibuf s)) x s' r' x'"
    using xtr_run [OF assms(1,3,2,4)] by blast
  then show ?thesis
    by (intro exI [of _ s'] exI [of _ r'] exI [of _ x'])
      (simp only: scanned_def Let_def case_prod_beta simp_thms cong: imp_cong)
qed

text \<open>
  C9: What is logged does not depend on how the stream is cut into reads: processing the input
  and then more input gives the same log, state and remaining bytes as processing both at once,
  even if the exporter is in a different state in the three calls.
\<close>

theorem fragmentation_independent:
  assumes ok: "rcvr_ok D S" and inv: "xte_inv S C w x" "xte_inv S C w y" "xte_inv S C w z"
    and "cp s \<le> nc s" "bytes_remaining_in_packet r < 2 ^ 32"
    and run1: "xtr_protocol_input D S C F c s r x = Some (Inr (s1, r1, x1))"
    and run2: "xtr_protocol_input D S C F c (s1\<lparr>ibuf := ibuf s1 @ cs\<rparr>) r1 y = Some (Inr (s2, r2, y2))"
    and run3: "xtr_protocol_input D S C F c (s\<lparr>ibuf := ibuf s @ cs\<rparr>) r z = Some (Inr (s3, r3, z3))"
  shows "logged r2 = logged r3 \<and> rstate r2 = rstate r3
    \<and> bytes_remaining_in_packet r2 = bytes_remaining_in_packet r3
    \<and> drop (cp s2) (ibuf s2) = drop (cp s3) (ibuf s3)"
proof -
  define bs where "bs = drop (cp s) (ibuf s)"
  have 1: "cp s1 \<le> nc s1" "bytes_remaining_in_packet r1 < 2 ^ 32" "scanned S C c r bs x s1 r1 x1"
    using xtr_run [OF ok assms(5) inv(1) assms(6), of F c] run1 by (simp_all add: bs_def)
  have 2: "scanned S C c r1 (drop (cp s1) (ibuf s1) @ cs) y s2 r2 y2"
    using xtr_run [OF ok _ inv(2) 1(2), of "s1\<lparr>ibuf := ibuf s1 @ cs\<rparr>" F c] run2 1(1)
    by simp
  have 3: "scanned S C c r (bs @ cs) z s3 r3 z3"
    using xtr_run [OF ok _ inv(3) assms(6), of "s\<lparr>ibuf := ibuf s @ cs\<rparr>" F c] run3 assms(5)
    by (simp add: bs_def)
  show ?thesis
    using 1(3) 2 3
    by (cases "xtr_scan (rstate r) (bytes_remaining_in_packet r) bs")
      (auto simp: scanned_def Let_def xtr_scan_append [of "rstate r"] prod_eq_iff)
qed

text \<open>
  C11: A valid packet that arrives after bytes without a \<open>$\<close> is logged completely, in pieces of
  at most 956 bytes of which the first opens a new file for images; the exporter receives the
  same pieces when the packet with one header for each of its pieces fits the room it has, and
  nothing otherwise; then the acknowledge is requested. What follows the packet stays in the
  buffer.
\<close>

theorem packet_received:
  assumes ok: "rcvr_ok D S" and inv: "xte_inv S C w x"
    and "rstate r = xtr_lost" and "bytes_remaining_in_packet r < 2 ^ 32"
    and junk: "0x24 \<notin> set junk"
    and pkt: "xhgValidateHeader (hdr_of_bytes pkt) (word_of_nat (length pkt))"
      "xio_header_size \<le> length pkt" "length pkt \<le> MAX_SPKT_LENGTH + 1000"
    and n: "n = (length pkt + 955) div 956"
  shows "\<exists>s' r' x' p ps x1.
      xtr_protocol_input D S C F c \<lparr>ibuf = junk @ pkt @ rest, cp = 0\<rparr> r x = Some (Inr (s', r', x'))
    \<and> concat (p # ps) = pkt \<and> length (p # ps) = n
    \<and> (\<forall>q \<in> set (p # ps). 0 < length q \<and> length q \<le> 956)
    \<and> logged r' = logged r @ (if length pkt > 2000 then log_newfile else log_default, p)
        # map (Pair log_curfile) ps
    \<and> forward_all S C (if length pkt + n * pkt_hdr_size S \<le> circ_space x then p # ps else []) x
        = Some (Inr x1)
    \<and> x' = request_ack c x1 \<and> drop (cp s') (ibuf s') = rest
    \<and> rstate r' = xtr_mid_pkt \<and> bytes_remaining_in_packet r' = 0"
proof -
  obtain p ps where scan': "xtr_scan xtr_lost (bytes_remaining_in_packet r) (junk @ pkt @ rest)
      = ((first_mode pkt, p) # map (Pair log_curfile) ps, xtr_mid_pkt, 0, rest)"
    and ps: "p # ps = pieces (length pkt) (pkt @ rest)"
    by (rule xtr_scan_first_packet [OF junk pkt])
  have ann: "announced pkt = length pkt" using acceptable_packet [OF pkt(1,3)] by simp
  have len: "concat (p # ps) = pkt" "length (p # ps) = n"
    using pieces_whole [of "length pkt" "pkt @ rest"] n
    by (simp_all add: ps [symmetric] MAX_SPKT_DATA_PER_SERIO_PKT_def)
  obtain s' r' x' where run:
    "xtr_protocol_input D S C F c \<lparr>ibuf = junk @ pkt @ rest, cp = 0\<rparr> r x = Some (Inr (s', r', x'))"
    "scanned S C c r (junk @ pkt @ rest) x s' r' x'"
    using xtr_run [OF ok _ inv assms(4), of "\<lparr>ibuf = junk @ pkt @ rest, cp = 0\<rparr>" F c] by auto
  have L: "length p + length (concat ps) = length pkt" using len(1) by auto
  have "logged r' = logged r @ (first_mode pkt, p) # map (Pair log_curfile) ps"
    "rstate r' = xtr_mid_pkt" "bytes_remaining_in_packet r' = 0" "drop (cp s') (ibuf s') = rest"
    using run(2) by (simp_all add: scanned_def assms(3) scan')
  moreover obtain x1 where
    "forward_all S C (if length pkt + n * pkt_hdr_size S \<le> circ_space x then p # ps else []) x
      = Some (Inr x1)" "x' = request_ack c x1"
    using run(2) L calculation(3)
    by (auto simp: scanned_def assms(3) scan' o_def n has_room_def MAX_SPKT_DATA_PER_SERIO_PKT_def
        Let_def add.commute simp del: forward_all.simps split: if_splits)
  moreover have "\<forall>q \<in> set (p # ps). 0 < length q \<and> length q \<le> 956"
    using pieces_sizes [of _ "length pkt" "pkt @ rest"]
    by (simp add: ps [symmetric] MAX_SPKT_DATA_PER_SERIO_PKT_def)
  moreover have "first_mode pkt = (if length pkt > 2000 then log_newfile else log_default)"
    by (simp add: first_mode_def ann)
  ultimately show ?thesis
    using run(1) len
    by (intro exI [of _ s'] exI [of _ r'] exI [of _ x'] exI [of _ p] exI [of _ ps] exI [of _ x1])
      (simp only: simp_thms)
qed

text \<open>A sequence of reads: each adds bytes to the buffer and calls \<open>protocol_input\<close>.\<close>

fun xtr_reads ::
  "dasio \<Rightarrow> serio \<Rightarrow> 'o chan_ops \<Rightarrow> u32 \<Rightarrow> nat \<Rightarrow> byte list list \<Rightarrow> inbuf \<Rightarrow> 'o xtr \<Rightarrow> 'o xte \<Rightarrow>
   (fault + inbuf \<times> 'o xtr \<times> 'o xte) option" where
  "xtr_reads D S C F c [] s r x = Some (Inr (s, r, x))"
| "xtr_reads D S C F c (b # bs) s r x =
     (case xtr_protocol_input D S C F c (s\<lparr>ibuf := ibuf s @ b\<rparr>) r x of
        Some (Inr (s, r, x)) \<Rightarrow> xtr_reads D S C F c bs s r x | other \<Rightarrow> other)"

lemma done_ignores_input:
  assumes "rcvr_ok D S" and "rstate r = xtr_mid_pkt" "bytes_remaining_in_packet r = 0"
    and "cp s \<le> nc s"
  shows "xtr_protocol_input D S C F c s r x
    = Some (Inr (\<lparr>ibuf = drop (cp s) (ibuf s), cp = 0\<rparr>, r, x))"
proof (cases "cp s < nc s")
  case True
  then show ?thesis
    using assms
    by (subst xtr_protocol_input.simps)
      (simp add: xtr_mid_step_def get_txmit_size_eq rcvr_ok_def consumes_def consumed_def)
next
  case False
  then show ?thesis using protocol_input_end [OF assms(1) _ assms(4)] by simp
qed

lemma done_ignores_reads:
  assumes "rcvr_ok D S" and "rstate r = xtr_mid_pkt" "bytes_remaining_in_packet r = 0"
  shows "cp s \<le> nc s \<Longrightarrow> \<exists>s'. xtr_reads D S C F c css s r x = Some (Inr (s', r, x))
    \<and> drop (cp s') (ibuf s') = drop (cp s) (ibuf s) @ concat css"
proof (induction css arbitrary: s)
  case Nil
  then show ?case by auto
next
  case (Cons b css)
  then show ?case
    using done_ignores_input [OF assms, of "s\<lparr>ibuf := ibuf s @ b\<rparr>" C F c x]
      Cons.IH [of "\<lparr>ibuf = drop (cp s) (ibuf s) @ b, cp = 0\<rparr>"]
    by simp
qed

text \<open>
  C25: The receiver handles one packet per connection. The state is not set back to
  \<open>xtr_idle\<close> when a packet is complete, so whatever arrives in later reads, complete valid packets
  included, is neither logged nor forwarded and piles up in the buffer.
\<close>

theorem receiver_stops_after_packet:
  assumes ok: "rcvr_ok D S" and inv: "xte_inv S C w x"
    and "rstate r = xtr_lost" and "bytes_remaining_in_packet r < 2 ^ 32"
    and junk: "0x24 \<notin> set junk"
    and pkt: "xhgValidateHeader (hdr_of_bytes pkt) (word_of_nat (length pkt))"
      "xio_header_size \<le> length pkt" "length pkt \<le> MAX_SPKT_LENGTH + 1000"
  shows "\<exists>s' r' x' new. xtr_reads D S C F c ((junk @ pkt @ rest) # later) \<lparr>ibuf = [], cp = 0\<rparr> r x
      = Some (Inr (s', r', x'))
    \<and> logged r' = logged r @ new \<and> concat (map snd new) = pkt
    \<and> drop (cp s') (ibuf s') = rest @ concat later"
proof -
  obtain p ps where scan': "xtr_scan xtr_lost (bytes_remaining_in_packet r) (junk @ pkt @ rest)
      = ((first_mode pkt, p) # map (Pair log_curfile) ps, xtr_mid_pkt, 0, rest)"
    and ps: "p # ps = pieces (length pkt) (pkt @ rest)"
    by (rule xtr_scan_first_packet [OF junk pkt])
  obtain s1 r1 x1 where run:
    "xtr_protocol_input D S C F c \<lparr>ibuf = junk @ pkt @ rest, cp = 0\<rparr> r x = Some (Inr (s1, r1, x1))"
    "cp s1 \<le> nc s1" "scanned S C c r (junk @ pkt @ rest) x s1 r1 x1"
    using xtr_run [OF ok _ inv assms(4), of "\<lparr>ibuf = junk @ pkt @ rest, cp = 0\<rparr>" F c] by auto
  have r1: "logged r1 = logged r @ (first_mode pkt, p) # map (Pair log_curfile) ps"
    "rstate r1 = xtr_mid_pkt" "bytes_remaining_in_packet r1 = 0" "drop (cp s1) (ibuf s1) = rest"
    using run(3) by (simp_all add: scanned_def assms(3) scan')
  have "concat (p # ps) = pkt" using pieces_whole [of "length pkt" "pkt @ rest"] by (simp add: ps)
  then show ?thesis
    using done_ignores_reads [OF ok r1(2,3) run(2), of C F c later x1] run(1) r1
    by (auto simp: o_def)
qed

text \<open>
  A header with an announced length of 0 at the front of what is unread: every read leaves it there.
\<close>

lemma blocked_scan:
  assumes "length hdr = xio_header_size" "xhgValidateHeader (hdr_of_bytes hdr) 0"
  shows "announced (hdr @ u) = 0" "acceptable (hdr @ u)"
    and "xtr_scan xtr_idle R (hdr @ u) = ([], xtr_idle, 0, hdr @ u)"
proof -
  show ann: "announced (hdr @ u) = 0" "acceptable (hdr @ u)"
    using assms by (simp_all add: header_append acceptable_def announced_def xhgValidateHeader_iff)
  then show "xtr_scan xtr_idle R (hdr @ u) = ([], xtr_idle, 0, hdr @ u)"
    using assms(1) by (simp add: xtr_scan_idle(3))
qed

lemma blocked_reads:
  assumes ok: "rcvr_ok D S" and inv: "xte_inv S C w x"
    and hdr: "length hdr = xio_header_size" "xhgValidateHeader (hdr_of_bytes hdr) 0"
  shows "cp s \<le> nc s \<Longrightarrow> rstate r = xtr_idle \<Longrightarrow> bytes_remaining_in_packet r < 2 ^ 32 \<Longrightarrow>
    drop (cp s) (ibuf s) = hdr @ u \<Longrightarrow>
    \<exists>s' r'. xtr_reads D S C F c later s r x = Some (Inr (s', r', x)) \<and> rstate r' = xtr_idle
    \<and> logged r' = logged r \<and> drop (cp s') (ibuf s') = hdr @ u @ concat later"
proof (induction later arbitrary: s r u)
  case Nil
  then show ?case by simp
next
  case (Cons b later)
  let ?s = "s\<lparr>ibuf := ibuf s @ b\<rparr>"
  have u: "drop (cp ?s) (ibuf ?s) = hdr @ u @ b" "cp ?s \<le> nc ?s" using Cons.prems by simp_all
  obtain s1 r1 x1 where run: "xtr_protocol_input D S C F c ?s r x = Some (Inr (s1, r1, x1))"
    "cp s1 \<le> nc s1" "bytes_remaining_in_packet r1 < 2 ^ 32"
    "scanned S C c r (hdr @ u @ b) x s1 r1 x1"
    using xtr_run [OF ok u(2) inv Cons.prems(3), of F c] u(1) by auto
  have "x1 = x" "logged r1 = logged r" "rstate r1 = xtr_idle" "drop (cp s1) (ibuf s1) = hdr @ u @ b"
    using run(4) by (auto simp: scanned_def Cons.prems(2) blocked_scan(3) [OF hdr] Let_def split: if_splits)
  then show ?case
    using Cons.IH [of s1 r1 "u @ b"] run(1-3) by simp
qed

text \<open>
  C26: A header whose announced packet length wraps around to 0 (payload length 2^32 - 16)
  blocks the connection for ever: the receiver waits, without consuming the header, for a packet of no
  bytes. In this read and in all that follow, however many and whatever they bring, nothing is
  logged or forwarded, the state stays \<open>xtr_idle\<close>, and all bytes pile up behind the header.
\<close>

theorem zero_length_packet_blocks:
  assumes ok: "rcvr_ok D S" and inv: "xte_inv S C w x"
    and "rstate r = xtr_lost" and "bytes_remaining_in_packet r < 2 ^ 32"
    and junk: "0x24 \<notin> set junk"
    and hdr: "length hdr = xio_header_size" "xhgValidateHeader (hdr_of_bytes hdr) 0"
  shows "\<exists>s' r'. xtr_reads D S C F c ((junk @ hdr @ rest) # later) \<lparr>ibuf = [], cp = 0\<rparr> r x
      = Some (Inr (s', r', x))
    \<and> rstate r' = xtr_idle \<and> logged r' = logged r
    \<and> drop (cp s') (ibuf s') = hdr @ rest @ concat later"
proof -
  note ann = blocked_scan(1,2) [OF hdr, where u = rest]
  have scan: "xtr_scan xtr_lost (bytes_remaining_in_packet r) (junk @ hdr @ rest)
      = ([], xtr_idle, 0, hdr @ rest)"
    using xtr_scan_sync [OF junk] acceptable_starts [OF ann(2)] hdr(1) ann(1,2)
    by (simp add: xtr_scan_idle(3))
  obtain s1 r1 x1 where run:
    "xtr_protocol_input D S C F c \<lparr>ibuf = junk @ hdr @ rest, cp = 0\<rparr> r x = Some (Inr (s1, r1, x1))"
    "cp s1 \<le> nc s1" "bytes_remaining_in_packet r1 < 2 ^ 32"
    "scanned S C c r (junk @ hdr @ rest) x s1 r1 x1"
    using xtr_run [OF ok _ inv assms(4), of "\<lparr>ibuf = junk @ hdr @ rest, cp = 0\<rparr>" F c] by auto
  have "x1 = x" "logged r1 = logged r" "rstate r1 = xtr_idle" "drop (cp s1) (ibuf s1) = hdr @ rest"
    using run(4) by (auto simp: scanned_def assms(3) scan Let_def split: if_splits)
  then show ?thesis
    using blocked_reads [OF ok inv hdr run(2) _ run(3), of rest F c later] run(1) by simp
qed

lemma xhgFillHeader_any:
  assumes "wf_hdr h" "wf_hdr h'"
  shows "xhgFillHeader h pid src fl pl bc = xhgFillHeader h' pid src fl pl bc"
proof -
  have "xhgSetValue32 a v = xhgSetValue32 b v" if "length a = 4" "length b = 4" for a b v
    using that by (auto simp: xhgSetValue32_def length_eq_4_conv)
  then have "xhgSetValue32 (m_aPayloadLength h) pl = xhgSetValue32 (m_aPayloadLength h') pl"
    "xhgSetValue32 (m_aBlockCount h) bc = xhgSetValue32 (m_aBlockCount h') bc"
    using assms by (simp_all add: wf_hdr_def)
  then show ?thesis by (cases h; cases h') (simp add: xhgFillHeader_def Let_def)
qed

text \<open>
  \<open>sendFlag\<close> sends one valid gateway control header of 16 bytes that carries the flag and
  the next block number.
\<close>

lemma sendFlag_sends_valid_header:
  assumes "appends C w" and "flag = xhfCTS \<or> flag = xhfNCTS"
  shows "\<exists>hdr. w (rchan (snd (xtr_sendFlag C flag r))) = w (rchan r) @ hdr_bytes hdr
    \<and> length (hdr_bytes hdr) = 16 \<and> xhgValidateHeader hdr 16
    \<and> m_uPacketID hdr = word_of_nat xhpidGWControl \<and> m_uSource hdr = word_of_nat xhsrcGateway
    \<and> m_uFlags hdr = flag \<and> xhgGetBlockCount hdr = block_count r + 1
    \<and> block_count (snd (xtr_sendFlag C flag r)) = block_count r + 1"
proof -
  define hdr where
    "hdr = fst (xhgFillHeader blank_hdr xhpidGWControl xhsrcGateway flag 0 (block_count r + 1))"
  note f = filled_fields [OF wf_blank_hdr hdr_def]
  have "xhgValidateHeader hdr 16"
    using f assms(2) by (auto simp: xhgValidateHeader_iff enum_defs)
  then show ?thesis
    using f(1,3-7) assms(1)
    by (intro exI [of _ hdr])
      (simp add: xtr_sendFlag_def Let_def hdr_def [symmetric] appends_iwrite xio_header_size_def)
qed

text \<open>
  C27: After a timeout the receiver keeps the timeout flag and drops every other flag:
  \<open>protocol_timeout\<close> masks the flags with \<open>Fl_Timeout\<close> and not with its complement. It sends CTS
  before it resets the connection.
\<close>

theorem timeout_keeps_timeout_flag:
  assumes "appends C w"
  shows "\<exists>r' hdr. xtr_protocol_timeout Fl_Timeout reset C (xtr_ack Fl_Timeout r) = reset r'
    \<and> rflags r' = Fl_Timeout \<and> rTO r' = None
    \<and> w (rchan r') = w (rchan r) @ hdr_bytes hdr \<and> m_uFlags hdr = xhfCTS"
proof -
  have fl: "(a OR b) AND b = b" for a b :: u32 by (rule bit_word_eqI) (auto simp: bit_simps)
  define hdr where
    "hdr = fst (xhgFillHeader blank_hdr xhpidGWControl xhsrcGateway xhfCTS 0 (block_count r + 1))"
  define r' where
    "r' = snd (xtr_sendCTS C (xtr_ack Fl_Timeout r\<lparr>rTO := None, rflags := Fl_Timeout\<rparr>))"
  have "xtr_protocol_timeout Fl_Timeout reset C (xtr_ack Fl_Timeout r) = reset r'"
    by (simp add: xtr_protocol_timeout_def xtr_ack_def Let_def fl r'_def)
  moreover have "rflags r' = Fl_Timeout" "rTO r' = None" "w (rchan r') = w (rchan r) @ hdr_bytes hdr"
    using assms by (simp_all add: r'_def xtr_sendCTS_def xtr_sendFlag_def Let_def xtr_ack_def
        appends_iwrite hdr_def)
  moreover have "m_uFlags hdr = xhfCTS" by (rule filled_fields(5) [OF wf_blank_hdr hdr_def])
  ultimately show ?thesis by blast
qed

section \<open>Witnesses\<close>

text \<open>A fresh receiver and exporter, and an imagery packet with four bytes of payload.\<close>

abbreviation new_rcvr :: "byte list xtr" where
  "new_rcvr \<equiv> xiomas_tcp_rcvr False 0 []"

abbreviation new_export :: "byte list xte" where
  "new_export \<equiv> xiomas_tcp_export None (replicate 270000 0) []"

definition image_packet :: "byte list" where
  "image_packet = [0x24, 0x50, 0x4B, 0x54, 0x81, 3, 0x63, 0, 4, 0, 0, 0, 1, 0, 0, 0, 10, 20, 30, 40]"

lemma image_packet_valid:
  "xhgValidateHeader (hdr_of_bytes image_packet) (word_of_nat (length image_packet))"
  "xio_header_size \<le> length image_packet" "length image_packet \<le> MAX_SPKT_LENGTH + 1000"
  "length image_packet = 20"
  by code_simp+

lemma rcvr_ok_plain: "rcvr_ok plain_dasio plain_serio"
  by (simp add: rcvr_ok_def)

lemma new_export_inv: "xte_inv plain_serio open_chan (\<lambda>out. out) new_export"
  by (rule xte_init_inv) (simp_all add: CIRC_BUFFER_SIZE_def)

lemma new_rcvr_facts:
  "rstate new_rcvr = xtr_lost" "bytes_remaining_in_packet new_rcvr < 2 ^ 32"
  "logged new_rcvr = []" "rchan new_rcvr = []" "block_count new_rcvr = 0"
  by (simp_all add: xiomas_tcp_rcvr_def)

theorem protocol_input_refines_scanner_witness:
  "\<exists>s' r' x'. xtr_protocol_input plain_dasio plain_serio open_chan 4 0
     \<lparr>ibuf = [1, 2, 0x24, 0x50], cp = 0\<rparr> new_rcvr new_export = Some (Inr (s', r', x'))
     \<and> logged r' = [] \<and> drop (cp s') (ibuf s') = [0x24, 0x50]"
proof -
  have scan: "xtr_scan xtr_lost 0 [1, 2, 0x24, 0x50] = ([], xtr_idle, 0, [0x24, 0x50])"
    by code_simp
  show ?thesis
    using protocol_input_refines_scanner [OF rcvr_ok_plain new_export_inv _ new_rcvr_facts(2),
        of "\<lparr>ibuf = [1, 2, 0x24, 0x50], cp = 0\<rparr>" 4 0] scan
    by (auto simp: xiomas_tcp_rcvr_def)
qed

theorem fragmentation_independent_witness:
  "\<exists>s1 r1 x1 s2 r2 y2 s3 r3 z3.
     xtr_protocol_input plain_dasio plain_serio open_chan 4 0
       \<lparr>ibuf = [1, 0x24, 0x50], cp = 0\<rparr> new_rcvr new_export = Some (Inr (s1, r1, x1))
   \<and> xtr_protocol_input plain_dasio plain_serio open_chan 4 0
       (s1\<lparr>ibuf := ibuf s1 @ [0x4B]\<rparr>) r1 new_export = Some (Inr (s2, r2, y2))
   \<and> xtr_protocol_input plain_dasio plain_serio open_chan 4 0
       \<lparr>ibuf = [1, 0x24, 0x50, 0x4B], cp = 0\<rparr> new_rcvr new_export = Some (Inr (s3, r3, z3))
   \<and> logged r2 = logged r3"
proof -
  let ?s = "\<lparr>ibuf = [1, 0x24, 0x50], cp = 0\<rparr>"
  obtain s1 r1 x1 where 1: "xtr_protocol_input plain_dasio plain_serio open_chan 4 0 ?s
      new_rcvr new_export = Some (Inr (s1, r1, x1))" "cp s1 \<le> nc s1"
      "bytes_remaining_in_packet r1 < 2 ^ 32"
    using xtr_run [OF rcvr_ok_plain _ new_export_inv new_rcvr_facts(2), of ?s 4 0] by auto
  obtain s2 r2 y2 where 2: "xtr_protocol_input plain_dasio plain_serio open_chan 4 0
      (s1\<lparr>ibuf := ibuf s1 @ [0x4B]\<rparr>) r1 new_export = Some (Inr (s2, r2, y2))"
    using xtr_run [OF rcvr_ok_plain _ new_export_inv 1(3), of "s1\<lparr>ibuf := ibuf s1 @ [0x4B]\<rparr>" 4 0]
      1(2) by auto
  obtain s3 r3 z3 where 3: "xtr_protocol_input plain_dasio plain_serio open_chan 4 0
      (?s\<lparr>ibuf := ibuf ?s @ [0x4B]\<rparr>) new_rcvr new_export = Some (Inr (s3, r3, z3))"
    using xtr_run [OF rcvr_ok_plain _ new_export_inv new_rcvr_facts(2),
        of "?s\<lparr>ibuf := ibuf ?s @ [0x4B]\<rparr>" 4 0] by auto
  show ?thesis
    using fragmentation_independent [OF rcvr_ok_plain new_export_inv new_export_inv new_export_inv
        _ new_rcvr_facts(2) 1(1) 2 3] 1(1) 2 3
    by fastforce
qed

theorem packet_received_witness:
  "\<exists>s' r' x'. xtr_protocol_input plain_dasio plain_serio open_chan 4 0
     \<lparr>ibuf = [1, 2] @ image_packet @ [7], cp = 0\<rparr> new_rcvr new_export = Some (Inr (s', r', x'))
     \<and> logged r' = [(log_default, image_packet)] \<and> drop (cp s') (ibuf s') = [7]"
proof -
  have "(0x24 :: byte) \<notin> set [1, 2]" by simp
  from packet_received [OF rcvr_ok_plain new_export_inv new_rcvr_facts(1,2) this
      image_packet_valid(1-3) refl, of 4 0 "[7]"]
  show ?thesis by (fastforce simp: image_packet_valid(4) new_rcvr_facts length_Suc_conv)
qed

theorem receiver_stops_after_packet_witness:
  "\<exists>s' r' x'. xtr_reads plain_dasio plain_serio open_chan 4 0
     [image_packet, image_packet] \<lparr>ibuf = [], cp = 0\<rparr> new_rcvr new_export = Some (Inr (s', r', x'))
     \<and> concat (map snd (logged r')) = image_packet \<and> drop (cp s') (ibuf s') = image_packet"
  using receiver_stops_after_packet [OF rcvr_ok_plain new_export_inv new_rcvr_facts(1,2) _
      image_packet_valid(1-3), of "[]" 4 0 "[]" "[image_packet]"]
  by (fastforce simp: new_rcvr_facts)

theorem zero_length_packet_blocks_witness:
  "\<exists>s' r'. xtr_reads plain_dasio plain_serio open_chan 4 0
     [[0x24, 0x50, 0x4B, 0x54, 0x81, 3, 0x7A, 0, 0xF0, 0xFF, 0xFF, 0xFF, 1, 0, 0, 0], image_packet]
     \<lparr>ibuf = [], cp = 0\<rparr> new_rcvr new_export = Some (Inr (s', r', new_export))
     \<and> rstate r' = xtr_idle \<and> logged r' = []"
proof -
  let ?hdr = "[0x24, 0x50, 0x4B, 0x54, 0x81, 3, 0x7A, 0, 0xF0, 0xFF, 0xFF, 0xFF, 1, 0, 0, 0]"
  have "length ?hdr = xio_header_size" "xhgValidateHeader (hdr_of_bytes ?hdr) 0"
    by code_simp+
  from zero_length_packet_blocks [OF rcvr_ok_plain new_export_inv new_rcvr_facts(1,2) _ this,
      of "[]" 4 0 "[]" "[image_packet]"]
  show ?thesis by (force simp: new_rcvr_facts)
qed

theorem timeout_keeps_timeout_flag_witness:
  "\<exists>r' hdr. xtr_protocol_timeout 4 (\<lambda>r. (True, r)) open_chan (xtr_ack 4 new_rcvr) = (True, r')
    \<and> rflags r' = 4 \<and> rchan r' = hdr_bytes hdr \<and> m_uFlags hdr = xhfCTS"
  using timeout_keeps_timeout_flag [OF open_chan_appends, of 4 "\<lambda>r. (True, r)" new_rcvr]
  by (auto simp: new_rcvr_facts)

end
