(* ===== verification/XioUdp.thy ===== *)
theory XioUdp
  imports XioPacket Dasio "HOL-Library.Sublist"
begin

text \<open>
  The UDP side of \<open>xiomas_export.cc\<close>: \<open>xiomas_udp_export\<close> (one packet at a time to
  \<open>tm_ip_export\<close>, the next after an OK), \<open>xiomas_udp_txmtr\<close> (the socket back to the instrument)
  and \<open>xiomas_udp_rcvr\<close> (status packets from the instrument and its flow control).
\<close>

section \<open>\<open>xiomas_udp_export\<close>\<close>

text \<open>
  \<open>packets_dropped\<close> is an \<open>int\<close>: 32 bits, read as a signed number (\<open>sint\<close>). It is only counted up and
  printed; counting past the largest \<open>int\<close>, which C++ leaves undefined, wraps around here. \<open>uchan\<close> is
  the output side of the connection.
\<close>

record 'p xue =
  ack_pending :: bool
  packets_dropped :: "32 word"
  uchan :: 'p

definition xiomas_udp_export :: "'p \<Rightarrow> 'p xue" where
  "xiomas_udp_export out = \<lparr>ack_pending = False, packets_dropped = 0, uchan = out\<rparr>"

definition OK_str :: "byte list" where
  "OK_str = [0x4F, 0x4B, 0x0A]"

partial_function (option) xue_app_input :: "dasio \<Rightarrow> inbuf \<Rightarrow> 'p xue \<Rightarrow> (inbuf \<times> 'p xue) option" where
  "xue_app_input D s x =
     (if \<not> cp s < nc s then Some (consume_op D (nc s) s, x)
      else case not_str_op D OK_str s of
        (no_ok, s) \<Rightarrow>
          if no_ok
          then
            let s = (if cp s \<ge> nc s then report_err_op D s else s);
                s = consume_op D (nc s) s
            in Some (s, x\<lparr>ack_pending := False\<rparr>)
          else xue_app_input D s (x\<lparr>ack_pending := False\<rparr>))"

text \<open>
  \<open>forward_packet\<close>; the second part of the \<open>writev\<close> has the 16-bit \<open>hdr.length\<close> for its
  length.
\<close>

definition xue_forward_packet ::
  "serio \<Rightarrow> 'p chan_ops \<Rightarrow> byte list \<Rightarrow> nat \<Rightarrow> 'p xue \<Rightarrow> 'p xue" where
  "xue_forward_packet S C bfr n_bytes x =
     (if ack_pending x \<or> \<not> obuf_empty_op C (uchan x)
      then x\<lparr>packets_dropped := packets_dropped x + 1\<rparr>
      else
        let x = x\<lparr>ack_pending := True\<rparr>;
            len = (word_of_nat n_bytes :: u16);
            payload = take (unat len) bfr;
            hdr = fill_serio_hdr S (pkt_type_XIO S) len payload
        in x\<lparr>uchan := snd (iwritev_op C [hdr_image S hdr, payload] (uchan x))\<rparr>)"

section \<open>\<open>xiomas_udp_txmtr\<close>\<close>

text \<open>
  The socket states the code names, and any other; \<open>connect()\<close> is a function of the base class.
\<close>

datatype sock_state = Socket_disconnected | Socket_connected | Socket_other

record 'o xutx =
  socket_state :: sock_state
  tchan :: 'o

type_synonym 'o connector = "'o xutx \<Rightarrow> 'o xutx"

definition xutx_CTS :: "'o connector \<Rightarrow> 'o chan_ops \<Rightarrow> 'o xutx \<Rightarrow> bool \<times> 'o xutx" where
  "xutx_CTS connect C t =
     (if socket_state t = Socket_disconnected then (False, connect t)
      else if socket_state t \<noteq> Socket_connected then (False, t)
      else (obuf_empty_op C (tchan t), t))"

definition xutx_send :: "'o connector \<Rightarrow> 'o chan_ops \<Rightarrow> byte list \<Rightarrow> 'o xutx \<Rightarrow> bool \<times> 'o xutx" where
  "xutx_send connect C p t =
     (let (clear, t) = xutx_CTS connect C t
      in if clear then (let (err, out) = iwrite_op C p (tchan t) in (err, t\<lparr>tchan := out\<rparr>))
         else (False, t))"

section \<open>\<open>xiomas_udp_rcvr\<close>\<close>

text \<open>
  \<open>xutr\<close> is the transmitter, a pointer that may be null; \<open>ulogged\<close> records the calls of
  \<open>log_packet\<close>. The exporter is passed alongside.
\<close>

record 'o xur =
  xutr :: "'o xutx option"
  ublock_count :: u32
  pkts_recd :: byte
  connect_requested :: bool
  ulogged :: "byte list list"

definition xiomas_udp_rcvr :: "'o xutx option \<Rightarrow> 'o xur" where
  "xiomas_udp_rcvr t = \<lparr>xutr = t, ublock_count = 0, pkts_recd = 0, connect_requested = False,
     ulogged = []\<rparr>"

definition xur_CTS :: "'o connector \<Rightarrow> 'o chan_ops \<Rightarrow> 'o xur \<Rightarrow> bool \<times> 'o xur" where
  "xur_CTS connect C r =
     (case xutr r of
        None \<Rightarrow> (False, r)
      | Some t \<Rightarrow> let (clear, t) = xutx_CTS connect C t in (clear, r\<lparr>xutr := Some t\<rparr>))"

definition xur_sendFlag ::
  "'o connector \<Rightarrow> 'o chan_ops \<Rightarrow> byte \<Rightarrow> 'o xur \<Rightarrow> fault + 'o xur" where
  "xur_sendFlag connect C flag r =
     (let r = r\<lparr>ublock_count := ublock_count r + 1\<rparr>;
          hdr = fst (xhgFillHeader blank_hdr xhpidGWControl xhsrcGateway flag 0 (ublock_count r))
      in case xutr r of
           None \<Rightarrow> Inl Null_pointer
         | Some t \<Rightarrow> Inr (r\<lparr>xutr := Some (snd (xutx_send connect C (hdr_bytes hdr) t))\<rparr>))"

definition xur_sendCTS :: "'o connector \<Rightarrow> 'o chan_ops \<Rightarrow> 'o xur \<Rightarrow> fault + 'o xur" where
  "xur_sendCTS connect C r = xur_sendFlag connect C xhfCTS r"

definition xur_sendNCTS :: "'o connector \<Rightarrow> 'o chan_ops \<Rightarrow> 'o xur \<Rightarrow> fault + 'o xur" where
  "xur_sendNCTS connect C r = xur_sendFlag connect C xhfNCTS r"

text \<open>The answer to RTS in \<open>protocol_input\<close>, and the \<open>switch\<close> on the packet ID.\<close>

definition xur_request :: "'o connector \<Rightarrow> 'o chan_ops \<Rightarrow> xio_header \<Rightarrow> 'o xur \<Rightarrow> fault + 'o xur" where
  "xur_request connect C hdr r =
     (if m_uFlags hdr AND xhfRTS \<noteq> 0
      then
        let (clear, r) = xur_CTS connect C r
        in if clear
           then if pkts_recd r > 0 then Inr (r\<lparr>pkts_recd := pkts_recd r - 1\<rparr>)
                else xur_sendCTS connect C r
           else Inr r
      else Inr r)"

definition xur_dispatch ::
  "serio \<Rightarrow> 'p chan_ops \<Rightarrow> 'o connector \<Rightarrow> 'o chan_ops \<Rightarrow> byte list \<Rightarrow> xio_header \<Rightarrow>
   'o xur \<times> 'p xue \<Rightarrow> fault + 'o xur \<times> 'p xue" where
  "xur_dispatch S P connect C bs hdr = (\<lambda>(r, x).
     if unat (m_uPacketID hdr) = xhpidGWControl then Inr (r, x)
     else if unat (m_uPacketID hdr) = xhpidXioStatus
     then
       let r = r\<lparr>pkts_recd := pkts_recd r + 1\<rparr>
       in bind_sum (if pkts_recd r > 10 then xur_sendNCTS connect C r else Inr r) (\<lambda>r.
            Inr (r\<lparr>ulogged := ulogged r @ [bs]\<rparr>, xue_forward_packet S P bs (length bs) x))
     else Inr (r, x))"

definition xur_protocol_input ::
  "dasio \<Rightarrow> serio \<Rightarrow> 'p chan_ops \<Rightarrow> 'o connector \<Rightarrow> 'o chan_ops \<Rightarrow> inbuf \<Rightarrow> 'o xur \<Rightarrow> 'p xue \<Rightarrow>
   fault + inbuf \<times> 'o xur \<times> 'p xue" where
  "xur_protocol_input D S P connect C s r x =
     (let r = (if \<not> connect_requested r
               then (snd (xur_CTS connect C r))\<lparr>connect_requested := True\<rparr> else r)
      in if nc s < xio_header_size
         then let s = report_err_op D s in Inr (consume_op D (nc s) s, r, x)
         else
           let hdr = hdr_of_bytes (ibuf s)
           in if \<not> xhgValidateHeader hdr (word_of_nat (nc s))
              then let s = report_err_op D s in Inr (consume_op D (nc s) s, r, x)
              else if unat (m_uSource hdr) \<noteq> xhsrcScanner
              then let s = report_err_op D s in Inr (consume_op D (nc s) s, r, x)
              else
                bind_sum (xur_request connect C hdr r) (\<lambda>r.
                  bind_sum (xur_dispatch S P connect C (ibuf s) hdr (r, x)) (\<lambda>(r, x).
                    Inr (report_ok_op D (nc s) s, r, x))))"

section \<open>Exporter: one packet at a time\<close>

lemma match_len_le: "match_len xs ys \<le> length ys"
  by (induction xs ys rule: match_len.induct) auto

lemma xue_app_input_returns:
  assumes "consumes D" "reports_only D" "matches_strings D"
  shows "cp s \<le> nc s \<Longrightarrow> \<exists>s'. xue_app_input D s x
    = Some (s', x\<lparr>ack_pending := ack_pending x \<and> \<not> cp s < nc s\<rparr>) \<and> ibuf s' = []"
proof (induction "nc s - cp s" arbitrary: s x rule: less_induct)
  case less
  have cons: "consume_op D n t = consumed n t" if "n \<le> nc t" for n t
    using assms(1) that by (simp add: consumes_def)
  show ?case
  proof (cases "cp s < nc s")
    case False
    then show ?thesis
      by (subst xue_app_input.simps) (simp add: cons consumed_def)
  next
    case True
    define m where "m = match_len OK_str (drop (cp s) (ibuf s))"
    have ns: "not_str_op D OK_str s = (m \<noteq> 3, s\<lparr>cp := cp s + m\<rparr>)"
      using assms(3) by (simp add: matches_strings_def m_def OK_str_def numeral_3_eq_3)
    have le: "cp s + m \<le> nc s"
      using match_len_le [of OK_str "drop (cp s) (ibuf s)"] True by (simp add: m_def)
    show ?thesis
    proof (cases "m = 3")
      case True
      then have "xue_app_input D s x = xue_app_input D (s\<lparr>cp := cp s + 3\<rparr>) (x\<lparr>ack_pending := False\<rparr>)"
        using ns \<open>cp s < nc s\<close> by (subst xue_app_input.simps) simp
      with less.hyps [of "s\<lparr>cp := cp s + 3\<rparr>" "x\<lparr>ack_pending := False\<rparr>"] le True \<open>cp s < nc s\<close>
      show ?thesis by simp
    next
      case False
      then show ?thesis
        using ns True assms(2)
        by (subst xue_app_input.simps)
          (simp add: cons consumed_def Let_def reports_only_def)
    qed
  qed
qed

text \<open>
  What happens to the exporter: a packet to forward, bytes from \<open>tm_ip_export\<close>, and progress of
  the output side, which moves bytes out but writes none.
\<close>

datatype 'p xue_event = Forward "byte list" | Reply "byte list" | Progress 'p

definition xue_event ::
  "dasio \<Rightarrow> serio \<Rightarrow> 'p chan_ops \<Rightarrow> 'p xue_event \<Rightarrow> 'p xue \<Rightarrow> 'p xue option" where
  "xue_event D S C e x =
     (case e of
        Forward bs \<Rightarrow> Some (xue_forward_packet S C bs (length bs) x)
      | Reply bs \<Rightarrow> map_option snd (xue_app_input D \<lparr>ibuf = bs, cp = 0\<rparr> x)
      | Progress out \<Rightarrow> Some (x\<lparr>uchan := out\<rparr>))"

fun xue_events ::
  "dasio \<Rightarrow> serio \<Rightarrow> 'p chan_ops \<Rightarrow> 'p xue_event list \<Rightarrow> 'p xue \<Rightarrow> 'p xue option" where
  "xue_events D S C [] x = Some x"
| "xue_events D S C (e # es) x = Option.bind (xue_event D S C e x) (xue_events D S C es)"

text \<open>The bytes of a packet on the link.\<close>

definition xio_frame :: "serio \<Rightarrow> byte list \<Rightarrow> byte list" where
  "xio_frame S bs =
     hdr_image S (fill_serio_hdr S (pkt_type_XIO S) (word_of_nat (length bs)) bs) @ bs"

fun forwarded :: "'p xue_event list \<Rightarrow> byte list list" where
  "forwarded [] = []"
| "forwarded (Forward bs # es) = bs # forwarded es"
| "forwarded (_ # es) = forwarded es"

fun replies :: "'p xue_event list \<Rightarrow> nat" where
  "replies [] = 0"
| "replies (Reply bs # es) = (if bs = [] then 0 else 1) + replies es"
| "replies (_ # es) = replies es"

text \<open>
  Whether the output buffer is empty before each event, and the specification: a stop-and-wait
  sender, which waits from a packet sent until a reply that is not empty, and sends every packet
  it is given when it does not wait and the output buffer is empty.
\<close>

fun frees ::
  "dasio \<Rightarrow> serio \<Rightarrow> 'p chan_ops \<Rightarrow> 'p xue_event list \<Rightarrow> 'p xue \<Rightarrow> bool list" where
  "frees D S C [] x = []"
| "frees D S C (e # es) x = obuf_empty_op C (uchan x)
     # (case xue_event D S C e x of None \<Rightarrow> [] | Some x \<Rightarrow> frees D S C es x)"

fun stop_and_wait :: "bool \<Rightarrow> ('p xue_event \<times> bool) list \<Rightarrow> byte list list" where
  "stop_and_wait waiting [] = []"
| "stop_and_wait waiting ((Forward bs, free) # es) =
     (if \<not> waiting \<and> free then bs # stop_and_wait True es else stop_and_wait waiting es)"
| "stop_and_wait waiting ((Reply bs, free) # es) = stop_and_wait (waiting \<and> bs = []) es"
| "stop_and_wait waiting ((Progress out, free) # es) = stop_and_wait waiting es"

text \<open>Progress keeps what was written; packets are shorter than 64k (the buffers are).\<close>

fun env_ok :: "('p \<Rightarrow> byte list) \<Rightarrow> dasio \<Rightarrow> serio \<Rightarrow> 'p chan_ops \<Rightarrow> 'p xue_event list \<Rightarrow> 'p xue \<Rightarrow> bool" where
  "env_ok w D S C [] x = True"
| "env_ok w D S C (e # es) x =
     ((case e of Forward bs \<Rightarrow> length bs < 2 ^ 16 | Reply bs \<Rightarrow> True
       | Progress out \<Rightarrow> w out = w (uchan x))
      \<and> (\<forall>x'. xue_event D S C e x = Some x' \<longrightarrow> env_ok w D S C es x'))"

lemma forward_packet_cases:
  assumes "appends C w" and "length bs < 2 ^ 16" and "x' = xue_forward_packet S C bs (length bs) x"
  shows "if \<not> ack_pending x \<and> obuf_empty_op C (uchan x)
    then ack_pending x' \<and> packets_dropped x' = packets_dropped x
      \<and> w (uchan x') = w (uchan x) @ xio_frame S bs
    else ack_pending x' = ack_pending x \<and> packets_dropped x' = packets_dropped x + 1
      \<and> w (uchan x') = w (uchan x)"
proof -
  have "unat (word_of_nat (length bs) :: u16) = length bs"
    using assms(2) by (simp add: unsigned_of_nat take_bit_nat_eq_self)
  then show ?thesis
    using assms(1,3)
    by (simp add: xue_forward_packet_def Let_def xio_frame_def appends_iwritev)
qed

lemma stop_and_wait_sends:
  "subseq (stop_and_wait waiting efs) (forwarded (map fst efs))
   \<and> length (stop_and_wait waiting efs) + of_bool waiting \<le> 1 + replies (map fst efs)"
proof (induction waiting efs rule: stop_and_wait.induct)
  case (3 waiting bs free es)
  then show ?case by (cases waiting) (auto split: if_splits)
qed auto

lemma length_frees:
  "xue_events D S C es x = Some x' \<Longrightarrow> length (frees D S C es x) = length es"
  by (induction es arbitrary: x) (auto split: option.splits)

lemma xue_events_stop_and_wait:
  assumes D: "consumes D" "reports_only D" "matches_strings D" and app: "appends C w"
  shows "env_ok w D S C es x \<Longrightarrow> sent = stop_and_wait (ack_pending x) (zip es (frees D S C es x)) \<Longrightarrow>
    \<exists>x'. xue_events D S C es x = Some x'
    \<and> w (uchan x') = w (uchan x) @ concat (map (xio_frame S) sent)
    \<and> packets_dropped x' + word_of_nat (length sent)
        = packets_dropped x + word_of_nat (length (forwarded es))"
proof (induction es arbitrary: x sent)
  case Nil
  then show ?case by simp
next
  case (Cons e es)
  obtain x1 where x1: "xue_event D S C e x = Some x1" "env_ok w D S C es x1"
    using Cons.prems(1) xue_app_input_returns [OF D, of "\<lparr>ibuf = bs, cp = 0\<rparr>" x for bs]
    by (cases e) (fastforce simp: xue_event_def)+
  let ?sent = "stop_and_wait (ack_pending x1) (zip es (frees D S C es x1))"
  obtain x' where x': "xue_events D S C es x1 = Some x'"
    "w (uchan x') = w (uchan x1) @ concat (map (xio_frame S) ?sent)"
    "packets_dropped x' + word_of_nat (length ?sent)
       = packets_dropped x1 + word_of_nat (length (forwarded es))"
    using Cons.IH [OF x1(2) refl] by blast
  have run: "xue_events D S C (e # es) x = Some x'" using x1(1) x'(1) by simp
  show ?case
  proof (cases e)
    case (Forward bs)
    from x1(1) Forward have eq: "x1 = xue_forward_packet S C bs (length bs) x"
      by (simp add: xue_event_def)
    have "length bs < 2 ^ 16" using Cons.prems(1) Forward by simp
    note c = forward_packet_cases [OF app this eq]
    show ?thesis
    proof (cases "\<not> ack_pending x \<and> obuf_empty_op C (uchan x)")
      case True
      with c have "ack_pending x1" "packets_dropped x1 = packets_dropped x"
        "w (uchan x1) = w (uchan x) @ xio_frame S bs" by simp_all
      with True show ?thesis using run x' x1(1) Forward Cons.prems(2) by (simp add: algebra_simps)
    next
      case False
      with c have "ack_pending x1 = ack_pending x" "packets_dropped x1 = packets_dropped x + 1"
        "w (uchan x1) = w (uchan x)" by simp_all
      moreover from this(1) have "sent = ?sent"
        using False x1(1) Forward Cons.prems(2) by (cases "ack_pending x") simp_all
      ultimately show ?thesis using run x' Forward by (simp add: algebra_simps)
    qed
  next
    case (Reply bs)
    then have "x1 = x\<lparr>ack_pending := ack_pending x \<and> bs = []\<rparr>"
      using x1(1) xue_app_input_returns [OF D, of "\<lparr>ibuf = bs, cp = 0\<rparr>" x]
      by (auto simp: xue_event_def)
    then show ?thesis using run x' x1(1) Reply Cons.prems(2) by simp
  next
    case (Progress out)
    then have "x1 = x\<lparr>uchan := out\<rparr>" "w out = w (uchan x)"
      using x1(1) Cons.prems(1) by (simp_all add: xue_event_def)
    then show ?thesis using run x' x1(1) Progress Cons.prems(2) by simp
  qed
qed

section \<open>Receiver\<close>

definition from_scanner :: "byte list \<Rightarrow> bool" where
  "from_scanner bs \<longleftrightarrow> xio_header_size \<le> length bs
     \<and> xhgValidateHeader (hdr_of_bytes bs) (word_of_nat (length bs))
     \<and> unat (m_uSource (hdr_of_bytes bs)) = xhsrcScanner"

definition has_id :: "nat \<Rightarrow> byte list \<Rightarrow> bool" where
  "has_id i bs \<longleftrightarrow> unat (m_uPacketID (hdr_of_bytes bs)) = i"

definition has_RTS :: "byte list \<Rightarrow> bool" where
  "has_RTS bs \<longleftrightarrow> m_uFlags (hdr_of_bytes bs) AND xhfRTS \<noteq> 0"

text \<open>The control header with a flag and a block number, as \<open>sendFlag\<close> builds it.\<close>

definition flag_hdr :: "byte \<Rightarrow> u32 \<Rightarrow> byte list" where
  "flag_hdr flag n = hdr_bytes (fst (xhgFillHeader blank_hdr xhpidGWControl xhsrcGateway flag 0 n))"

lemma xur_CTS_keeps [simp]:
  "pkts_recd (snd (xur_CTS connect C r)) = pkts_recd r"
  "ublock_count (snd (xur_CTS connect C r)) = ublock_count r"
  "ulogged (snd (xur_CTS connect C r)) = ulogged r"
  "connect_requested (snd (xur_CTS connect C r)) = connect_requested r"
  "(xutr (snd (xur_CTS connect C r)) = None) = (xutr r = None)"
  by (simp_all add: xur_CTS_def split: option.splits prod.splits)

lemma xur_CTS_None: "xutr r = None \<Longrightarrow> xur_CTS connect C r = (False, r)"
  by (simp add: xur_CTS_def)

lemma xur_sendFlag_Some:
  "xutr r \<noteq> None \<Longrightarrow> \<exists>r'. xur_sendFlag connect C flag r = Inr r' \<and> pkts_recd r' = pkts_recd r
     \<and> ulogged r' = ulogged r \<and> xutr r' \<noteq> None"
  by (auto simp: xur_sendFlag_def Let_def)

lemma xur_request_Some:
  assumes "xutr r \<noteq> None"
  shows "\<exists>r'. xur_request connect C hdr r = Inr r' \<and> ulogged r' = ulogged r \<and> xutr r' \<noteq> None"
proof (cases "xur_CTS connect C r")
  case (Pair clear r1)
  have "xutr r1 \<noteq> None" "ulogged r1 = ulogged r"
    using xur_CTS_keeps [of connect C r] assms Pair by auto
  then show ?thesis
    using assms xur_sendFlag_Some [of r1 connect C xhfCTS] Pair
    by (auto simp: xur_request_def xur_sendCTS_def)
qed

lemma xur_dispatch_Some:
  assumes "xutr r \<noteq> None"
  shows "\<exists>r'. xur_dispatch S P connect C bs (hdr_of_bytes bs) (r, x) = Inr (r',
      if has_id xhpidXioStatus bs then xue_forward_packet S P bs (length bs) x else x)
    \<and> ulogged r' = ulogged r @ (if has_id xhpidXioStatus bs then [bs] else []) \<and> xutr r' \<noteq> None"
  using assms xur_sendFlag_Some [of "r\<lparr>pkts_recd := pkts_recd r + 1\<rparr>" connect C xhfNCTS]
  by (auto simp: xur_dispatch_def has_id_def xur_sendNCTS_def Let_def enum_defs)

text \<open>A connected transmitter whose output is always clear.\<close>

definition clear_link :: "'o chan_ops \<Rightarrow> 'o xur \<Rightarrow> bool" where
  "clear_link C r \<longleftrightarrow> (\<exists>t. xutr r = Some t \<and> socket_state t = Socket_connected)
     \<and> (\<forall>out. obuf_empty_op C out)"

definition out_of :: "'o xur \<Rightarrow> 'o" where
  "out_of r = tchan (the (xutr r))"

lemma link_updates [simp]:
  "clear_link C (r\<lparr>pkts_recd := p\<rparr>) = clear_link C r" "out_of (r\<lparr>pkts_recd := p\<rparr>) = out_of r"
  "clear_link C (r\<lparr>ulogged := l\<rparr>) = clear_link C r" "out_of (r\<lparr>ulogged := l\<rparr>) = out_of r"
  "clear_link C (r\<lparr>connect_requested := q\<rparr>) = clear_link C r"
  "out_of (r\<lparr>connect_requested := q\<rparr>) = out_of r"
  by (simp_all add: clear_link_def out_of_def)

lemma clear_CTS: "clear_link C r \<Longrightarrow> xur_CTS connect C r = (True, r)"
  by (auto simp: clear_link_def xur_CTS_def xutx_CTS_def)

lemma clear_sendFlag:
  assumes "clear_link C r" and "appends C w"
  shows "\<exists>r'. xur_sendFlag connect C flag r = Inr r' \<and> clear_link C r'
    \<and> w (out_of r') = w (out_of r) @ flag_hdr flag (ublock_count r + 1)
    \<and> ublock_count r' = ublock_count r + 1 \<and> pkts_recd r' = pkts_recd r"
  using assms
  by (auto simp: clear_link_def xur_sendFlag_def xutx_send_def xutx_CTS_def Let_def out_of_def
      flag_hdr_def appends_iwrite split: prod.splits)
   (metis appends_iwrite snd_conv)+

fun xur_datagrams ::
  "dasio \<Rightarrow> serio \<Rightarrow> 'p chan_ops \<Rightarrow> 'o connector \<Rightarrow> 'o chan_ops \<Rightarrow> byte list list \<Rightarrow> 'o xur \<Rightarrow> 'p xue \<Rightarrow>
   fault + 'o xur \<times> 'p xue" where
  "xur_datagrams D S P connect C [] r x = Inr (r, x)"
| "xur_datagrams D S P connect C (b # bs) r x =
     (case xur_protocol_input D S P connect C \<lparr>ibuf = b, cp = 0\<rparr> r x of
        Inl e \<Rightarrow> Inl e | Inr (s, r, x) \<Rightarrow> xur_datagrams D S P connect C bs r x)"

lemma xur_datagrams_append:
  "xur_datagrams D S P connect C (as @ bs) r x =
     (case xur_datagrams D S P connect C as r x of
        Inl e \<Rightarrow> Inl e | Inr (r, x) \<Rightarrow> xur_datagrams D S P connect C bs r x)"
  by (induction as arbitrary: r x) (auto split: sum.splits)

lemma clear_connect:
  assumes "clear_link C r"
  shows "(if \<not> connect_requested r then (snd (xur_CTS connect C r))\<lparr>connect_requested := True\<rparr> else r)
    = r\<lparr>connect_requested := True\<rparr>"
  by (simp add: clear_CTS [OF assms])

lemma scanner_step:
  assumes "clear_link C r" "from_scanner b"
  shows "xur_protocol_input D S P connect C \<lparr>ibuf = b, cp = 0\<rparr> r x
    = bind_sum (xur_request connect C (hdr_of_bytes b) (r\<lparr>connect_requested := True\<rparr>)) (\<lambda>r.
        bind_sum (xur_dispatch S P connect C b (hdr_of_bytes b) (r, x)) (\<lambda>(r, x).
          Inr (report_ok_op D (length b) \<lparr>ibuf = b, cp = 0\<rparr>, r, x)))"
  using assms(2)
  by (simp add: xur_protocol_input_def Let_def clear_connect [OF assms(1)] from_scanner_def)

lemma status_step:
  assumes "clear_link C r" "appends C w" "from_scanner b" "has_id xhpidXioStatus b" "\<not> has_RTS b"
  shows "\<exists>s' r'. xur_protocol_input D S P connect C \<lparr>ibuf = b, cp = 0\<rparr> r x
      = Inr (s', r', xue_forward_packet S P b (length b) x)
    \<and> clear_link C r' \<and> pkts_recd r' = pkts_recd r + 1
    \<and> (if pkts_recd r + 1 > 10
       then ublock_count r' = ublock_count r + 1
         \<and> w (out_of r') = w (out_of r) @ flag_hdr xhfNCTS (ublock_count r + 1)
       else ublock_count r' = ublock_count r \<and> w (out_of r') = w (out_of r))"
proof -
  define r1 where "r1 = r\<lparr>connect_requested := True, pkts_recd := pkts_recd r + 1\<rparr>"
  have cl: "clear_link C r1" using assms(1) by (simp add: r1_def)
  obtain r2 where r2: "xur_sendFlag connect C xhfNCTS r1 = Inr r2" "clear_link C r2"
    "w (out_of r2) = w (out_of r1) @ flag_hdr xhfNCTS (ublock_count r1 + 1)"
    "ublock_count r2 = ublock_count r1 + 1" "pkts_recd r2 = pkts_recd r1"
    using clear_sendFlag [OF cl assms(2)] by blast
  have "xhpidXioStatus \<noteq> xhpidGWControl" by (simp add: enum_defs)
  then show ?thesis
    using assms(1,4,5) r2
    by (cases "pkts_recd r + 1 > 10")
      (simp_all add: scanner_step [OF assms(1,3)] xur_request_def has_RTS_def has_id_def
        xur_dispatch_def xur_sendNCTS_def r1_def)
qed

lemma request_step:
  assumes "clear_link C r" "appends C w" "from_scanner b" "has_id xhpidGWControl b" "has_RTS b"
  shows "\<exists>s' r'. xur_protocol_input D S P connect C \<lparr>ibuf = b, cp = 0\<rparr> r x = Inr (s', r', x)
    \<and> clear_link C r' 
    \<and> (if pkts_recd r > 0
       then pkts_recd r' = pkts_recd r - 1 \<and> ublock_count r' = ublock_count r
         \<and> w (out_of r') = w (out_of r)
       else pkts_recd r' = 0 \<and> ublock_count r' = ublock_count r + 1
         \<and> w (out_of r') = w (out_of r) @ flag_hdr xhfCTS (ublock_count r + 1))"
proof -
  define r1 where "r1 = r\<lparr>connect_requested := True\<rparr>"
  have cl: "clear_link C r1" using assms(1) by (simp add: r1_def)
  obtain r2 where r2: "xur_sendFlag connect C xhfCTS r1 = Inr r2" "clear_link C r2"
    "w (out_of r2) = w (out_of r1) @ flag_hdr xhfCTS (ublock_count r1 + 1)"
    "ublock_count r2 = ublock_count r1 + 1" "pkts_recd r2 = pkts_recd r1"
    using clear_sendFlag [OF cl assms(2)] by blast
  show ?thesis
    using assms(1,4,5) r2 clear_CTS [OF cl, of connect]
    by (auto simp: scanner_step [OF assms(1,3)] xur_request_def has_RTS_def has_id_def
        xur_dispatch_def xur_sendCTS_def r1_def word_gt_0)
qed

text \<open>Counting: how many of the first \<open>k\<close> status packets are answered with NCTS.\<close>

definition ncts :: "nat \<Rightarrow> nat" where
  "ncts k = length (filter (\<lambda>i. i mod 256 > 10) [1..<k + 1])"

lemma ncts_Suc: "ncts (Suc k) = ncts k + (if Suc k mod 256 > 10 then 1 else 0)"
  by (simp add: ncts_def)

lemma status_run:
  assumes app: "appends C w"
    and ss: "\<forall>b \<in> set ss. from_scanner b \<and> has_id xhpidXioStatus b \<and> \<not> has_RTS b"
    and r: "clear_link C r" "pkts_recd r = 0" "ublock_count r = 0"
  shows "\<exists>r' x'. xur_datagrams D S P connect C ss r x = Inr (r', x') \<and> clear_link C r'
    \<and> pkts_recd r' = word_of_nat (length ss) \<and> ublock_count r' = word_of_nat (ncts (length ss))
    \<and> w (out_of r') = w (out_of r)
        @ concat (map (\<lambda>i. flag_hdr xhfNCTS (word_of_nat i)) [1..<ncts (length ss) + 1])"
  using ss
proof (induction ss rule: rev_induct)
  case Nil
  then show ?case using r by (simp add: ncts_def)
next
  case (snoc b ss)
  let ?k = "length ss"
  obtain r1 x1 where r1: "xur_datagrams D S P connect C ss r x = Inr (r1, x1)" "clear_link C r1"
    "pkts_recd r1 = word_of_nat ?k" "ublock_count r1 = word_of_nat (ncts ?k)"
    "w (out_of r1) = w (out_of r)
        @ concat (map (\<lambda>i. flag_hdr xhfNCTS (word_of_nat i)) [1..<ncts ?k + 1])"
    using snoc by auto
  have b: "from_scanner b" "has_id xhpidXioStatus b" "\<not> has_RTS b"
    using snoc.prems by simp_all
  obtain s' r' where r': "xur_protocol_input D S P connect C \<lparr>ibuf = b, cp = 0\<rparr> r1 x1
      = Inr (s', r', xue_forward_packet S P b (length b) x1)" "clear_link C r'"
    "pkts_recd r' = pkts_recd r1 + 1"
    "if pkts_recd r1 + 1 > 10
     then ublock_count r' = ublock_count r1 + 1
       \<and> w (out_of r') = w (out_of r1) @ flag_hdr xhfNCTS (ublock_count r1 + 1)
     else ublock_count r' = ublock_count r1 \<and> w (out_of r') = w (out_of r1)"
    using status_step [OF r1(2) app b] by blast
  have cnt: "pkts_recd r1 + 1 = word_of_nat (Suc ?k)" by (simp add: r1(3))
  have big: "pkts_recd r1 + 1 > 10 \<longleftrightarrow> Suc ?k mod 256 > 10"
    unfolding cnt by (simp only: word_less_nat_alt unsigned_of_nat) (simp add: take_bit_eq_mod)
  have "ublock_count r1 + 1 = word_of_nat (Suc (ncts ?k))" by (simp add: r1(4))
  then show ?case
    using r1(1,3,4,5) r'(1,2,3) r'(4) [unfolded big]
    by (cases "Suc ?k mod 256 > 10") (simp_all add: xur_datagrams_append ncts_Suc ac_simps)
qed

lemma request_run:
  assumes app: "appends C w"
    and qs: "\<forall>b \<in> set qs. from_scanner b \<and> has_id xhpidGWControl b \<and> has_RTS b"
    and r: "clear_link C r" "p = unat (pkts_recd r)" "ublock_count r = word_of_nat n"
  shows "\<exists>r'. xur_datagrams D S P connect C qs r x = Inr (r', x) \<and> clear_link C r'
    \<and> pkts_recd r' = word_of_nat (p - length qs)
    \<and> w (out_of r') = w (out_of r)
        @ concat (map (\<lambda>i. flag_hdr xhfCTS (word_of_nat i)) [n + 1..<n + 1 + (length qs - p)])"
  using qs r
proof (induction qs arbitrary: r p n)
  case Nil
  then show ?case by simp
next
  case (Cons b qs)
  have b: "from_scanner b" "has_id xhpidGWControl b" "has_RTS b"
    using Cons.prems by simp_all
  obtain s' r1 where r1: "xur_protocol_input D S P connect C \<lparr>ibuf = b, cp = 0\<rparr> r x = Inr (s', r1, x)"
    "clear_link C r1"
    "if pkts_recd r > 0
     then pkts_recd r1 = pkts_recd r - 1 \<and> ublock_count r1 = ublock_count r
       \<and> w (out_of r1) = w (out_of r)
     else pkts_recd r1 = 0 \<and> ublock_count r1 = ublock_count r + 1
       \<and> w (out_of r1) = w (out_of r) @ flag_hdr xhfCTS (ublock_count r + 1)"
    using request_step [OF Cons.prems(2) app b] by blast
  have tl: "\<forall>b \<in> set qs. from_scanner b \<and> has_id xhpidGWControl b \<and> has_RTS b"
    using Cons.prems(1) by simp
  show ?case
  proof (cases "pkts_recd r > 0")
    case True
    then have "pkts_recd r \<noteq> 0" by (simp add: word_gt_0)
    then have "unat (pkts_recd r1) = p - 1" "0 < p"
      using r1(3) True Cons.prems(3) by (simp_all add: unat_minus_one unat_gt_0)
    then show ?thesis
      using Cons.IH [OF tl r1(2), of "p - 1" n] r1 True Cons.prems(4) by auto
  next
    case False
    then have p: "unat (pkts_recd r1) = 0" "p = 0"
      using r1(3) Cons.prems(3) by (simp_all add: word_gt_0)
    have "ublock_count r1 = word_of_nat (Suc n)" using r1(3) False Cons.prems(4) by simp
    then show ?thesis
      using Cons.IH [OF tl r1(2), of 0 "Suc n"] r1(1,3) False p Cons.prems(4)
      by (auto simp: upt_conv_Cons add.commute simp del: upt_Suc)
  qed
qed

lemma protocol_input_branches:
  assumes "consumes D" "reports_only D" and "xutr r \<noteq> None"
  shows "\<exists>s' r' x'. xur_protocol_input D S P connect C \<lparr>ibuf = bs, cp = 0\<rparr> r x = Inr (s', r', x')
    \<and> ibuf s' = [] \<and> xutr r' \<noteq> None
    \<and> (if from_scanner bs \<and> has_id xhpidXioStatus bs
       then ulogged r' = ulogged r @ [bs] \<and> x' = xue_forward_packet S P bs (length bs) x
       else ulogged r' = ulogged r \<and> x' = x)
    \<and> (\<not> from_scanner bs \<longrightarrow> pkts_recd r' = pkts_recd r \<and> ublock_count r' = ublock_count r)"
proof -
  define r0 where "r0 = (if \<not> connect_requested r
     then (snd (xur_CTS connect C r))\<lparr>connect_requested := True\<rparr> else r)"
  have r0: "xutr r0 \<noteq> None" "ulogged r0 = ulogged r" "pkts_recd r0 = pkts_recd r"
    "ublock_count r0 = ublock_count r"
    using assms(3) xur_CTS_keeps(5) [of connect C r] by (simp_all add: r0_def del: not_None_eq)
  have cons: "ibuf (consume_op D (length bs) \<lparr>ibuf = bs, cp = 0\<rparr>) = []"
    "ibuf (report_ok_op D (length bs) \<lparr>ibuf = bs, cp = 0\<rparr>) = []"
    using assms(1) by (simp_all add: consumes_def consumed_def)
  show ?thesis
  proof (cases "from_scanner bs")
    case False
    then show ?thesis
      using r0 assms(2) cons
      by (auto simp: xur_protocol_input_def Let_def r0_def [symmetric] from_scanner_def
          reports_only_def)
  next
    case True
    obtain r1 where r1: "xur_request connect C (hdr_of_bytes bs) r0 = Inr r1"
      "ulogged r1 = ulogged r0" "xutr r1 \<noteq> None"
      using xur_request_Some [OF r0(1)] by blast
    obtain r2 where r2: "xur_dispatch S P connect C bs (hdr_of_bytes bs) (r1, x) = Inr (r2,
        if has_id xhpidXioStatus bs then xue_forward_packet S P bs (length bs) x else x)"
      "ulogged r2 = ulogged r1 @ (if has_id xhpidXioStatus bs then [bs] else [])" "xutr r2 \<noteq> None"
      using xur_dispatch_Some [OF r1(3)] by blast
    have "xur_protocol_input D S P connect C \<lparr>ibuf = bs, cp = 0\<rparr> r x
        = Inr (report_ok_op D (length bs) \<lparr>ibuf = bs, cp = 0\<rparr>, r2,
            if has_id xhpidXioStatus bs then xue_forward_packet S P bs (length bs) x else x)"
      using True r1(1) r2(1)
      by (simp add: xur_protocol_input_def Let_def r0_def [symmetric] from_scanner_def)
    then show ?thesis using True r0(2) r1(2) r2(2,3) cons(2) by simp
  qed
qed

section \<open>Properties\<close>

text \<open>
  C33: The UDP exporter is exactly a stop-and-wait sender: over any sequence of packets, replies and
  progress of the link, it sends every packet that comes while it waits for no reply and the output
  buffer is empty, and no other; a reply that is not empty ends the waiting. The stream gets the
  frames of these packets, so no more than the replies that are not empty, plus one; every other
  packet is counted as dropped, in 32 bits: exactly, as an \<open>int\<close>, up to 2^31 - 1 packets.
  \<open>app_input\<close> returns every time.
\<close>

theorem udp_export_stop_and_wait:
  assumes "consumes D" "reports_only D" "matches_strings D" and "appends C w"
    and "env_ok w D S C es (xiomas_udp_export out)"
    and "sent = stop_and_wait False (zip es (frees D S C es (xiomas_udp_export out)))"
  shows "\<exists>x'. xue_events D S C es (xiomas_udp_export out) = Some x'
    \<and> w (uchan x') = w out @ concat (map (xio_frame S) sent)
    \<and> subseq sent (forwarded es) \<and> length sent \<le> 1 + replies es
    \<and> packets_dropped x' = word_of_nat (length (forwarded es) - length sent)
    \<and> (length (forwarded es) < 2 ^ 31 \<longrightarrow>
         sint (packets_dropped x') = int (length (forwarded es) - length sent))"
proof -
  obtain x' where x': "xue_events D S C es (xiomas_udp_export out) = Some x'"
    "w (uchan x') = w out @ concat (map (xio_frame S) sent)"
    "packets_dropped x' + word_of_nat (length sent) = word_of_nat (length (forwarded es))"
    using xue_events_stop_and_wait [OF assms(1-5), of sent] assms(6) by (auto simp: xiomas_udp_export_def)
  have "map fst (zip es (frees D S C es (xiomas_udp_export out))) = es"
    using length_frees [OF x'(1)] by (simp add: map_fst_zip)
  then have s: "subseq sent (forwarded es)" "length sent \<le> 1 + replies es"
    using stop_and_wait_sends [of False "zip es (frees D S C es (xiomas_udp_export out))"] assms(6) by simp_all
  have "length sent \<le> length (forwarded es)" using s(1) by (rule list_emb_length)
  then have d: "packets_dropped x' = word_of_nat (length (forwarded es) - length sent)"
    using x'(3) by (simp add: of_nat_diff eq_diff_eq)
  have "sint (word_of_nat n :: 32 word) = int n" if "n < 2 ^ 31" for n
    using that by (simp add: signed_of_nat signed_take_bit_int_eq_self)
  with x' s d show ?thesis by auto
qed

text \<open>
  C34: Every branch of \<open>xiomas_udp_rcvr::protocol_input\<close>: the datagram is consumed; it is
  logged and forwarded, unchanged, exactly when it is a valid status packet from the scanner;
  otherwise neither the log nor the exporter changes, and a datagram that is not valid or not
  from the scanner changes neither the packet count nor the block count. The transmitter pointer
  stays as it was, null or not null.
\<close>

theorem udp_input_branches:
  assumes "consumes D" "reports_only D" and "xutr r \<noteq> None"
  shows "\<exists>s' r' x'. xur_protocol_input D S P connect C \<lparr>ibuf = bs, cp = 0\<rparr> r x = Inr (s', r', x')
    \<and> ibuf s' = [] \<and> xutr r' \<noteq> None
    \<and> (if from_scanner bs \<and> has_id xhpidXioStatus bs
       then ulogged r' = ulogged r @ [bs] \<and> x' = xue_forward_packet S P bs (length bs) x
       else ulogged r' = ulogged r \<and> x' = x)
    \<and> (\<not> from_scanner bs \<longrightarrow> pkts_recd r' = pkts_recd r \<and> ublock_count r' = ublock_count r)"
  by (rule protocol_input_branches [OF assms])

text \<open>
  C22: The flow control towards the instrument, as the recorded session shows it. While status
  packets arrive, each one that brings the 8-bit count above 10 is answered with NCTS (the count
  wraps at 256). Then every request to send takes one off the count, and CTS is sent only for the
  requests after the count has reached 0: \<open>k\<close> status packets cost \<open>k mod 256\<close> requests. The
  headers sent carry consecutive block numbers from 1.
\<close>

theorem udp_flow_control:
  assumes "appends C w" and "\<And>out. obuf_empty_op C out"
    and "socket_state t = Socket_connected"
    and "\<And>b. b \<in> set ss \<Longrightarrow> from_scanner b \<and> has_id xhpidXioStatus b \<and> \<not> has_RTS b"
    and "\<And>b. b \<in> set qs \<Longrightarrow> from_scanner b \<and> has_id xhpidGWControl b \<and> has_RTS b"
    and "n = ncts (length ss)" and "p = length ss mod 256"
  shows "\<exists>r' x'. xur_datagrams D S P connect C (ss @ qs) (xiomas_udp_rcvr (Some t)) x = Inr (r', x')
    \<and> w (out_of r') = w (tchan t)
        @ concat (map (\<lambda>i. flag_hdr xhfNCTS (word_of_nat i)) [1..<n + 1])
        @ concat (map (\<lambda>i. flag_hdr xhfCTS (word_of_nat i)) [n + 1..<n + 1 + (length qs - p)])
    \<and> unat (pkts_recd r') = p - length qs"
proof -
  let ?r = "xiomas_udp_rcvr (Some t)"
  have r: "clear_link C ?r" "pkts_recd ?r = 0" "ublock_count ?r = 0" "out_of ?r = tchan t"
    using assms(2,3) by (simp_all add: clear_link_def xiomas_udp_rcvr_def out_of_def)
  have ss: "\<forall>b \<in> set ss. from_scanner b \<and> has_id xhpidXioStatus b \<and> \<not> has_RTS b"
    and qs: "\<forall>b \<in> set qs. from_scanner b \<and> has_id xhpidGWControl b \<and> has_RTS b"
    using assms(4,5) by blast+
  obtain r1 x1 where r1: "xur_datagrams D S P connect C ss ?r x = Inr (r1, x1)" "clear_link C r1"
    "pkts_recd r1 = word_of_nat (length ss)" "ublock_count r1 = word_of_nat n"
    "w (out_of r1) = w (tchan t) @ concat (map (\<lambda>i. flag_hdr xhfNCTS (word_of_nat i)) [1..<n + 1])"
    using status_run [OF assms(1) ss r(1-3)] r(4) assms(6) by metis
  have p: "p = unat (pkts_recd r1)"
    by (simp add: r1(3) assms(7) unsigned_of_nat take_bit_eq_mod)
  obtain r' where r': "xur_datagrams D S P connect C qs r1 x1 = Inr (r', x1)"
    "pkts_recd r' = word_of_nat (p - length qs)"
    "w (out_of r') = w (out_of r1)
      @ concat (map (\<lambda>i. flag_hdr xhfCTS (word_of_nat i)) [n + 1..<n + 1 + (length qs - p)])"
    using request_run [OF assms(1) qs r1(2) p r1(4)] by blast
  have "p - length qs < 256" using assms(7) by (simp add: less_imp_diff_less)
  then have "unat (pkts_recd r') = p - length qs"
    by (simp add: r'(2) unsigned_of_nat take_bit_nat_eq_self)
  then show ?thesis
    using r1(1,5) r'(1,3) by (simp add: xur_datagrams_append)
qed

section \<open>Witnesses\<close>

theorem udp_export_stop_and_wait_witness:
  "\<exists>x'. xue_events plain_dasio plain_serio open_chan
      [Forward [1], Forward [2], Reply [0x4F, 0x4B, 0x0A], Forward [3]] (xiomas_udp_export [])
      = Some x' \<and> uchan x' = xio_frame plain_serio [1] @ xio_frame plain_serio [3]
      \<and> sint (packets_dropped x') = 1"
proof -
  let ?es = "[Forward [1], Forward [2], Reply [0x4F, 0x4B, 0x0A], Forward [3]] :: byte list xue_event list"
  let ?x = "xiomas_udp_export [] :: byte list xue"
  let ?sent = "stop_and_wait False (zip ?es (frees plain_dasio plain_serio open_chan ?es ?x))"
  have env: "env_ok (\<lambda>out. out) plain_dasio plain_serio open_chan ?es ?x"
    by simp
  obtain x' where x': "xue_events plain_dasio plain_serio open_chan ?es ?x = Some x'"
    "uchan x' = concat (map (xio_frame plain_serio) ?sent)"
    "sint (packets_dropped x') = int (3 - length ?sent)"
    using udp_export_stop_and_wait [OF plain_dasio_ok(1,2,4) open_chan_appends env refl]
    by (auto simp: xiomas_udp_export_def simp del: stop_and_wait.simps frees.simps)
  have all: "frees plain_dasio plain_serio open_chan es x = replicate (length es) True"
    if "xue_events plain_dasio plain_serio open_chan es x = Some y" for es and x y :: "byte list xue"
    using that by (induction es arbitrary: x) (auto simp: open_chan_def split: option.splits)
  have "frees plain_dasio plain_serio open_chan ?es ?x = replicate 4 True"
    unfolding all [OF x'(1)] by (simp add: numeral_eq_Suc)
  then have "?sent = [[1], [3]]" by (simp add: numeral_eq_Suc)
  with x' show ?thesis by auto
qed

theorem udp_input_branches_witness:
  "\<exists>s' r' x'. xur_protocol_input plain_dasio plain_serio open_chan (\<lambda>t. t) open_chan
     \<lparr>ibuf = [1, 2, 3], cp = 0\<rparr>
     (xiomas_udp_rcvr (Some \<lparr>socket_state = Socket_connected, tchan = []\<rparr>)) (xiomas_udp_export [])
     = Inr (s', r', x') \<and> ibuf s' = [] \<and> ulogged r' = [] \<and> x' = xiomas_udp_export []"
proof -
  define r where "r = xiomas_udp_rcvr (Some \<lparr>socket_state = Socket_connected, tchan = [] :: byte list\<rparr>)"
  have r: "xutr r \<noteq> None" "ulogged r = []"
    by (simp_all add: r_def xiomas_udp_rcvr_def)
  have "\<not> from_scanner [1, 2, 3]" by (simp add: from_scanner_def xio_header_size_def)
  then show ?thesis
    using udp_input_branches [OF plain_dasio_ok(1,2) r(1), of plain_serio open_chan "\<lambda>t. t" open_chan
        "[1, 2, 3]" "xiomas_udp_export []"] r(2)
    unfolding r_def [symmetric] by auto
qed

text \<open>
  The recorded session: eleven status packets, the last answered with NCTS, and twelve requests,
  the last answered with CTS (the packets here have no payload).
\<close>

definition status_dgram :: "byte list" where
  "status_dgram = [0x24, 0x50, 0x4B, 0x54, 3, 2, 229, 0, 0, 0, 0, 0, 247, 11, 0, 0]"

definition request_dgram :: "byte list" where
  "request_dgram = [0x24, 0x50, 0x4B, 0x54, 1, 2, 155, 64, 0, 0, 0, 0, 2, 12, 0, 0]"

theorem udp_flow_control_witness:
  "\<exists>r' x'. xur_datagrams plain_dasio plain_serio open_chan (\<lambda>t. t) open_chan
     (replicate 11 status_dgram @ replicate 12 request_dgram)
     (xiomas_udp_rcvr (Some \<lparr>socket_state = Socket_connected, tchan = []\<rparr>)) (xiomas_udp_export [])
     = Inr (r', x')
   \<and> out_of r' = flag_hdr xhfNCTS 1 @ flag_hdr xhfCTS 2 \<and> pkts_recd r' = 0"
proof -
  have ss: "from_scanner status_dgram" "has_id xhpidXioStatus status_dgram" "\<not> has_RTS status_dgram"
    and qs: "from_scanner request_dgram" "has_id xhpidGWControl request_dgram" "has_RTS request_dgram"
    by code_simp+
  have n: "ncts 11 = 1" by code_simp
  obtain r' x' where "xur_datagrams plain_dasio plain_serio open_chan (\<lambda>t. t) open_chan
     (replicate 11 status_dgram @ replicate 12 request_dgram)
     (xiomas_udp_rcvr (Some \<lparr>socket_state = Socket_connected, tchan = []\<rparr>)) (xiomas_udp_export [])
     = Inr (r', x')"
    "out_of r' = flag_hdr xhfNCTS 1 @ flag_hdr xhfCTS 2" "unat (pkts_recd r') = 0"
    using udp_flow_control [OF open_chan_appends, of "\<lparr>socket_state = Socket_connected, tchan = []\<rparr>"
        "replicate 11 status_dgram" "replicate 12 request_dgram" 1 11 plain_dasio plain_serio
        open_chan "\<lambda>t. t" "xiomas_udp_export []"] ss qs n
    by (auto simp: open_chan_def)
  then show ?thesis by (auto simp: unat_eq_0)
qed

end
