(* ===== verification/XioSystem.thy ===== *)
theory XioSystem
  imports EventLoop XioTcpRcvr XioUdp
begin

text \<open>
  The Xiomas program as a whole (\<open>main\<close> of \<open>Xiomas/xiomas_export.cc\<close>): the objects that \<open>main\<close>
  creates and hands to the event loop, the receivers that \<open>xiomas_tcp_svc::new_client\<close> adds to
  them, and everything the loop can deliver, as one labelled transition system. The receivers
  share the exporter, which holds a pointer to one of them.
\<close>

section \<open>The objects of the program\<close>

text \<open>
  What the handlers use of the library, in one record; \<open>resume_of\<close> is what it does to \<open>cp\<close> before a
  read.
\<close>

record 'o xio_lib =
  dasio_of :: dasio
  serio_of :: serio
  chan_of :: "'o chan_ops"
  Fl_Timeout_of :: u32
  connect_of :: "'o connector"
  reset_of :: "'o xtr \<Rightarrow> bool \<times> 'o xtr"
  resume_of :: "inbuf \<Rightarrow> inbuf"

text \<open>
  The children of the event loop; receivers are numbered. \<open>rcvrs\<close> holds the receivers in memory,
  each with its input buffer, whether or not the loop still has them.
\<close>

datatype xio_child = XTEXP_child | XUEXP_child | XTCP | XUTX | XURX_child | Rcvr nat | Quit

record 'o xio =
  XTEXP :: "'o xte"
  xtexp_buf :: inbuf
  XUEXP :: "'o xue"
  XURX :: "'o xur"
  rcvrs :: "nat \<rightharpoonup> inbuf \<times> 'o xtr"
  children :: "xio_child list"

definition xio_add_child :: "xio_child \<Rightarrow> 'o xio \<Rightarrow> 'o xio" where
  "xio_add_child ch p = p\<lparr>children := children p @ [ch]\<rparr>"

definition xiomas_udp_txmtr :: "sock_state \<Rightarrow> 'o \<Rightarrow> 'o xutx" where
  "xiomas_udp_txmtr st out = \<lparr>socket_state = st, tchan = out\<rparr>"

text \<open>
  \<open>main\<close>. What the constructors leave uninitialised and the state of the base classes are
  arguments; \<open>connect()\<close> of the transmitter is the library's. The receiver of datagrams holds the
  only pointer to the transmitter.
\<close>

definition xio_main ::
  "'o xio_lib \<Rightarrow> nat option \<Rightarrow> byte list \<Rightarrow> 'o \<Rightarrow> 'o \<Rightarrow> sock_state \<Rightarrow> 'o \<Rightarrow> 'o xio" where
  "xio_main L client0 circ0 tout uout st xout =
     (let xutx = xiomas_udp_txmtr st xout;
          p = \<lparr>XTEXP = xiomas_tcp_export client0 circ0 tout, xtexp_buf = \<lparr>ibuf = [], cp = 0\<rparr>,
               XUEXP = xiomas_udp_export uout, XURX = xiomas_udp_rcvr (Some (connect_of L xutx)),
               rcvrs = Map.empty, children = []\<rparr>;
          p = xio_add_child XTEXP_child p;
          p = xio_add_child XUEXP_child p;
          p = xio_add_child XTCP p;
          p = xio_add_child XUTX p;
          p = xio_add_child XURX_child p
      in xio_add_child Quit p)"

text \<open>\<open>xiomas_tcp_svc::new_client\<close>, and \<open>connected()\<close>, which the library calls next.\<close>

definition xtr_connected :: "'o xtr \<Rightarrow> bool \<times> 'o xtr" where
  "xtr_connected r = (False, r)"

definition xio_new_client :: "nat \<Rightarrow> bool \<Rightarrow> u32 \<Rightarrow> 'o \<Rightarrow> 'o xio \<Rightarrow> 'o xio" where
  "xio_new_client c tcp0 flags0 out p =
     (let rv = xiomas_tcp_rcvr tcp0 flags0 out;
          p = p\<lparr>rcvrs := (rcvrs p)(c \<mapsto> (\<lparr>ibuf = [], cp = 0\<rparr>, snd (xtr_connected rv)))\<rparr>
      in xio_add_child (Rcvr c) p)"

section \<open>What the event loop delivers\<close>

text \<open>
  Calls of \<open>client->ack()\<close> reach the receivers through the pointer the exporter holds: a call on
  a receiver no longer in memory is a fault. A call on the receiver whose handler is running is
  part of that handler.
\<close>

definition new_acks :: "'o xte \<Rightarrow> 'o xte \<Rightarrow> nat list" where
  "new_acks x x' = drop (length (acks x)) (acks x')"

fun notify ::
  "u32 \<Rightarrow> nat list \<Rightarrow> (nat \<rightharpoonup> inbuf \<times> 'o xtr) \<Rightarrow> fault + (nat \<rightharpoonup> inbuf \<times> 'o xtr)" where
  "notify F [] m = Inr m"
| "notify F (c # cs) m =
     (case m c of
        None \<Rightarrow> Inl Freed_object
      | Some (s, r) \<Rightarrow> notify F cs (m(c \<mapsto> (s, xtr_ack F r))))"

text \<open>
  \<open>Received c bs\<close>: a read of receiver \<open>c\<close> adds \<open>bs\<close> to its buffer. \<open>Closed\<close> takes a receiver out
  of the loop; \<open>Released\<close> is the library freeing one. \<open>Progressed\<close> moves bytes out of the output
  buffer of a child.
\<close>

datatype 'o xio_event =
    Accepted nat bool u32 'o
  | Received nat "byte list"
  | Timed_out nat
  | Closed nat
  | Released nat
  | Replied "byte list"
  | Datagram "byte list"
  | Udp_replied "byte list"
  | Progressed xio_child 'o

definition xio_received :: "'o xio_lib \<Rightarrow> nat \<Rightarrow> byte list \<Rightarrow> 'o xio \<Rightarrow> (fault + 'o xio) option" where
  "xio_received L c bs p =
     (case rcvrs p c of
        None \<Rightarrow> Some (Inl Freed_object)
      | Some (s, r) \<Rightarrow>
          (case xtr_protocol_input (dasio_of L) (serio_of L) (chan_of L) (Fl_Timeout_of L) c
                  ((resume_of L s)\<lparr>ibuf := ibuf s @ bs\<rparr>) r (XTEXP p) of
             None \<Rightarrow> None
           | Some (Inl e) \<Rightarrow> Some (Inl e)
           | Some (Inr (s', r', x')) \<Rightarrow>
               Some (bind_sum (notify (Fl_Timeout_of L)
                        (filter (\<lambda>d. d \<noteq> c) (new_acks (XTEXP p) x'))
                        ((rcvrs p)(c \<mapsto> (s', r'))))
                      (\<lambda>m. Inr (p\<lparr>XTEXP := x', rcvrs := m\<rparr>)))))"

definition xio_replied :: "'o xio_lib \<Rightarrow> byte list \<Rightarrow> 'o xio \<Rightarrow> (fault + 'o xio) option" where
  "xio_replied L bs p =
     (case xte_app_input (dasio_of L) (serio_of L) (chan_of L)
             ((xtexp_buf p)\<lparr>ibuf := ibuf (xtexp_buf p) @ bs\<rparr>) (XTEXP p) of
        None \<Rightarrow> None
      | Some (Inl e) \<Rightarrow> Some (Inl e)
      | Some (Inr (s', x')) \<Rightarrow>
          Some (bind_sum (notify (Fl_Timeout_of L) (new_acks (XTEXP p) x') (rcvrs p))
                 (\<lambda>m. Inr (p\<lparr>XTEXP := x', xtexp_buf := s', rcvrs := m\<rparr>))))"

definition xio_timed_out :: "'o xio_lib \<Rightarrow> nat \<Rightarrow> 'o xio \<Rightarrow> fault + 'o xio" where
  "xio_timed_out L c p =
     (case rcvrs p c of
        None \<Rightarrow> Inl Freed_object
      | Some (s, r) \<Rightarrow>
          let r' = snd (xtr_protocol_timeout (Fl_Timeout_of L) (reset_of L) (chan_of L) r)
          in Inr (p\<lparr>rcvrs := (rcvrs p)(c \<mapsto> (s, r'))\<rparr>))"

fun xio_progressed :: "xio_child \<Rightarrow> 'o \<Rightarrow> 'o xio \<Rightarrow> 'o xio" where
  "xio_progressed XTEXP_child out p = p\<lparr>XTEXP := (XTEXP p)\<lparr>chan := out\<rparr>\<rparr>"
| "xio_progressed XUEXP_child out p = p\<lparr>XUEXP := (XUEXP p)\<lparr>uchan := out\<rparr>\<rparr>"
| "xio_progressed XUTX out p =
     p\<lparr>XURX := (XURX p)\<lparr>xutr := map_option (\<lambda>t. t\<lparr>tchan := out\<rparr>) (xutr (XURX p))\<rparr>\<rparr>"
| "xio_progressed (Rcvr c) out p =
     p\<lparr>rcvrs := (rcvrs p)(c := map_option (\<lambda>(s, r). (s, r\<lparr>rchan := out\<rparr>)) (rcvrs p c))\<rparr>"
| "xio_progressed XTCP out p = p"
| "xio_progressed XURX_child out p = p"
| "xio_progressed Quit out p = p"

fun xio_handle :: "'o xio_lib \<Rightarrow> 'o xio_event \<Rightarrow> 'o xio \<Rightarrow> (fault + 'o xio) option" where
  "xio_handle L (Accepted c tcp0 flags0 out) p = Some (Inr (xio_new_client c tcp0 flags0 out p))"
| "xio_handle L (Received c bs) p = xio_received L c bs p"
| "xio_handle L (Timed_out c) p = Some (xio_timed_out L c p)"
| "xio_handle L (Closed c) p = Some (Inr (p\<lparr>children := removeAll (Rcvr c) (children p)\<rparr>))"
| "xio_handle L (Released c) p = Some (Inr (p\<lparr>rcvrs := (rcvrs p)(c := None)\<rparr>))"
| "xio_handle L (Replied bs) p = xio_replied L bs p"
| "xio_handle L (Datagram bs) p =
     Some (bind_sum (xur_protocol_input (dasio_of L) (serio_of L) (chan_of L) (connect_of L)
                      (chan_of L) \<lparr>ibuf = bs, cp = 0\<rparr> (XURX p) (XUEXP p))
             (\<lambda>(s, r, x). Inr (p\<lparr>XURX := r, XUEXP := x\<rparr>)))"
| "xio_handle L (Udp_replied bs) p =
     map_option (\<lambda>(s, x). Inr (p\<lparr>XUEXP := x\<rparr>))
       (xue_app_input (dasio_of L) \<lparr>ibuf = bs, cp = 0\<rparr> (XUEXP p))"
| "xio_handle L (Progressed ch out) p = Some (Inr (xio_progressed ch out p))"

text \<open>
  When an event can happen: the loop serves its children only, a new receiver gets memory not in
  use, a timeout needs one to be set, and the library frees a receiver only after the loop has
  let it go and when no reference is held on it. \<open>w\<close> reads the bytes written off an output side.
\<close>

definition chan_at :: "xio_child \<Rightarrow> 'o xio \<Rightarrow> 'o option" where
  "chan_at ch p =
     (case ch of
        XTEXP_child \<Rightarrow> Some (chan (XTEXP p))
      | XUEXP_child \<Rightarrow> Some (uchan (XUEXP p))
      | XUTX \<Rightarrow> map_option tchan (xutr (XURX p))
      | Rcvr c \<Rightarrow> map_option (\<lambda>(s, r). rchan r) (rcvrs p c)
      | _ \<Rightarrow> None)"

fun xio_enabled :: "('o \<Rightarrow> byte list) \<Rightarrow> 'o xio_event \<Rightarrow> 'o xio \<Rightarrow> bool" where
  "xio_enabled w (Accepted c tcp0 flags0 out) p \<longleftrightarrow> XTCP \<in> set (children p) \<and> rcvrs p c = None"
| "xio_enabled w (Received c bs) p \<longleftrightarrow> Rcvr c \<in> set (children p)"
| "xio_enabled w (Timed_out c) p \<longleftrightarrow> Rcvr c \<in> set (children p)
     \<and> (case rcvrs p c of None \<Rightarrow> False | Some (s, r) \<Rightarrow> rTO r \<noteq> None)"
| "xio_enabled w (Closed c) p \<longleftrightarrow> Rcvr c \<in> set (children p)"
| "xio_enabled w (Released c) p \<longleftrightarrow> Rcvr c \<notin> set (children p) \<and> refs (XTEXP p) c = 0"
| "xio_enabled w (Replied bs) p \<longleftrightarrow> XTEXP_child \<in> set (children p)"
| "xio_enabled w (Datagram bs) p \<longleftrightarrow> XURX_child \<in> set (children p)"
| "xio_enabled w (Udp_replied bs) p \<longleftrightarrow> XUEXP_child \<in> set (children p)"
| "xio_enabled w (Progressed ch out) p \<longleftrightarrow> map_option w (chan_at ch p) = Some (w out)"

abbreviation xio_run ::
  "'o xio_lib \<Rightarrow> ('o \<Rightarrow> byte list) \<Rightarrow> 'o xio \<Rightarrow> 'o xio_event list \<Rightarrow> 'o xio \<Rightarrow> bool" where
  "xio_run L w \<equiv> runs (xio_enabled w) (xio_handle L)"

section \<open>The invariant\<close>

text \<open>
  The library behaves as documented; \<open>reset()\<close>, a function of the base class, leaves the members
  of the derived class alone; before a read, \<open>cp\<close> is kept or moved to the start of the buffer.
\<close>

definition lib_ok :: "'o xio_lib \<Rightarrow> ('o \<Rightarrow> byte list) \<Rightarrow> bool" where
  "lib_ok L w \<longleftrightarrow> link_ok (dasio_of L) (serio_of L) \<and> searches (dasio_of L)
     \<and> matches_strings (dasio_of L) \<and> appends (chan_of L) w
     \<and> pkt_hdr_size (serio_of L) < 2 ^ 30
     \<and> (\<forall>r. bytes_remaining_in_packet (snd (reset_of L r)) = bytes_remaining_in_packet r)
     \<and> (\<forall>s. resume_of L s = s \<or> resume_of L s = s\<lparr>cp := 0\<rparr>)"

definition rcvr_wf :: "inbuf \<times> 'o xtr \<Rightarrow> bool" where
  "rcvr_wf sr \<longleftrightarrow> cp (fst sr) \<le> nc (fst sr) \<and> bytes_remaining_in_packet (snd sr) < 2 ^ 32"

definition xio_inv :: "'o xio_lib \<Rightarrow> ('o \<Rightarrow> byte list) \<Rightarrow> 'o xio \<Rightarrow> bool" where
  "xio_inv L w p \<longleftrightarrow> xte_inv (serio_of L) (chan_of L) w (XTEXP p) \<and> refs_balanced (XTEXP p)
     \<and> (\<forall>sr \<in> ran (rcvrs p). rcvr_wf sr)
     \<and> set_option (client (XTEXP p)) \<subseteq> dom (rcvrs p)
     \<and> {c. Rcvr c \<in> set (children p)} \<subseteq> dom (rcvrs p)
     \<and> xutr (XURX p) \<noteq> None"

lemma xtr_ack_idem: "xtr_ack F (xtr_ack F r) = xtr_ack F r"
  by (simp add: xtr_ack_def or.assoc)

lemma xtr_ack_fields [simp]:
  "rstate (xtr_ack F r) = rstate r" "logged (xtr_ack F r) = logged r"
  "bytes_remaining_in_packet (xtr_ack F r) = bytes_remaining_in_packet r"
  "transmitting_current_packet (xtr_ack F r) = transmitting_current_packet r"
  "rchan (xtr_ack F r) = rchan r"
  by (simp_all add: xtr_ack_def)

definition notified ::
  "u32 \<Rightarrow> nat set \<Rightarrow> (nat \<rightharpoonup> inbuf \<times> 'o xtr) \<Rightarrow> (nat \<rightharpoonup> inbuf \<times> 'o xtr)" where
  "notified F cs m = (\<lambda>c. map_option (\<lambda>(s, r). (s, if c \<in> cs then xtr_ack F r else r)) (m c))"

lemma dom_notified [simp]: "dom (notified F cs m) = dom m"
  by (auto simp: notified_def dom_def)

lemma notified_empty [simp]: "notified F {} m = m"
  by (simp add: notified_def fun_eq_iff option.map_id)

lemma ran_notified: "\<forall>sr \<in> ran m. rcvr_wf sr \<Longrightarrow> \<forall>sr \<in> ran (notified F cs m). rcvr_wf sr"
proof
  fix sr assume "\<forall>sr \<in> ran m. rcvr_wf sr" and "sr \<in> ran (notified F cs m)"
  then obtain c s r where "m c = Some (s, r)" "rcvr_wf (s, r)"
    "sr = (s, if c \<in> cs then xtr_ack F r else r)"
    by (force simp: ran_def notified_def)
  then show "rcvr_wf sr" by (simp add: rcvr_wf_def)
qed

lemma notify_eq: "set cs \<subseteq> dom m \<Longrightarrow> notify F cs m = Inr (notified F (set cs) m)"
proof (induction cs arbitrary: m)
  case Nil
  then show ?case by simp
next
  case (Cons c cs)
  then obtain s r where c: "m c = Some (s, r)" by auto
  have "set cs \<subseteq> dom (m(c \<mapsto> (s, xtr_ack F r)))" using Cons.prems by auto
  moreover have "notified F (set cs) (m(c \<mapsto> (s, xtr_ack F r))) = notified F (set (c # cs)) m"
    by (rule ext) (simp add: notified_def c xtr_ack_idem)
  ultimately show ?case using Cons.IH [of "m(c \<mapsto> (s, xtr_ack F r))"] c
    by (simp del: fun_upd_apply)
qed

lemma forward_all_safe:
  "xte_inv S C w x \<Longrightarrow> lrc_first S \<Longrightarrow> \<exists>x'. forward_all S C ps x = Some (Inr x')
    \<and> xte_inv S C w x' \<and> ack_kept x x' \<and> (refs_balanced x \<longrightarrow> refs_balanced x')"
proof (induction ps arbitrary: x)
  case Nil
  then show ?case by simp
next
  case (Cons p ps)
  obtain x1 where x1: "xte_forward_packet S C p (length p) x = Some (Inr x1)" "xte_inv S C w x1"
    "ack_kept x x1" "refs_balanced x \<longrightarrow> refs_balanced x1"
    using forward_packet_safe [OF Cons.prems order.refl] by blast
  obtain x' where x': "forward_all S C ps x1 = Some (Inr x')" "xte_inv S C w x'" "ack_kept x1 x'"
    "refs_balanced x1 \<longrightarrow> refs_balanced x'"
    using Cons.IH [OF x1(2) Cons.prems(2)] by blast
  show ?case
    using x1(1,4) x'(1,2,4) ack_kept_trans [OF x1(3) x'(3)] by simp
qed

lemma request_ack_fields [simp]:
  "client (request_ack c x) = Some c" "acks (request_ack c x) = acks x"
  "circ (request_ack c x) = circ x" "circ_size (request_ack c x) = circ_size x"
  "circ_head (request_ack c x) = circ_head x" "circ_tail (request_ack c x) = circ_tail x"
  "outstanding_bytes (request_ack c x) = outstanding_bytes x" "chan (request_ack c x) = chan x"
  by (simp_all add: request_ack_def Let_def split: option.splits)

lemma new_acks_kept:
  "ack_kept x x' \<Longrightarrow> set (new_acks x x') \<subseteq> set_option (client x)"
  by (auto simp: ack_kept_def new_acks_def)

text \<open>What a read of a receiver leaves behind, for the rest of the program.\<close>

lemma resume_ok:
  assumes "lib_ok L w"
  shows "resume_of L s = s \<or> resume_of L s = s\<lparr>cp := 0\<rparr>" "ibuf (resume_of L s) = ibuf s"
    "rcvr_wf (s, r) \<Longrightarrow> rcvr_wf (resume_of L s, r)"
proof -
  show c: "resume_of L s = s \<or> resume_of L s = s\<lparr>cp := 0\<rparr>" using assms unfolding lib_ok_def by blast
  then show "ibuf (resume_of L s) = ibuf s" "rcvr_wf (s, r) \<Longrightarrow> rcvr_wf (resume_of L s, r)"
    by (auto simp: rcvr_wf_def)
qed

lemma received_ok:
  assumes "lib_ok L w" and "xte_inv (serio_of L) (chan_of L) w x" and "refs_balanced x"
    and "rcvr_wf (s, r)"
  obtains s' r' x' where
    "xtr_protocol_input (dasio_of L) (serio_of L) (chan_of L) F c (s\<lparr>ibuf := ibuf s @ bs\<rparr>) r x
      = Some (Inr (s', r', x'))"
    "rcvr_wf (s', r')" "xte_inv (serio_of L) (chan_of L) w x'" "refs_balanced x'"
    "set (new_acks x x') \<subseteq> set_option (client x)"
    "set_option (client x') \<subseteq> insert c (set_option (client x))"
    "scanned (serio_of L) (chan_of L) c r (drop (cp s) (ibuf s) @ bs) x s' r' x'"
    "cp s' = 0 \<or> waits_at (ibuf s @ bs) s' r'"
proof -
  have ok: "rcvr_ok (dasio_of L) (serio_of L)" "lrc_first (serio_of L)"
    using assms(1) by (simp_all add: lib_ok_def rcvr_ok_def link_ok_def)
  obtain s' r' x' where run:
    "xtr_protocol_input (dasio_of L) (serio_of L) (chan_of L) F c (s\<lparr>ibuf := ibuf s @ bs\<rparr>) r x
      = Some (Inr (s', r', x'))"
    "cp s' \<le> nc s'" "bytes_remaining_in_packet r' < 2 ^ 32"
    "xte_inv (serio_of L) (chan_of L) w x'"
    "scanned (serio_of L) (chan_of L) c r (drop (cp s) (ibuf s) @ bs) x s' r' x'"
    "cp s' = 0 \<or> waits_at (ibuf s @ bs) s' r'"
    using xtr_run_waits [OF ok(1) _ assms(2), of "s\<lparr>ibuf := ibuf s @ bs\<rparr>" r F c] assms(4)
    by (auto simp: rcvr_wf_def)
  obtain ps x1 where x1: "forward_all (serio_of L) (chan_of L) ps x = Some (Inr x1)"
    "x' = x1 \<or> x' = request_ack c x1"
    using run(5) unfolding scanned_def Let_def by (metis (no_types))
  have kept: "ack_kept x x1" "refs_balanced x1"
    using forward_all_safe [OF assms(2) ok(2), of ps] x1(1) assms(3) by auto
  have "client x' = Some c \<and> acks x' = acks x1 \<or> x' = x1" using x1(2) by auto
  then have "set (new_acks x x') \<subseteq> set_option (client x)"
    "set_option (client x') \<subseteq> insert c (set_option (client x))"
    using new_acks_kept [OF kept(1)] kept(1) by (auto simp: new_acks_def ack_kept_def)
  moreover have "refs_balanced x'" using x1(2) kept(2) refs_balanced_request_ack by blast
  ultimately show thesis using that [OF run(1)] run(2-6) by (simp add: rcvr_wf_def)
qed

lemma xio_invI:
  assumes "xte_inv (serio_of L) (chan_of L) w (XTEXP p)" "refs_balanced (XTEXP p)"
    "\<forall>sr \<in> ran (rcvrs p). rcvr_wf sr" "set_option (client (XTEXP p)) \<subseteq> dom (rcvrs p)"
    "{c. Rcvr c \<in> set (children p)} \<subseteq> dom (rcvrs p)" "xutr (XURX p) \<noteq> None"
  shows "xio_inv L w p"
  unfolding xio_inv_def using assms by blast

lemma xio_invD:
  assumes "xio_inv L w p"
  shows "xte_inv (serio_of L) (chan_of L) w (XTEXP p)" "refs_balanced (XTEXP p)"
    "\<forall>sr \<in> ran (rcvrs p). rcvr_wf sr" "set_option (client (XTEXP p)) \<subseteq> dom (rcvrs p)"
    "{c. Rcvr c \<in> set (children p)} \<subseteq> dom (rcvrs p)" "xutr (XURX p) \<noteq> None"
  using assms unfolding xio_inv_def by blast+

text \<open>The cases of a read, of input from \<open>tm_ip_export\<close> and of a datagram, in full.\<close>

lemma xio_received_ok:
  assumes "lib_ok L w" and inv: "xio_inv L w p" and "Rcvr c \<in> set (children p)"
  obtains s r s' r' x' cs where "rcvrs p c = Some (s, r)" "rcvr_wf (s, r)" "rcvr_wf (s', r')"
    "scanned (serio_of L) (chan_of L) c r (drop (cp (resume_of L s)) (ibuf s) @ bs) (XTEXP p) s' r' x'"
    "cp s' = 0 \<or> waits_at (ibuf s @ bs) s' r'"
    "xio_received L c bs p = Some (Inr (p\<lparr>XTEXP := x',
       rcvrs := notified (Fl_Timeout_of L) cs ((rcvrs p)(c \<mapsto> (s', r')))\<rparr>))"
    "cs \<subseteq> set_option (client (XTEXP p)) - {c}"
    "xio_inv L w (p\<lparr>XTEXP := x', rcvrs := notified (Fl_Timeout_of L) cs ((rcvrs p)(c \<mapsto> (s', r')))\<rparr>)"
proof -
  note I = xio_invD [OF inv]
  obtain s r where c: "rcvrs p c = Some (s, r)" using I(5) assms(3) by fastforce
  then have wf: "rcvr_wf (s, r)" using I(3) by (simp add: ranI)
  define s0 where "s0 = resume_of L s"
  have s0: "ibuf s0 = ibuf s" "rcvr_wf (s0, r)"
    using resume_ok(2,3) [OF assms(1)] wf by (simp_all add: s0_def)
  obtain s' r' x' where run:
    "xtr_protocol_input (dasio_of L) (serio_of L) (chan_of L) (Fl_Timeout_of L) c
       (s0\<lparr>ibuf := ibuf s @ bs\<rparr>) r (XTEXP p) = Some (Inr (s', r', x'))"
    "rcvr_wf (s', r')" "xte_inv (serio_of L) (chan_of L) w x'" "refs_balanced x'"
    "set (new_acks (XTEXP p) x') \<subseteq> set_option (client (XTEXP p))"
    "set_option (client x') \<subseteq> insert c (set_option (client (XTEXP p)))"
    "scanned (serio_of L) (chan_of L) c r (drop (cp s0) (ibuf s) @ bs) (XTEXP p) s' r' x'"
    "cp s' = 0 \<or> waits_at (ibuf s @ bs) s' r'"
    using received_ok [OF assms(1) I(1,2) s0(2), unfolded s0(1)] by metis
  define cs where "cs = filter (\<lambda>d. d \<noteq> c) (new_acks (XTEXP p) x')"
  let ?m = "(rcvrs p)(c \<mapsto> (s', r'))"
  let ?q = "p\<lparr>XTEXP := x', rcvrs := notified (Fl_Timeout_of L) (set cs) ?m\<rparr>"
  have cs: "set cs \<subseteq> set_option (client (XTEXP p)) - {c}" using run(5) by (auto simp: cs_def)
  then have "set cs \<subseteq> dom ?m" using I(4) by auto
  then have res: "xio_received L c bs p = Some (Inr ?q)"
    using c run(1) by (simp add: xio_received_def s0_def [symmetric] cs_def [symmetric] notify_eq del: fun_upd_apply)
  have "\<forall>sr \<in> ran ?m. rcvr_wf sr"
    using I(3) run(2) by (auto simp: ran_def)
  then have "xio_inv L w ?q"
    using I run(3,4,6) by (intro xio_invI) (auto intro!: ran_notified simp del: fun_upd_apply)
  from that [OF c wf run(2) run(7) [unfolded s0_def] run(8) res cs this] show thesis .
qed

text \<open>
  The one event whose handler may not return: input from \<open>tm_ip_export\<close> on which the loop of
  \<open>app_input\<close> comes to a packet that is not a control packet.
\<close>

definition xio_hangs :: "'o xio_lib \<Rightarrow> 'o xio_event \<Rightarrow> 'o xio \<Rightarrow> bool" where
  "xio_hangs L e p \<longleftrightarrow> (\<exists>bs. e = Replied bs
     \<and> meets_other (serio_of L) ((xtexp_buf p)\<lparr>ibuf := ibuf (xtexp_buf p) @ bs\<rparr>))"

lemma xio_hangs_None:
  assumes "lib_ok L w" and "xio_inv L w p" and "finds_again (serio_of L)" and "xio_hangs L e p"
  shows "xio_handle L e p = None"
proof -
  obtain bs where e: "e = Replied bs"
    "meets_other (serio_of L) ((xtexp_buf p)\<lparr>ibuf := ibuf (xtexp_buf p) @ bs\<rparr>)"
    using assms(4) by (auto simp: xio_hangs_def)
  have "xte_app_input (dasio_of L) (serio_of L) (chan_of L)
      ((xtexp_buf p)\<lparr>ibuf := ibuf (xtexp_buf p) @ bs\<rparr>) (XTEXP p) = None"
    unfolding xte_app_input_def
    using xte_acks.ctrl_input_hangs [OF e(2) _ _ _ assms(3)] assms(1) xio_invD(1) [OF assms(2)]
    by (auto simp: lib_ok_def link_ok_def)
  then show ?thesis by (simp add: e(1) xio_replied_def)
qed

lemma xio_replied_ok:
  assumes "lib_ok L w" and inv: "xio_inv L w p"
    and on: "xio_hangs L (Replied bs) p \<Longrightarrow> xio_replied L bs p \<noteq> None"
  obtains s' x' where "xio_replied L bs p = Some (Inr (p\<lparr>XTEXP := x', xtexp_buf := s',
      rcvrs := notified (Fl_Timeout_of L) (set (new_acks (XTEXP p) x')) (rcvrs p)\<rparr>))"
    "ack_promise w (XTEXP p) x'"
    "xio_inv L w (p\<lparr>XTEXP := x', xtexp_buf := s',
      rcvrs := notified (Fl_Timeout_of L) (set (new_acks (XTEXP p) x')) (rcvrs p)\<rparr>)"
proof -
  note I = xio_invD [OF inv]
  let ?s = "(xtexp_buf p)\<lparr>ibuf := ibuf (xtexp_buf p) @ bs\<rparr>"
  obtain s' x' where run: "xte_app_input (dasio_of L) (serio_of L) (chan_of L) ?s (XTEXP p)
      = Some (Inr (s', x'))" "xte_inv (serio_of L) (chan_of L) w x'" "ack_promise w (XTEXP p) x'"
  proof (cases "meets_other (serio_of L) ?s")
    case True
    then obtain r where "xte_app_input (dasio_of L) (serio_of L) (chan_of L) ?s (XTEXP p) = Some r"
      using on by (cases "xte_app_input (dasio_of L) (serio_of L) (chan_of L) ?s (XTEXP p)")
        (auto simp: xio_hangs_def xio_replied_def)
    then show thesis
      using that xte_acks.ctrl_input_kept [OF _ I(1)] unfolding xte_app_input_def by blast
  next
    case False
    then show thesis
      using that xte_acks.ctrl_input_returns [OF _ _ _ I(1) False] assms(1)
      unfolding lib_ok_def link_ok_def xte_app_input_def by blast
  qed
  have kept: "ack_kept (XTEXP p) x'" "refs_balanced x'"
    using run(3) I(2) by (simp_all add: ack_promise_def)
  then have cs: "set (new_acks (XTEXP p) x') \<subseteq> dom (rcvrs p)"
    using new_acks_kept [OF kept(1)] I(4) by blast
  have res: "xio_replied L bs p = Some (Inr (p\<lparr>XTEXP := x', xtexp_buf := s',
      rcvrs := notified (Fl_Timeout_of L) (set (new_acks (XTEXP p) x')) (rcvrs p)\<rparr>))"
    using run(1) by (simp add: xio_replied_def notify_eq [OF cs])
  have "set_option (client x') \<subseteq> dom (rcvrs p)" using kept(1) I(4) by (auto simp: ack_kept_def)
  then have "xio_inv L w (p\<lparr>XTEXP := x', xtexp_buf := s',
      rcvrs := notified (Fl_Timeout_of L) (set (new_acks (XTEXP p) x')) (rcvrs p)\<rparr>)"
    using I run(2) kept(2) by (intro xio_invI) (simp_all add: ran_notified)
  with res run(3) that show thesis by blast
qed

lemma xio_datagram_ok:
  assumes "lib_ok L w" and inv: "xio_inv L w p"
  obtains r' x' where "xio_handle L (Datagram bs) p = Some (Inr (p\<lparr>XURX := r', XUEXP := x'\<rparr>))"
    "xio_inv L w (p\<lparr>XURX := r', XUEXP := x'\<rparr>)"
proof -
  note I = xio_invD [OF inv]
  obtain s' r' x' where run: "xur_protocol_input (dasio_of L) (serio_of L) (chan_of L) (connect_of L)
      (chan_of L) \<lparr>ibuf = bs, cp = 0\<rparr> (XURX p) (XUEXP p) = Inr (s', r', x')" "xutr r' \<noteq> None"
    using protocol_input_branches [of "dasio_of L" "XURX p" "serio_of L" "chan_of L" "connect_of L"
        "chan_of L" bs "XUEXP p"] assms(1) I(6) by (auto simp: lib_ok_def link_ok_def)
  have "xio_inv L w (p\<lparr>XURX := r', XUEXP := x'\<rparr>)"
    using I run(2) by (intro xio_invI) simp_all
  with run(1) that show thesis by simp
qed

lemma xte_inv_chan: "xte_inv S C w (x\<lparr>chan := out\<rparr>) = xte_inv S C w x"
  by (simp add: xte_inv_def wf_ring_def)

lemma refs_balanced_chan: "refs_balanced (x\<lparr>chan := out\<rparr>) = refs_balanced x"
  by (simp add: refs_balanced_def)

lemma xio_progressed_inv:
  assumes "xio_inv L w p"
  shows "xio_inv L w (xio_progressed ch out p)"
proof -
  note I = xio_invD [OF assms]
  show ?thesis
  proof (cases ch)
    case (Rcvr c)
    have "\<forall>sr \<in> ran (rcvrs (xio_progressed ch out p)). rcvr_wf sr"
      using I(3) Rcvr by (fastforce simp: ran_def rcvr_wf_def split: if_splits)
    moreover have "dom (rcvrs (xio_progressed ch out p)) = dom (rcvrs p)"
      using Rcvr by (auto simp: dom_def)
    ultimately show ?thesis
      using I Rcvr by (intro xio_invI) simp_all
  qed (use I in \<open>auto intro!: xio_invI simp: xte_inv_chan refs_balanced_chan\<close>)
qed

lemma xio_timed_out_ok:
  assumes "lib_ok L w" and inv: "xio_inv L w p" and "c \<in> dom (rcvrs p)"
  shows "\<exists>p'. xio_timed_out L c p = Inr p' \<and> xio_inv L w p'"
proof -
  note I = xio_invD [OF inv]
  obtain s r where c: "rcvrs p c = Some (s, r)" using assms(3) by auto
  define r' where "r' = snd (xtr_protocol_timeout (Fl_Timeout_of L) (reset_of L) (chan_of L) r)"
  have "bytes_remaining_in_packet r' = bytes_remaining_in_packet r"
    using assms(1) by (simp add: r'_def xtr_protocol_timeout_def Let_def xtr_sendCTS_def
        xtr_sendFlag_def lib_ok_def)
  moreover have "rcvr_wf (s, r)" using I(3) c by (simp add: ranI)
  ultimately have "\<forall>sr \<in> ran ((rcvrs p)(c \<mapsto> (s, r'))). rcvr_wf sr"
    using I(3) by (auto simp: ran_def rcvr_wf_def)
  then have "xio_inv L w (p\<lparr>rcvrs := (rcvrs p)(c \<mapsto> (s, r'))\<rparr>)"
    using I by (intro xio_invI) auto
  then show ?thesis by (simp add: xio_timed_out_def c r'_def Let_def)
qed

lemma xio_inv_step:
  assumes lib: "lib_ok L w" and inv: "xio_inv L w p" and en: "xio_enabled w e p"
    and on: "xio_hangs L e p \<Longrightarrow> xio_handle L e p \<noteq> None"
  shows "\<exists>p'. xio_handle L e p = Some (Inr p') \<and> xio_inv L w p'"
proof -
  note I = xio_invD [OF inv]
  show ?thesis
  proof (cases e)
    case (Accepted c tcp0 flags0 out)
    have "\<forall>sr \<in> ran (rcvrs (xio_new_client c tcp0 flags0 out p)). rcvr_wf sr"
      using I(3) by (auto simp: xio_new_client_def xio_add_child_def Let_def ran_def rcvr_wf_def
          xtr_connected_def xiomas_tcp_rcvr_def)
    then have "xio_inv L w (xio_new_client c tcp0 flags0 out p)"
      using I by (intro xio_invI) (auto simp: xio_new_client_def xio_add_child_def Let_def)
    with Accepted show ?thesis by simp
  next
    case (Received c bs)
    then have "Rcvr c \<in> set (children p)" using en by simp
    from xio_received_ok [OF lib inv this, of bs] Received show ?thesis
      by (metis xio_handle.simps(2))
  next
    case (Timed_out c)
    then have "c \<in> dom (rcvrs p)" using en by (auto split: option.splits)
    from xio_timed_out_ok [OF lib inv this] Timed_out show ?thesis by auto
  next
    case (Closed c)
    have "xio_inv L w (p\<lparr>children := removeAll (Rcvr c) (children p)\<rparr>)"
      using I by (intro xio_invI) auto
    with Closed show ?thesis by simp
  next
    case (Released c)
    have "client (XTEXP p) \<noteq> Some c" using I(2) en Released by (auto simp: refs_balanced_def)
    moreover have "Rcvr c \<notin> set (children p)" using en Released by simp
    moreover have "ran ((rcvrs p)(c := None)) \<subseteq> ran (rcvrs p)" by (auto simp: ran_def)
    ultimately have "xio_inv L w (p\<lparr>rcvrs := (rcvrs p)(c := None)\<rparr>)"
      using I by (intro xio_invI) auto
    with Released show ?thesis by simp
  next
    case (Replied bs)
    then have "xio_hangs L (Replied bs) p \<Longrightarrow> xio_replied L bs p \<noteq> None" using on by simp
    from xio_replied_ok [OF lib inv this] Replied show ?thesis by (metis xio_handle.simps(6))
  next
    case (Datagram bs)
    from xio_datagram_ok [OF lib inv, of bs] Datagram show ?thesis by metis
  next
    case (Udp_replied bs)
    obtain s' x' where "xue_app_input (dasio_of L) \<lparr>ibuf = bs, cp = 0\<rparr> (XUEXP p) = Some (s', x')"
      using xue_app_input_returns [of "dasio_of L" "\<lparr>ibuf = bs, cp = 0\<rparr>" "XUEXP p"] lib
      by (auto simp: lib_ok_def link_ok_def)
    moreover have "xio_inv L w (p\<lparr>XUEXP := x'\<rparr>)" using I by (intro xio_invI) simp_all
    ultimately show ?thesis using Udp_replied by simp
  next
    case (Progressed ch out)
    then show ?thesis using xio_progressed_inv [OF inv] by simp
  qed
qed

lemma xio_main_fields [simp]:
  "XTEXP (xio_main L client0 circ0 tout uout st xout) = xiomas_tcp_export client0 circ0 tout"
  "rcvrs (xio_main L client0 circ0 tout uout st xout) = Map.empty"
  "children (xio_main L client0 circ0 tout uout st xout) =
     [XTEXP_child, XUEXP_child, XTCP, XUTX, XURX_child, Quit]"
  by (simp_all add: xio_main_def Let_def xio_add_child_def)

lemma xio_main_inv:
  assumes "lib_ok L w" and "length circ0 = CIRC_BUFFER_SIZE"
  shows "xio_inv L w (xio_main L None circ0 tout uout st xout)"
proof -
  have "xutr (XURX (xio_main L None circ0 tout uout st xout)) \<noteq> None"
    by (simp add: xio_main_def Let_def xio_add_child_def xiomas_udp_rcvr_def)
  moreover have "xte_inv (serio_of L) (chan_of L) w (xiomas_tcp_export None circ0 tout)"
    using assms by (intro xte_init_inv) (simp_all add: lib_ok_def)
  moreover have "client (xiomas_tcp_export None circ0 tout) = None"
    by (simp add: xiomas_tcp_export_def)
  ultimately show ?thesis
    by (intro xio_invI) (simp_all add: refs_balanced_init)
qed

interpretation xio_loop: loop_invariant "xio_enabled w" "xio_handle L"
    "\<lambda>p. lib_ok L w \<and> xio_inv L w p" "xio_hangs L" "\<lambda>e p f. False"
  for L :: "'o xio_lib" and w
  by unfold_locales (auto simp: outcome_def dest: xio_inv_step)

lemma xio_run_inv: "xio_run L w p es q \<Longrightarrow> lib_ok L w \<Longrightarrow> xio_inv L w p \<Longrightarrow> xio_inv L w q"
  using xio_loop.run_inv by blast

lemma reads_run:
  assumes "lib_ok L w" "xio_inv L w p" "Rcvr c \<in> set (children p)"
  shows "\<exists>q. xio_run L w p (map (Received c) bss) q \<and> xio_inv L w q \<and> children q = children p"
proof (induction bss rule: rev_induct)
  case Nil
  then show ?case by (intro exI [of _ p]) (simp add: runs.stop assms(2))
next
  case (snoc bs bss)
  then obtain q where q: "xio_run L w p (map (Received c) bss) q" "xio_inv L w q"
    "children q = children p" by blast
  then have d: "Rcvr c \<in> set (children q)" using assms(3) by simp
  obtain m x' where "xio_received L c bs q = Some (Inr (q\<lparr>XTEXP := x', rcvrs := m\<rparr>))"
    "xio_inv L w (q\<lparr>XTEXP := x', rcvrs := m\<rparr>)"
    by (rule xio_received_ok [OF assms(1) q(2) d, of bs])
  moreover from this(1) have "xio_run L w p (map (Received c) (bss @ [bs])) (q\<lparr>XTEXP := x', rcvrs := m\<rparr>)"
    using runs.go [OF q(1), of "Received c bs"] d by simp
  ultimately show ?case using q(3) by auto
qed

section \<open>Properties\<close>

text \<open>
  C1: Safety of the whole program, when the memory that the exporter's uninitialised member
  \<open>client\<close> occupies holds the null pointer at the start (for other contents see
  \<open>uninitialised_client_faults\<close>). Whatever the loop delivers, in whatever order, after \<open>main\<close>
  has set the objects up (connections, reads cut anywhere, timeouts, closes, frees of receivers
  nobody holds, input from \<open>tm_ip_export\<close>, datagrams, progress of the output buffers): the next
  handler returns, without a failed assertion, a copy outside an array, a null pointer or a
  freed receiver. It also returns, with one exception: \<open>app_input\<close> of the exporter loops for ever
  when \<open>tm_ip_export\<close> sends it a packet that is not a control packet (if the recogniser presents
  that packet again). The receiver owed an acknowledge is in memory and holds the exporter's only
  reference, and no more is outstanding than the credit limit and one packet.
\<close>

theorem xiomas_never_faults:
  assumes "lib_ok L w" and "length circ0 = CIRC_BUFFER_SIZE"
    and "xio_run L w (xio_main L None circ0 tout uout st xout) es p" and "xio_enabled w e p"
  shows "(\<forall>f. xio_handle L e p \<noteq> Some (Inl f))
    \<and> (if \<exists>bs. e = Replied bs
            \<and> meets_other (serio_of L) ((xtexp_buf p)\<lparr>ibuf := ibuf (xtexp_buf p) @ bs\<rparr>)
       then finds_again (serio_of L) \<longrightarrow> xio_handle L e p = None
       else \<exists>p'. xio_handle L e p = Some (Inr p'))
    \<and> (\<forall>c. client (XTEXP p) = Some c \<longrightarrow> rcvrs p c \<noteq> None)
    \<and> (\<forall>c. refs (XTEXP p) c = (if client (XTEXP p) = Some c then 1 else 0))
    \<and> wf_ring (XTEXP p) \<and> outstanding_bytes (XTEXP p) \<le> 1999 + quantum (serio_of L)"
proof -
  have inv: "xio_inv L w p" by (rule xio_run_inv [OF assms(3,1) xio_main_inv [OF assms(1,2)]])
  note I = xio_invD [OF inv]
  have "\<forall>f. xio_handle L e p \<noteq> Some (Inl f)"
    using xio_loop.next_kept [OF assms(3) _ assms(4)] assms(1) xio_main_inv [OF assms(1,2)]
    by (fastforce simp: outcome_def)
  moreover have "if xio_hangs L e p then finds_again (serio_of L) \<longrightarrow> xio_handle L e p = None
      else \<exists>p'. xio_handle L e p = Some (Inr p')"
    using xio_hangs_None [OF assms(1) inv] xio_inv_step [OF assms(1) inv assms(4)] by auto
  ultimately show ?thesis
    using I(1,2,4) unfolding xio_hangs_def by (auto simp: xte_inv_def refs_balanced_def)
qed

section \<open>Witnesses\<close>

text \<open>A library, and the program with one connection.\<close>

definition plain_lib :: "byte list xio_lib" where
  "plain_lib = \<lparr>dasio_of = plain_dasio, serio_of = plain_serio, chan_of = open_chan,
     Fl_Timeout_of = 4, connect_of = (\<lambda>t. t), reset_of = (\<lambda>r. (True, r)),
     resume_of = (\<lambda>s. s\<lparr>cp := 0\<rparr>)\<rparr>"

lemma plain_lib_fields [simp]:
  "dasio_of plain_lib = plain_dasio" "serio_of plain_lib = plain_serio"
  "chan_of plain_lib = open_chan" "Fl_Timeout_of plain_lib = 4" "reset_of plain_lib r = (True, r)"
  "resume_of plain_lib s = s\<lparr>cp := 0\<rparr>"
  by (simp_all add: plain_lib_def)

lemma plain_lib_ok: "lib_ok plain_lib (\<lambda>out. out)"
  by (simp add: lib_ok_def)

lemma plain_lib_ready: "obuf_empty_op (chan_of plain_lib) out"
  by (simp add: open_chan_def)

abbreviation plain_main :: "byte list xio" where
  "plain_main \<equiv> xio_main plain_lib None (replicate 270000 0) [] [] Socket_connected []"

abbreviation plain_client :: "byte list xio" where
  "plain_client \<equiv> xio_new_client 0 False 0 [] plain_main"

lemma plain_client_run: "xio_run plain_lib (\<lambda>out. out) plain_main [Accepted 0 False 0 []] plain_client"
  by (rule runs_one) simp_all

lemma plain_client_fields:
  "rcvrs plain_client = [0 \<mapsto> (\<lparr>ibuf = [], cp = 0\<rparr>, xiomas_tcp_rcvr False 0 [])]"
  "XTEXP plain_client = xiomas_tcp_export None (replicate 270000 0) []"
  "contents (XTEXP plain_client) = []" "chan (XTEXP plain_client) = []"
  "xtexp_buf plain_client = \<lparr>ibuf = [], cp = 0\<rparr>" "Rcvr 0 \<in> set (children plain_client)"
  by (simp_all add: xio_new_client_def xio_add_child_def Let_def xtr_connected_def xio_main_def
      contents_def xiomas_tcp_export_def CIRC_BUFFER_SIZE_def)

lemma plain_client_inv: "xio_inv plain_lib (\<lambda>out. out) plain_client"
  using xio_run_inv [OF plain_client_run plain_lib_ok xio_main_inv [OF plain_lib_ok]]
  by (simp add: CIRC_BUFFER_SIZE_def)

text \<open>A packet of type 9 from \<open>tm_ip_export\<close> stops the program, an image packet does not.\<close>

theorem xiomas_never_faults_witness:
  "(\<exists>p'. xio_handle plain_lib (Received 0 image_packet) plain_client = Some (Inr p'))
    \<and> xio_handle plain_lib (Replied [0, 9, 1, 0, 0, 0, 42]) plain_client = None"
proof -
  have len: "length (replicate 270000 (0 :: byte)) = CIRC_BUFFER_SIZE" by (simp add: CIRC_BUFFER_SIZE_def)
  note safe = xiomas_never_faults [OF plain_lib_ok len plain_client_run]
  let ?s = "\<lparr>ibuf = [0, 9, 1, 0, 0, 0, 42], cp = 0\<rparr>"
  have "not_serio_pkt plain_serio ?s = Packet 9 1 [42] ?s" by code_simp
  then have "meets_other plain_serio ?s" by (rule meets_other.other [rotated]) (simp_all add: plain_serio_def)
  then show ?thesis
    using safe [of "Received 0 image_packet"] safe [of "Replied [0, 9, 1, 0, 0, 0, 42]"]
      plain_client_fields(5,6) by (simp add: xio_new_client_def xio_add_child_def Let_def)
qed

end
