(* ===== verification/XioEndToEnd.thy ===== *)
theory XioEndToEnd
  imports XioSystem
begin

text \<open>
  What the Xiomas program achieves from end to end: a packet that the instrument sends over a
  connection reaches \<open>tm_ip_export\<close> framed, in order and complete; what is queued drains as
  \<open>tm_ip_export\<close> acknowledges, and the instrument's receiver is then told. Last, what happens when
  the pointer the constructor leaves uninitialised is not null.
\<close>

section \<open>One connection from end to end\<close>

text \<open>What a packet of \<open>R\<close> bytes takes in the exporter's buffer, and what pieces take.\<close>

definition frames_size :: "serio \<Rightarrow> nat \<Rightarrow> nat" where
  "frames_size S R =
     R + ((R + MAX_SPKT_DATA_PER_SERIO_PKT - 1) div MAX_SPKT_DATA_PER_SERIO_PKT) * pkt_hdr_size S"

definition frames_len :: "serio \<Rightarrow> byte list list \<Rightarrow> nat" where
  "frames_len S ps = sum_list (map (\<lambda>p. pkt_hdr_size S + length p) ps)"

lemma frames_len_simps [simp]:
  "frames_len S [] = 0" "frames_len S (p # ps) = pkt_hdr_size S + length p + frames_len S ps"
  by (simp_all add: frames_len_def)

lemma frames_size_mono: "R \<le> R' \<Longrightarrow> frames_size S R \<le> frames_size S R'"
  unfolding frames_size_def by (intro add_mono mult_right_mono div_le_mono) auto

lemma has_room_iff: "has_room S L x \<longleftrightarrow> frames_size S L \<le> circ_space x"
  by (simp add: has_room_def frames_size_def)

lemma frames_size_step:
  assumes "n = piece_size R bs" "n \<noteq> 0"
  shows "pkt_hdr_size S + n + frames_size S (R - n) = frames_size S R"
proof -
  define P where "P = MAX_SPKT_DATA_PER_SERIO_PKT"
  have P: "P = 956" by (simp add: P_def MAX_SPKT_DATA_PER_SERIO_PKT_def)
  have n: "n = min P R" "0 < n" using assms by (auto simp: piece_size_def P_def split: if_splits)
  have "(R + P - 1) div P = (R - n + P - 1) div P + 1"
  proof (cases "R \<le> P")
    case True
    then have "n = R" "0 < R" using n by auto
    moreover have "(R + P - 1) div P = 1"
      using True \<open>0 < R\<close> P by (simp add: div_nat_eqI)
    ultimately show ?thesis by (simp add: P)
  next
    case False
    then have "n = P" "R + P - 1 = R - n + P - 1 + P" using n by auto
    then show ?thesis using P by simp
  qed
  moreover have "n \<le> R" using n by simp
  ultimately show ?thesis by (simp add: frames_size_def P_def [symmetric])
qed

lemma frames_of_pieces:
  "frames_len S (pieces R bs) + frames_size S (R - taken R bs) = frames_size S R"
proof (induction R bs rule: pieces.induct)
  case (1 R bs)
  define n where "n = piece_size R bs"
  show ?case
  proof (cases "n = 0")
    case True
    then show ?thesis by (simp add: n_def pieces_unfold taken_unfold)
  next
    case False
    have "n \<le> length bs" using piece_size_le(2) by (simp add: n_def)
    then show ?thesis
      using "1.IH" [folded n_def, OF False] frames_size_step [OF n_def False, of S] False
      by (simp add: pieces_unfold(2) [of R bs] taken_unfold(2) [of R bs] n_def [symmetric])
  qed
qed

text \<open>Forwarding pieces that fit before the end of the buffer puts their frames on the stream.\<close>

lemma forward_all_stream:
  assumes "xte_inv S C w x" and lrc: "lrc_first S" and "frames_len S ps \<le> tail_room x"
  shows "\<exists>x'. forward_all S C ps x = Some (Inr x') \<and> xte_inv S C w x'
    \<and> w (chan x') @ contents x' = w (chan x) @ contents x @ concat (map (sid_frame S) ps)
    \<and> tail_room x \<le> tail_room x' + frames_len S ps"
  using assms(1,3)
proof (induction ps arbitrary: x)
  case Nil
  then show ?case by simp
next
  case (Cons p ps)
  have wf: "wf_ring x" "appends C w" using Cons.prems(1) by (simp_all add: xte_inv_def)
  have room: "pkt_hdr_size S + length p \<le> tail_room x" using Cons.prems(2) by simp
  obtain x2 x1 k where x1: "xte_forward_packet S C p (length p) x = Some (Inr x1)"
    "drained S C w k x2 x1" "contents x2 = contents x @ sid_frame S p" "chan x2 = chan x"
    "tail_room x \<le> tail_room x1 + (pkt_hdr_size S + length p)"
    using forward_packet_ok [OF wf lrc room refl refl] unfolding sid_frame_def by metis
  have inv1: "xte_inv S C w x1"
    using forward_packet_safe [OF Cons.prems(1) lrc order.refl, of p] x1(1) by auto
  have st: "w (chan x1) @ contents x1 = w (chan x) @ contents x @ sid_frame S p"
    using drained_stream [OF x1(2)] x1(3,4) by simp
  have "frames_len S ps \<le> tail_room x1" using Cons.prems(2) x1(5) by simp
  from Cons.IH [OF inv1 this] obtain x' where x': "forward_all S C ps x1 = Some (Inr x')"
    "xte_inv S C w x'"
    "w (chan x') @ contents x' = w (chan x1) @ contents x1 @ concat (map (sid_frame S) ps)"
    "tail_room x1 \<le> tail_room x' + frames_len S ps"
    by blast
  have "w (chan x') @ contents x'
      = (w (chan x1) @ contents x1) @ concat (map (sid_frame S) ps)" using x'(3) by simp
  also have "\<dots> = w (chan x) @ contents x @ concat (map (sid_frame S) (p # ps))"
    unfolding st by simp
  finally show ?case using x1(1,5) x'(1,2,4) by simp
qed

text \<open>The scanner outside a packet: it logs nothing, or it is in a packet it accepted.\<close>

lemma xtr_scan_shape:
  "st \<noteq> xtr_mid_pkt \<Longrightarrow> xtr_scan st R bs = (log, st', R', left) \<Longrightarrow>
     (st' \<noteq> xtr_mid_pkt \<and> log = [])
     \<or> (st' = xtr_mid_pkt \<and> (\<exists>L cs. L \<le> MAX_SPKT_LENGTH + 1000
          \<and> map snd log = pieces L cs \<and> R' = L - taken L cs))"
proof (induction st R bs rule: xtr_scan.induct)
  case (1 st R bs)
  show ?case
  proof (cases "bs = []")
    case True
    then show ?thesis using "1.prems" by auto
  next
    case ne: False
    show ?thesis
    proof (cases st)
      case xtr_lost
      then show ?thesis
        using "1.IH"(4) [OF ne xtr_lost] "1.prems"(2)
        by (auto simp: xtr_scan_lost [of R bs] split: if_splits)
    next
      case xtr_idle
      consider (short) "length bs < xio_header_size"
        | (bad) "\<not> length bs < xio_header_size" "\<not> acceptable bs"
        | (wait) "\<not> length bs < xio_header_size" "acceptable bs" "piece_size (announced bs) bs = 0"
        | (commit) "\<not> length bs < xio_header_size" "acceptable bs"
            "piece_size (announced bs) bs \<noteq> 0"
        by linarith
      then show ?thesis
      proof cases
        case bad
        then show ?thesis
          using "1.IH"(1) [OF ne xtr_idle bad] "1.prems"(2) xtr_idle
          by (simp add: xtr_scan_idle(2))
      next
        case commit
        have "announced bs \<le> MAX_SPKT_LENGTH + 1000" using commit(2) by (simp add: acceptable_def)
        then show ?thesis
          using xtr_scan_commit [OF _ commit(2) refl commit(3), of R] commit(1) "1.prems"(2)
            xtr_idle length_pieces_step [OF refl commit(3)]
          by (auto simp: o_def intro!: exI [of _ "announced bs"] exI [of _ bs])
      qed (use "1.prems"(2) xtr_idle in \<open>auto simp: xtr_scan_idle\<close>)
    qed (use "1.prems"(1) in simp)
  qed
qed

text \<open>
  The state of a connection that has received \<open>bs\<close>, when the exporter had written or queued
  \<open>before\<close> as it began: the receiver is where the scanner is, the stream has grown by the
  frames of what was logged, and what is still to come of the packet fits. The library may start
  the next read from the first byte of the buffer again: that comes to the same (\<open>rescans\<close>).
\<close>

definition rescans :: "inbuf \<Rightarrow> 'o xtr \<Rightarrow> bool" where
  "rescans s r \<longleftrightarrow> cp s = 0 \<or> (rstate r = xtr_idle \<and> (\<forall>R. xtr_scan xtr_idle R (ibuf s)
     = ([], xtr_idle, bytes_remaining_in_packet r, drop (cp s) (ibuf s))))"

definition session_at ::
  "serio \<Rightarrow> ('o \<Rightarrow> byte list) \<Rightarrow> byte list \<Rightarrow> byte list \<Rightarrow> inbuf \<Rightarrow> 'o xtr \<Rightarrow> 'o xte \<Rightarrow> bool" where
  "session_at S w before bs s r x \<longleftrightarrow>
     (logged r, rstate r, bytes_remaining_in_packet r, drop (cp s) (ibuf s)) = xtr_scan xtr_lost 0 bs
     \<and> rescans s r
     \<and> w (chan x) @ contents x = before @ concat (map (sid_frame S) (map snd (logged r)))
     \<and> (if rstate r = xtr_mid_pkt
        then transmitting_current_packet r \<and> frames_size S (bytes_remaining_in_packet r) \<le> tail_room x
        else logged r = [] \<and> frames_size S (MAX_SPKT_LENGTH + 1000) \<le> tail_room x)"

lemma request_ack_ring [simp]:
  "contents (request_ack c x) = contents x" "tail_room (request_ack c x) = tail_room x"
  by (rule wf_ring_fields; simp)+

lemma taken_le: "taken L cs \<le> L"
  using concat_pieces by blast

lemma taken_eq: "length (concat (pieces L cs)) = taken L cs"
  by (simp add: taken_def)

text \<open>A read from where \<open>cp\<close> was left or from the start of the buffer.\<close>

lemma scanned_resume:
  assumes "rescans s r" and "s0 = s \<or> s0 = s\<lparr>cp := 0\<rparr>"
    and "scanned S C c r (drop (cp s0) (ibuf s) @ bs) x s' r' x'"
  shows "scanned S C c r (drop (cp s) (ibuf s) @ bs) x s' r' x'"
proof (cases "cp s0 = cp s")
  case True
  then show ?thesis using assms(3) by simp
next
  case False
  then have "cp s0 = 0" "rstate r = xtr_idle" "\<And>R. xtr_scan xtr_idle R (ibuf s)
      = ([], xtr_idle, bytes_remaining_in_packet r, drop (cp s) (ibuf s))"
    using assms(1,2) by (auto simp: rescans_def)
  then show ?thesis
    using assms(3) scanned_transfer [of S C c r "ibuf s @ bs" x s' r' x' r "drop (cp s) (ibuf s) @ bs"]
    by (simp add: xtr_scan_append [of _ _ "ibuf s"])
qed

lemma rescans_read:
  assumes "rescans s r" and s0: "s0 = s \<or> s0 = s\<lparr>cp := 0\<rparr>"
    and run: "scanned S C c r (drop (cp s0) (ibuf s) @ bs) x s' r' x'"
    and "cp s' = 0 \<or> waits_at (ibuf s @ bs) s' r'"
  shows "rescans s' r'"
proof (cases "cp s' = 0")
  case True
  then show ?thesis by (simp add: rescans_def)
next
  case False
  then have "waits_at (ibuf s @ bs) s' r'" using assms(4) by simp
  then have s': "ibuf s' = ibuf s @ bs" "rstate r' = xtr_idle"
    "xio_header_size \<le> length (drop (cp s') (ibuf s'))"
    unfolding waits_at_def by blast+
  obtain log where t: "xtr_scan (rstate r) (bytes_remaining_in_packet r) (drop (cp s0) (ibuf s) @ bs)
      = (log, xtr_idle, bytes_remaining_in_packet r', drop (cp s') (ibuf s'))"
    using run s'(2) by (cases "xtr_scan (rstate r) (bytes_remaining_in_packet r)
        (drop (cp s0) (ibuf s) @ bs)") (auto simp: scanned_def Let_def)
  have st: "rstate r \<noteq> xtr_mid_pkt" using t by (auto simp: xtr_scan_mid)
  then have "log = []" using xtr_scan_shape [OF st t] by auto
  then have t: "xtr_scan (rstate r) (bytes_remaining_in_packet r) (drop (cp s0) (ibuf s) @ bs)
      = ([], xtr_idle, bytes_remaining_in_packet r', drop (cp s') (ibuf s'))" using t by simp
  have "xtr_scan xtr_idle R (ibuf s') = ([], xtr_idle, bytes_remaining_in_packet r',
      drop (cp s') (ibuf s'))" for R
  proof (cases "cp s0 = 0")
    case True
    then show ?thesis using xtr_scan_again [OF t st s'(3), of R] s'(1) by simp
  next
    case False
    then have "s0 = s" "rstate r = xtr_idle" "xtr_scan xtr_idle R (ibuf s)
        = ([], xtr_idle, bytes_remaining_in_packet r, drop (cp s) (ibuf s))"
      using s0 assms(1) by (auto simp: rescans_def)
    then show ?thesis using t by (simp add: s'(1) xtr_scan_append [of _ _ "ibuf s"])
  qed
  then show ?thesis using s'(2) by (simp add: rescans_def)
qed

lemma session_read:
  assumes "session_at S w before bs s r x" and inv: "xte_inv S C w x" and lrc: "lrc_first S"
    and run: "scanned S C c r (drop (cp s) (ibuf s) @ bs') x s' r' x'" and again: "rescans s' r'"
  shows "session_at S w before (bs @ bs') s' r' x'"
proof -
  define u where "u = drop (cp s) (ibuf s)"
  have sc: "xtr_scan xtr_lost 0 bs = (logged r, rstate r, bytes_remaining_in_packet r, u)"
    using assms(1) by (simp add: session_at_def u_def)
  obtain log st' R' left where t2: "xtr_scan (rstate r) (bytes_remaining_in_packet r) (u @ bs')
      = (log, st', R', left)" by (cases "xtr_scan (rstate r) (bytes_remaining_in_packet r) (u @ bs')")
  have sc': "xtr_scan xtr_lost 0 (bs @ bs') = (logged r @ log, st', R', left)"
    using sc t2 by (simp add: xtr_scan_append [of _ _ bs bs'])
  have r': "logged r' = logged r @ log" "rstate r' = st'" "bytes_remaining_in_packet r' = R'"
    "drop (cp s') (ibuf s') = left"
    using run t2 by (simp_all add: scanned_def Let_def u_def [symmetric])
  define tcp where "tcp = (if rstate r = xtr_mid_pkt then transmitting_current_packet r
      else has_room S (R' + length (concat (map snd log))) x)"
  obtain x1 where x1: "st' = xtr_mid_pkt \<longrightarrow> transmitting_current_packet r' = tcp"
    "forward_all S C (if tcp then map snd log else []) x = Some (Inr x1)"
    "x' = x1 \<or> x' = request_ack c x1"
    using run t2 r'(2,3) unfolding scanned_def Let_def u_def [symmetric] tcp_def
    by (metis (no_types, lifting) fst_conv)
  have wf: "wf_ring x" using inv by (simp add: xte_inv_def)
  have fits: "(if st' = xtr_mid_pkt
      then tcp \<and> frames_len S (map snd log) + frames_size S R' \<le> tail_room x
      else log = [] \<and> logged r = [] \<and> frames_size S (MAX_SPKT_LENGTH + 1000) \<le> tail_room x)"
  proof (cases "rstate r = xtr_mid_pkt")
    case True
    have mid: "transmitting_current_packet r"
      "frames_size S (bytes_remaining_in_packet r) \<le> tail_room x"
      using assms(1) True by (simp_all add: session_at_def)
    have "map snd log = pieces (bytes_remaining_in_packet r) (u @ bs')" "st' = xtr_mid_pkt"
      "R' = bytes_remaining_in_packet r - taken (bytes_remaining_in_packet r) (u @ bs')"
      using t2 True by (auto simp: xtr_scan_mid o_def)
    then show ?thesis
      using mid True frames_of_pieces [of S "bytes_remaining_in_packet r" "u @ bs'"]
      by (simp add: tcp_def)
  next
    case False
    have out: "logged r = []" "frames_size S (MAX_SPKT_LENGTH + 1000) \<le> tail_room x"
      using assms(1) False by (simp_all add: session_at_def)
    from xtr_scan_shape [OF False t2] show ?thesis
    proof (elim disjE conjE exE)
      fix L cs
      assume L: "st' = xtr_mid_pkt" "L \<le> MAX_SPKT_LENGTH + 1000" "map snd log = pieces L cs"
        "R' = L - taken L cs"
      have "R' + length (concat (map snd log)) = L"
        using L(3,4) taken_le [of L cs] by (simp add: taken_eq)
      moreover have "frames_size S L \<le> tail_room x"
        using frames_size_mono [OF L(2), of S] out(2) by simp
      ultimately show ?thesis
        using L(1,3,4) False frames_of_pieces [of S L cs] tail_room_le_space [OF wf]
        by (simp add: tcp_def has_room_iff)
    qed (use out in simp)
  qed
  have "(if tcp then map snd log else []) = map snd log" using fits by (auto split: if_splits)
  moreover have "frames_len S (map snd log) \<le> tail_room x" using fits by (auto split: if_splits)
  ultimately have st: "w (chan x1) @ contents x1
      = w (chan x) @ contents x @ concat (map (sid_frame S) (map snd log))"
    "tail_room x \<le> tail_room x1 + frames_len S (map snd log)"
    using forward_all_stream [OF inv lrc, of "map snd log"] x1(2) by auto
  have "w (chan x) @ contents x = before @ concat (map (sid_frame S) (map snd (logged r)))"
    using assms(1) by (simp add: session_at_def)
  then have stream: "w (chan x1) @ contents x1
      = before @ concat (map (sid_frame S) (map snd (logged r')))"
    using st(1) r'(1) by (simp only: append_assoc [symmetric] map_append concat_append)
  have same: "chan x' = chan x1" "contents x' = contents x1" "tail_room x' = tail_room x1"
    using x1(3) by auto
  have room: "(if st' = xtr_mid_pkt
      then transmitting_current_packet r' \<and> frames_size S R' \<le> tail_room x1
      else logged r @ log = [] \<and> frames_size S (MAX_SPKT_LENGTH + 1000) \<le> tail_room x1)"
    using fits st(2) x1(1) by (simp split: if_splits)
  show ?thesis
    unfolding session_at_def same
    by (intro conjI stream again) (use r' sc' room in simp_all)
qed

lemma session_keep:
  assumes "session_at S w before bs s r x"
    and "logged r' = logged r" "rstate r' = rstate r"
      "bytes_remaining_in_packet r' = bytes_remaining_in_packet r"
      "transmitting_current_packet r' = transmitting_current_packet r"
    and "w (chan x') @ contents x' = w (chan x) @ contents x" "tail_room x \<le> tail_room x'"
  shows "session_at S w before bs s r' x'"
  using assms by (auto simp: session_at_def rescans_def)

text \<open>
  The events of a session: all but reads of other receivers, and timeout and deletion of this one.
\<close>

fun session_event :: "nat \<Rightarrow> 'o xio_event \<Rightarrow> bool" where
  "session_event c (Received d bs) \<longleftrightarrow> d = c"
| "session_event c (Accepted d tcp0 flags0 out) \<longleftrightarrow> True"
| "session_event c (Timed_out d) \<longleftrightarrow> d \<noteq> c"
| "session_event c (Closed d) \<longleftrightarrow> True"
| "session_event c (Released d) \<longleftrightarrow> d \<noteq> c"
| "session_event c (Replied bs) \<longleftrightarrow> True"
| "session_event c (Datagram bs) \<longleftrightarrow> True"
| "session_event c (Udp_replied bs) \<longleftrightarrow> True"
| "session_event c (Progressed ch out) \<longleftrightarrow> True"

fun received :: "'o xio_event list \<Rightarrow> byte list" where
  "received [] = []"
| "received (Received c bs # es) = bs @ received es"
| "received (_ # es) = received es"

lemma received_append [simp]: "received (es @ ds) = received es @ received ds"
  by (induction es rule: received.induct) simp_all

lemma session_step:
  assumes lib: "lib_ok L w" and inv: "xio_inv L w p" and en: "xio_enabled w e p"
    and ev: "session_event c e" and c: "rcvrs p c = Some (s, r)"
    and at: "session_at (serio_of L) w before bs s r (XTEXP p)"
    and run: "xio_handle L e p = Some (Inr p')"
  shows "\<exists>s' r'. rcvrs p' c = Some (s', r')
    \<and> session_at (serio_of L) w before (bs @ received [e]) s' r' (XTEXP p')"
proof (cases e)
  case (Received d bs')
  then have d: "Rcvr c \<in> set (children p)" "e = Received c bs'" using ev en by simp_all
  obtain s1 r1 s' r' x' cs where step: "rcvrs p c = Some (s1, r1)"
    "scanned (serio_of L) (chan_of L) c r1 (drop (cp (resume_of L s1)) (ibuf s1) @ bs') (XTEXP p) s' r' x'"
    "cp s' = 0 \<or> waits_at (ibuf s1 @ bs') s' r'"
    "xio_received L c bs' p = Some (Inr (p\<lparr>XTEXP := x',
       rcvrs := notified (Fl_Timeout_of L) cs ((rcvrs p)(c \<mapsto> (s', r')))\<rparr>))"
    "cs \<subseteq> set_option (client (XTEXP p)) - {c}"
    by (rule xio_received_ok [OF lib inv d(1)])
  have eq: "s1 = s" "r1 = r" using step(1) c by simp_all
  have "lrc_first (serio_of L)" using lib by (simp add: lib_ok_def link_ok_def)
  have "rescans s r" using at by (simp add: session_at_def)
  note again = this resume_ok(1) [OF lib] step(2) [unfolded eq]
  from session_read [OF at xio_invD(1) [OF inv] \<open>lrc_first (serio_of L)\<close> scanned_resume [OF again]
      rescans_read [OF again step(3) [unfolded eq]]]
  have "session_at (serio_of L) w before (bs @ bs') s' r' x'" .
  then show ?thesis using run d(2) step(4,5) by (auto simp: notified_def)
next
  case (Replied bs')
  obtain s' x' where step: "xio_replied L bs' p = Some (Inr (p\<lparr>XTEXP := x', xtexp_buf := s',
      rcvrs := notified (Fl_Timeout_of L) (set (new_acks (XTEXP p) x')) (rcvrs p)\<rparr>))"
    "ack_promise w (XTEXP p) x'"
    by (rule xio_replied_ok [OF lib inv, of bs']) (use run Replied in simp)
  then show ?thesis
    using run Replied c session_keep [OF at, where x' = x']
    by (auto simp: notified_def ack_promise_def)
next
  case (Datagram bs')
  obtain r' x' where "xio_handle L e p = Some (Inr (p\<lparr>XURX := r', XUEXP := x'\<rparr>))"
    using xio_datagram_ok [OF lib inv, of bs'] Datagram by metis
  then show ?thesis using run at c Datagram by auto
next
  case (Udp_replied bs')
  then show ?thesis using run at c by auto
next
  case (Progressed ch out)
  then show ?thesis
    using run en c session_keep [OF at, where x' = "XTEXP p"]
      session_keep [OF at, of r "(XTEXP p)\<lparr>chan := out\<rparr>"]
    by (cases ch) (auto simp: chan_at_def wf_ring_cong at)
next
  case (Accepted d tcp0 flags0 out)
  then show ?thesis
    using run en c at by (auto simp: xio_new_client_def xio_add_child_def Let_def)
next
  case (Timed_out d)
  then show ?thesis
    using run ev c at by (auto simp: xio_timed_out_def Let_def split: option.splits prod.splits)
qed (use run ev c at in auto)

text \<open>A session is a loop that simulates the bytes received so far.\<close>

definition session_rel ::
  "'o xio_lib \<Rightarrow> ('o \<Rightarrow> byte list) \<Rightarrow> nat \<Rightarrow> byte list \<Rightarrow> byte list \<Rightarrow> 'o xio \<Rightarrow> bool" where
  "session_rel L w c before bs p \<longleftrightarrow> lib_ok L w \<and> xio_inv L w p
     \<and> (\<exists>s r. rcvrs p c = Some (s, r) \<and> session_at (serio_of L) w before bs s r (XTEXP p))"

interpretation session: loop_simulation "\<lambda>e p. session_event c e \<and> xio_enabled w e p" "xio_handle L"
    "\<lambda>e bs. bs @ received [e]" "session_rel L w c before" "xio_hangs L" "\<lambda>e p f. False"
  for L :: "'o xio_lib" and w c before
proof
  fix bs p e
  assume rel: "session_rel L w c before bs p" and en: "session_event c e \<and> xio_enabled w e p"
  then obtain s r where I: "lib_ok L w" "xio_inv L w p" "rcvrs p c = Some (s, r)"
    "session_at (serio_of L) w before bs s r (XTEXP p)" by (auto simp: session_rel_def)
  show "outcome (xio_hangs L e p) (xio_handle L e p) (\<lambda>f. False)
      (session_rel L w c before (bs @ received [e]))"
  proof (cases "xio_handle L e p = None")
    case True
    then have "xio_hangs L e p"
      using xio_inv_step [OF I(1,2), of e] en by (cases "xio_hangs L e p") auto
    with True show ?thesis by (simp add: outcome_def)
  next
    case False
    then obtain p' where p': "xio_handle L e p = Some (Inr p')" "xio_inv L w p'"
      using xio_inv_step [OF I(1,2)] en by blast
    then have "session_rel L w c before (bs @ received [e]) p'"
      using session_step [OF I(1,2) _ _ I(3,4) p'(1)] en I(1) by (simp add: session_rel_def)
    with p'(1) show ?thesis by (simp add: outcome_def)
  qed
qed

lemma fold_received: "fold (\<lambda>e bs. bs @ received [e]) es bs = bs @ received es"
  by (induction es arbitrary: bs) (simp, metis append.assoc append_Cons append_Nil fold_simps(2) received_append)

lemma session_run:
  assumes "xio_run L w p es q" and "lib_ok L w" and "xio_inv L w p"
    and "rcvrs p c = Some (s, r)" and "session_at (serio_of L) w before [] s r (XTEXP p)"
    and "\<forall>e \<in> set es. session_event c e"
  shows "\<exists>s' r'. rcvrs q c = Some (s', r')
    \<and> session_at (serio_of L) w before (received es) s' r' (XTEXP q)"
proof -
  have "session_rel L w c before [] p" using assms(2-5) by (simp add: session_rel_def)
  from session.run_related [OF runs_only [OF assms(1,6)] this]
  show ?thesis by (simp add: fold_received session_rel_def)
qed

section \<open>Draining the queue by acknowledges\<close>

text \<open>
  The other side of the link: \<open>enc n\<close> is the packet that acknowledges \<open>n\<close> bytes, as the
  recogniser of the library presents it.
\<close>

definition encodes_acks :: "serio \<Rightarrow> (nat \<Rightarrow> byte list) \<Rightarrow> nat \<Rightarrow> bool" where
  "encodes_acks S enc N \<longleftrightarrow> (\<forall>n \<le> N. \<exists>len payload.
     not_serio_pkt S \<lparr>ibuf = enc n, cp = 0\<rparr>
       = Packet (pkt_type_CTRL S) len payload \<lparr>ibuf = enc n, cp = 0\<rparr>
     \<and> unat len = ctrl_payload_size S \<and> length (enc n) = pkt_hdr_size S + unat len
     \<and> ctrl_subtype S payload = ctrl_subtype_ACK S \<and> ctrl_length S payload = n)"

lemma ack_input:
  assumes "consumes D" "reports_only D" "presents_packets S" "encodes_acks S enc N" "n \<le> N"
    and "xte_on_ack S C n x = Some (Inr x')"
  shows "xte_app_input D S C \<lparr>ibuf = enc n, cp = 0\<rparr> x = Some (Inr (\<lparr>ibuf = [], cp = 0\<rparr>, x'))"
proof -
  obtain len payload where p: "not_serio_pkt S \<lparr>ibuf = enc n, cp = 0\<rparr>
       = Packet (pkt_type_CTRL S) len payload \<lparr>ibuf = enc n, cp = 0\<rparr>"
    "unat len = ctrl_payload_size S" "length (enc n) = pkt_hdr_size S + unat len"
    "ctrl_subtype S payload = ctrl_subtype_ACK S" "ctrl_length S payload = n"
    using assms(4,5) unfolding encodes_acks_def by blast
  have ok: "report_ok_op D (length (enc n)) \<lparr>ibuf = enc n, cp = 0\<rparr> = \<lparr>ibuf = [], cp = 0\<rparr>"
    using assms(1) by (simp add: consumes_def consumed_def)
  have pos: "0 < pkt_hdr_size S" using assms(3) by (simp add: presents_packets_def)
  then have "enc n \<noteq> []" using p(3) by auto
  then have "xte_app_input D S C \<lparr>ibuf = enc n, cp = 0\<rparr> x
      = ctrl_input D S outstanding_bytes (xte_on_ack S C) \<lparr>ibuf = [], cp = 0\<rparr> x'"
    using p assms(2,6) ok pos unfolding xte_app_input_def
    by (subst ctrl_input.simps) (simp add: reports_only_def Let_def)
  then show ?thesis by (subst (asm) ctrl_input.simps) simp
qed

text \<open>An acknowledge of everything outstanding lets 2000 bytes go, or all there are.\<close>

lemma full_ack:
  assumes inv: "xte_inv S C w x" and ready: "\<And>out. obuf_empty_op C out"
  obtains x' k where "xte_on_ack S C (outstanding_bytes x) x = Some (Inr x')"
    "drained S C w k (xte_ack (outstanding_bytes x) x) x'"
    "length (contents x') \<le> length (contents x) - 2000"
proof -
  let ?y = "xte_ack (outstanding_bytes x) x"
  have wf: "wf_ring ?y" "appends C w" "outstanding_bytes x < 2 ^ 32"
    using inv by (simp_all add: xte_inv_def)
  obtain x' k where x': "process_queue S C ?y = Some (Inr x')" "drained S C w k ?y x'"
    using process_queue_ok [OF wf(1,2)] by blast
  have "outstanding_bytes x' = k" "contents x' = drop k (contents x)"
    using x'(2) xte_ack_outstanding [OF wf(3), of "outstanding_bytes x"]
    by (simp_all add: drained_def)
  moreover have "2000 \<le> outstanding_bytes x'" if "contents x' \<noteq> []"
    using drained_bookkeeping(2) [OF x'(2) that] ready by (simp add: xte_CTS_def)
  ultimately have "length (contents x') \<le> length (contents x) - 2000"
    by (cases "contents x' = []") auto
  with that x' show thesis by (simp add: xte_on_ack_def)
qed

text \<open>\<open>tm_ip_export\<close> acknowledges all that is outstanding, \<open>k\<close> times.\<close>

fun acknowledge ::
  "'o xio_lib \<Rightarrow> (nat \<Rightarrow> byte list) \<Rightarrow> nat \<Rightarrow> 'o xio \<Rightarrow> (fault + 'o xio) option" where
  "acknowledge L enc 0 p = Some (Inr p)"
| "acknowledge L enc (Suc k) p =
     (case xio_handle L (Replied (enc (outstanding_bytes (XTEXP p)))) p of
        Some (Inr p) \<Rightarrow> acknowledge L enc k p | other \<Rightarrow> other)"

lemma replied_full_ack:
  assumes lib: "lib_ok L w" and inv: "xio_inv L w p"
    and ready: "\<And>out. obuf_empty_op (chan_of L) out"
    and enc: "encodes_acks (serio_of L) enc (1999 + quantum (serio_of L))"
    and buf: "xtexp_buf p = \<lparr>ibuf = [], cp = 0\<rparr>"
  obtains p' where "xio_handle L (Replied (enc (outstanding_bytes (XTEXP p)))) p = Some (Inr p')"
    "xio_inv L w p'" "xtexp_buf p' = \<lparr>ibuf = [], cp = 0\<rparr>"
    "w (chan (XTEXP p')) @ contents (XTEXP p') = w (chan (XTEXP p)) @ contents (XTEXP p)"
    "length (contents (XTEXP p')) \<le> length (contents (XTEXP p)) - 2000"
    "if contents (XTEXP p') = [] then client (XTEXP p') = None
       \<and> rcvrs p' = notified (Fl_Timeout_of L) (set_option (client (XTEXP p))) (rcvrs p)
     else client (XTEXP p') = client (XTEXP p) \<and> rcvrs p' = rcvrs p"
proof -
  note I = xio_invD [OF inv]
  let ?n = "outstanding_bytes (XTEXP p)"
  have D: "consumes (dasio_of L)" "reports_only (dasio_of L)" "presents_packets (serio_of L)"
    using lib by (simp_all add: lib_ok_def link_ok_def)
  have n: "?n \<le> 1999 + quantum (serio_of L)" using I(1) by (simp add: xte_inv_def)
  obtain x' k where x': "xte_on_ack (serio_of L) (chan_of L) ?n (XTEXP p) = Some (Inr x')"
    "drained (serio_of L) (chan_of L) w k (xte_ack ?n (XTEXP p)) x'"
    "length (contents x') \<le> length (contents (XTEXP p)) - 2000"
    using full_ack [OF I(1) ready] by blast
  have upd: "(xtexp_buf p)\<lparr>ibuf := ibuf (xtexp_buf p) @ enc ?n\<rparr> = \<lparr>ibuf = enc ?n, cp = 0\<rparr>"
    by (simp add: buf)
  let ?q = "p\<lparr>XTEXP := x', xtexp_buf := \<lparr>ibuf = [], cp = 0\<rparr>,
      rcvrs := notified (Fl_Timeout_of L) (set (new_acks (XTEXP p) x')) (rcvrs p)\<rparr>"
  have run: "xte_app_input (dasio_of L) (serio_of L) (chan_of L)
      ((xtexp_buf p)\<lparr>ibuf := ibuf (xtexp_buf p) @ enc ?n\<rparr>) (XTEXP p)
      = Some (Inr (\<lparr>ibuf = [], cp = 0\<rparr>, x'))"
    unfolding upd by (rule ack_input [OF D enc n x'(1)])
  have kept: "ack_kept (XTEXP p) x'"
    using drained_ack_kept [OF x'(2)] ack_kept_cong(1) [of "xte_ack ?n (XTEXP p)" "XTEXP p" x']
    by simp
  have "set (new_acks (XTEXP p) x') \<subseteq> dom (rcvrs p)"
    using new_acks_kept [OF kept] I(4) by blast
  then have res: "xio_handle L (Replied (enc ?n)) p = Some (Inr ?q)"
    using run by (simp add: xio_replied_def notify_eq)
  have "\<exists>p'. xio_handle L (Replied (enc ?n)) p = Some (Inr p') \<and> xio_inv L w p'"
    using xio_replied_ok [OF lib inv, of "enc ?n"] res by (metis option.distinct(1) xio_handle.simps(6))
  then have "xio_inv L w ?q" unfolding res by blast
  moreover have "if contents x' = [] then client x' = None
       \<and> set (new_acks (XTEXP p) x') = set_option (client (XTEXP p))
     else client x' = client (XTEXP p) \<and> set (new_acks (XTEXP p) x') = {}"
    using x'(2) by (auto simp: drained_def Let_def ack_client_def new_acks_def split: option.splits)
  ultimately show thesis
    using that [OF res] drained_stream [OF x'(2)] x'(3) by (auto split: if_splits)
qed

lemma acknowledge_ok:
  assumes lib: "lib_ok L w" and ready: "\<And>out. obuf_empty_op (chan_of L) out"
    and enc: "encodes_acks (serio_of L) enc (1999 + quantum (serio_of L))"
  shows "xio_inv L w p \<Longrightarrow> xtexp_buf p = \<lparr>ibuf = [], cp = 0\<rparr> \<Longrightarrow>
    \<exists>p'. acknowledge L enc k p = Some (Inr p')
    \<and> w (chan (XTEXP p')) @ contents (XTEXP p') = w (chan (XTEXP p)) @ contents (XTEXP p)
    \<and> (length (contents (XTEXP p)) < 2000 * k \<longrightarrow> contents (XTEXP p') = []
         \<and> client (XTEXP p') = None
         \<and> rcvrs p' = notified (Fl_Timeout_of L) (set_option (client (XTEXP p))) (rcvrs p))"
proof (induction k arbitrary: p)
  case 0
  then show ?case by simp
next
  case (Suc k)
  obtain p1 where p1: "xio_handle L (Replied (enc (outstanding_bytes (XTEXP p)))) p = Some (Inr p1)"
    "xio_inv L w p1" "xtexp_buf p1 = \<lparr>ibuf = [], cp = 0\<rparr>"
    "w (chan (XTEXP p1)) @ contents (XTEXP p1) = w (chan (XTEXP p)) @ contents (XTEXP p)"
    "length (contents (XTEXP p1)) \<le> length (contents (XTEXP p)) - 2000"
    "if contents (XTEXP p1) = [] then client (XTEXP p1) = None
       \<and> rcvrs p1 = notified (Fl_Timeout_of L) (set_option (client (XTEXP p))) (rcvrs p)
     else client (XTEXP p1) = client (XTEXP p) \<and> rcvrs p1 = rcvrs p"
    by (rule replied_full_ack [OF lib Suc.prems(1) ready enc Suc.prems(2)])
  obtain p' where p': "acknowledge L enc k p1 = Some (Inr p')"
    "w (chan (XTEXP p')) @ contents (XTEXP p') = w (chan (XTEXP p1)) @ contents (XTEXP p1)"
    "length (contents (XTEXP p1)) < 2000 * k \<longrightarrow> contents (XTEXP p') = []
         \<and> client (XTEXP p') = None
         \<and> rcvrs p' = notified (Fl_Timeout_of L) (set_option (client (XTEXP p1))) (rcvrs p1)"
    using Suc.IH [OF p1(2,3)] by blast
  have run: "acknowledge L enc (Suc k) p = Some (Inr p')" using p1(1) p'(1) by simp
  show ?case
  proof (cases "k = 0")
    case True
    then have "p' = p1" using p'(1) by simp
    then show ?thesis using run p1(4,5,6) True by auto
  next
    case False
    have "length (contents (XTEXP p1)) < 2000 * k" if "length (contents (XTEXP p)) < 2000 * Suc k"
      using p1(5) that False by simp
    then show ?thesis
      using run p1(4,6) p'(2,3) False by (cases "contents (XTEXP p1) = []") auto
  qed
qed

lemma fresh_session:
  assumes "xte_inv S C w x" and "contents x = []" and "pkt_hdr_size S \<le> 248"
    and "r = xiomas_tcp_rcvr tcp0 flags0 out" "s = \<lparr>ibuf = [], cp = 0\<rparr>"
  shows "session_at S w (w (chan x)) [] s r x"
proof -
  have wf: "wf_ring x" "circ_size x = 270000"
    using assms(1) by (simp_all add: xte_inv_def CIRC_BUFFER_SIZE_def)
  then have "tail_room x = 270000"
    using contents_empty_iff [OF wf(1)] assms(2) by (simp add: tail_room_def)
  moreover have "frames_size S (MAX_SPKT_LENGTH + 1000) = 214183 + 225 * pkt_hdr_size S"
    by (simp add: frames_size_def MAX_SPKT_LENGTH_def MAX_SPKT_DATA_PER_SERIO_PKT_def)
  ultimately show ?thesis
    using assms(2-) by (simp add: session_at_def rescans_def xiomas_tcp_rcvr_def)
qed

section \<open>Properties\<close>

text \<open>
  C2: An image reaches the link intact. It is the first packet on its connection, the only one
  that a receiver takes (\<open>receiver_stops_after_packet\<close>): the receiver is new, the exporter's queue
  is empty, and \<open>client\<close> was null at the start of the program. Bytes without a \<open>$\<close>, a valid packet
  and anything else arrive, cut into reads in any way and interleaved in any way with acknowledges,
  datagrams, progress of the sockets, new connections, and closes, timeouts and deletions of other
  receivers; only reads of other receivers, whose packets would share the queue, and the timeout
  of this one, which resets it, are left out. What
  has been written to \<open>tm_ip_export\<close> and what is still queued then continue the stream by exactly
  the packet, cut into pieces of 1 to 956 bytes, each after its \<open>serio_pkt\<close> header, whose bytes
  add up to 0 modulo 256; the same pieces are logged. (With 248 bytes or less of header per piece
  the largest packet the receiver accepts fits the buffer.)
\<close>

theorem image_delivered:
  assumes "lib_ok L w" and "length circ0 = CIRC_BUFFER_SIZE" and "pkt_hdr_size (serio_of L) \<le> 248"
    and "xio_run L w (xio_main L None circ0 tout uout st xout) es0 p"
    and "rcvrs p c = Some (\<lparr>ibuf = [], cp = 0\<rparr>, xiomas_tcp_rcvr tcp0 flags0 out)"
    and "contents (XTEXP p) = []"
    and "xio_run L w p es q" and "\<forall>e \<in> set es. session_event c e"
    and "received es = junk @ pkt @ rest" and "0x24 \<notin> set junk"
    and "xhgValidateHeader (hdr_of_bytes pkt) (word_of_nat (length pkt))"
    and "xio_header_size \<le> length pkt" and "length pkt \<le> MAX_SPKT_LENGTH + 1000"
  shows "\<exists>s r ps. rcvrs q c = Some (s, r) \<and> map snd (logged r) = ps \<and> concat ps = pkt
    \<and> (\<forall>d \<in> set ps. 0 < length d \<and> length d \<le> 956
         \<and> drop (pkt_hdr_size (serio_of L)) (sid_frame (serio_of L) d) = d
         \<and> sum_list (take (pkt_hdr_size (serio_of L)) (sid_frame (serio_of L) d)) = 0)
    \<and> drop (cp s) (ibuf s) = rest
    \<and> w (chan (XTEXP q)) @ contents (XTEXP q)
      = w (chan (XTEXP p)) @ concat (map (sid_frame (serio_of L)) ps)"
proof -
  have inv: "xio_inv L w p" by (rule xio_run_inv [OF assms(4,1) xio_main_inv [OF assms(1,2)]])
  have "session_at (serio_of L) w (w (chan (XTEXP p))) [] \<lparr>ibuf = [], cp = 0\<rparr>
      (xiomas_tcp_rcvr tcp0 flags0 out) (XTEXP p)"
    by (rule fresh_session [OF xio_invD(1) [OF inv] assms(6,3) refl refl])
  then obtain s r where q: "rcvrs q c = Some (s, r)"
    "session_at (serio_of L) w (w (chan (XTEXP p))) (received es) s r (XTEXP q)"
    using session_run [OF assms(7,1) inv assms(5) _ assms(8)] by blast
  obtain d ds where scan: "xtr_scan xtr_lost 0 (junk @ pkt @ rest)
      = ((first_mode pkt, d) # map (Pair log_curfile) ds, xtr_mid_pkt, 0, rest)"
    "d # ds = pieces (length pkt) (pkt @ rest)"
    by (rule xtr_scan_first_packet [OF assms(10-13)])
  have log: "map snd (logged r) = d # ds" "drop (cp s) (ibuf s) = rest"
    using q(2) by (auto simp: session_at_def assms(9) scan(1) o_def)
  have "concat (d # ds) = pkt"
    using pieces_whole [of "length pkt" "pkt @ rest"] scan(2) by simp
  moreover have "lrc_first (serio_of L)" using assms(1) by (simp add: lib_ok_def link_ok_def)
  then have "\<forall>e \<in> set (d # ds). 0 < length e \<and> length e \<le> 956
      \<and> drop (pkt_hdr_size (serio_of L)) (sid_frame (serio_of L) e) = e
      \<and> sum_list (take (pkt_hdr_size (serio_of L)) (sid_frame (serio_of L) e)) = 0"
    using pieces_sizes [of _ "length pkt" "pkt @ rest"] scan(2) sid_frame_parts
    by (simp add: MAX_SPKT_DATA_PER_SERIO_PKT_def)
  moreover have "w (chan (XTEXP q)) @ contents (XTEXP q)
      = w (chan (XTEXP p)) @ concat (map (sid_frame (serio_of L)) (map snd (logged r)))"
    using q(2) by (simp add: session_at_def)
  ultimately show ?thesis using q(1) log by metis
qed

text \<open>
  C4: The queue drains. While the link takes bytes at once, \<open>tm_ip_export\<close> need only acknowledge
  what is outstanding, once for every 2000 bytes queued and once more: then everything queued
  has been written, and the receiver that was owed an acknowledge has its timeout of 120 seconds
  set, from which it will send CTS.
\<close>

theorem queue_drains_on_acks:
  assumes "lib_ok L w" and "length circ0 = CIRC_BUFFER_SIZE"
    and "xio_run L w (xio_main L None circ0 tout uout st xout) es p"
    and "\<And>out. obuf_empty_op (chan_of L) out"
    and "encodes_acks (serio_of L) enc (1999 + quantum (serio_of L))"
    and "xtexp_buf p = \<lparr>ibuf = [], cp = 0\<rparr>"
    and "k = length (contents (XTEXP p)) div 2000 + 1"
  shows "\<exists>p'. acknowledge L enc k p = Some (Inr p') \<and> contents (XTEXP p') = []
    \<and> w (chan (XTEXP p')) = w (chan (XTEXP p)) @ contents (XTEXP p)
    \<and> client (XTEXP p') = None
    \<and> (\<forall>c. client (XTEXP p) = Some c \<longrightarrow> (\<exists>s r. rcvrs p' c = Some (s, r) \<and> rTO r = Some 120
         \<and> rflags r AND Fl_Timeout_of L = Fl_Timeout_of L))"
proof -
  have inv: "xio_inv L w p" by (rule xio_run_inv [OF assms(3,1) xio_main_inv [OF assms(1,2)]])
  have "length (contents (XTEXP p)) < 2000 * k"
    using dividend_less_times_div [of 2000 "length (contents (XTEXP p))"]
    by (simp add: assms(7))
  then obtain p' where p': "acknowledge L enc k p = Some (Inr p')" "contents (XTEXP p') = []"
    "w (chan (XTEXP p')) = w (chan (XTEXP p)) @ contents (XTEXP p)" "client (XTEXP p') = None"
    "rcvrs p' = notified (Fl_Timeout_of L) (set_option (client (XTEXP p))) (rcvrs p)"
    using acknowledge_ok [OF assms(1,4,5) inv assms(6), of k] by auto
  have "\<exists>s r. rcvrs p' c = Some (s, r) \<and> rTO r = Some 120
      \<and> rflags r AND Fl_Timeout_of L = Fl_Timeout_of L" if c: "client (XTEXP p) = Some c" for c
  proof -
    obtain s r where "rcvrs p c = Some (s, r)" using xio_invD(4) [OF inv] c by auto
    then have "rcvrs p' c = Some (s, xtr_ack (Fl_Timeout_of L) r)"
      using p'(5) c by (simp add: notified_def)
    moreover have "(a OR b) AND b = b" for a b :: u32
      by (rule bit_word_eqI) (auto simp: bit_simps)
    ultimately show ?thesis by (simp add: xtr_ack_def)
  qed
  with p' show ?thesis by blast
qed

text \<open>A packet that fits in one piece.\<close>

lemma one_piece:
  assumes "0x24 \<notin> set junk" and "xhgValidateHeader (hdr_of_bytes pkt) (word_of_nat (length pkt))"
    and "xio_header_size \<le> length pkt" and "length pkt \<le> 956"
  shows "xtr_scan xtr_lost 0 (junk @ pkt @ rest) = ([(first_mode pkt, pkt)], xtr_mid_pkt, 0, rest)"
    and "(length pkt + 955) div 956 = 1"
proof -
  have len: "length pkt \<le> MAX_SPKT_LENGTH + 1000" using assms(4) by (simp add: MAX_SPKT_LENGTH_def)
  obtain d ds where scan: "xtr_scan xtr_lost 0 (junk @ pkt @ rest)
      = ((first_mode pkt, d) # map (Pair log_curfile) ds, xtr_mid_pkt, 0, rest)"
    "d # ds = pieces (length pkt) (pkt @ rest)"
    by (rule xtr_scan_first_packet [OF assms(1-3) len])
  have "length (d # ds) = (length pkt + 955) div 956" "concat (d # ds) = pkt"
    using pieces_whole [of "length pkt" "pkt @ rest"] scan(2)
    by (simp_all add: MAX_SPKT_DATA_PER_SERIO_PKT_def)
  moreover have "0 < length pkt" using assms(3) by (auto simp: xio_header_size_def)
  then show one: "(length pkt + 955) div 956 = 1"
    using assms(4) by (intro div_nat_eqI) (simp_all add: Suc_le_eq)
  ultimately have "ds = []" "d = pkt" by simp_all
  with scan(1) show "xtr_scan xtr_lost 0 (junk @ pkt @ rest) = ([(first_mode pkt, pkt)], xtr_mid_pkt, 0, rest)"
    by simp
qed

text \<open>
  C29: The constructor of the exporter leaves \<open>client\<close> uninitialised. If the memory held something
  that is no receiver, the first packet of at most 956 bytes makes the program call \<open>ack()\<close>
  through it as soon as the packet has left for an idle link.
\<close>

theorem uninitialised_client_faults:
  assumes "lib_ok L w" and "length circ0 = CIRC_BUFFER_SIZE" and "pkt_hdr_size (serio_of L) \<le> 1000"
    and "\<And>out. obuf_empty_op (chan_of L) out" and "c \<noteq> c0" and "0x24 \<notin> set junk"
    and "xhgValidateHeader (hdr_of_bytes pkt) (word_of_nat (length pkt))"
    and "xio_header_size \<le> length pkt" and "length pkt \<le> 956"
  shows "xio_handle L (Received c (junk @ pkt @ rest)) (xio_new_client c tcp0 flags0 out
      (xio_main L (Some c0) circ0 tout uout st xout)) = Some (Inl Freed_object)"
proof -
  let ?p = "xio_new_client c tcp0 flags0 out (xio_main L (Some c0) circ0 tout uout st xout)"
  let ?r = "xiomas_tcp_rcvr tcp0 flags0 out"
  let ?x = "xiomas_tcp_export (Some c0) circ0 tout"
  let ?s = "\<lparr>ibuf = [], cp = 0\<rparr>"
  have p: "rcvrs ?p = [c \<mapsto> (?s, ?r)]" "XTEXP ?p = ?x"
    by (simp_all add: xio_new_client_def xio_add_child_def Let_def xtr_connected_def)
  have lib: "rcvr_ok (dasio_of L) (serio_of L)" "lrc_first (serio_of L)" "appends (chan_of L) w"
    "pkt_hdr_size (serio_of L) < 2 ^ 30"
    using assms(1) by (simp_all add: lib_ok_def rcvr_ok_def link_ok_def)
  have inv: "xte_inv (serio_of L) (chan_of L) w ?x" by (rule xte_init_inv [OF assms(2) lib(3,4)])
  have r: "rstate ?r = xtr_lost" "bytes_remaining_in_packet ?r = 0"
    by (simp_all add: xiomas_tcp_rcvr_def)
  note scan = one_piece [OF assms(6-9)]
  obtain s' r' x' where run: "xtr_protocol_input (dasio_of L) (serio_of L) (chan_of L)
      (Fl_Timeout_of L) c (?s\<lparr>ibuf := junk @ pkt @ rest\<rparr>) ?r ?x = Some (Inr (s', r', x'))"
    "scanned (serio_of L) (chan_of L) c ?r (junk @ pkt @ rest) ?x s' r' x'"
    using xtr_run [OF lib(1) _ inv, of "?s\<lparr>ibuf := junk @ pkt @ rest\<rparr>" ?r "Fl_Timeout_of L" c] r(2)
    by auto
  have room: "has_room (serio_of L) (length pkt) ?x"
    using assms(3,9) scan(2) assms(2)
    by (simp add: add.commute [of 955] has_room_def MAX_SPKT_DATA_PER_SERIO_PKT_def circ_space_def circ_length_def
        xiomas_tcp_export_def CIRC_BUFFER_SIZE_def sub32_exact)
  obtain x1 where x1: "xte_forward_packet (serio_of L) (chan_of L) pkt (length pkt) ?x
      = Some (Inr x1)" "acks x1 = [c0]"
    using uninitialised_client_acked [OF assms(2) lib(3,2) assms(4) _ assms(3), of pkt c0 tout]
      assms(9) by (auto simp: MAX_SPKT_DATA_PER_SERIO_PKT_def)
  have "bytes_remaining_in_packet r' = 0" using run(2) by (simp add: scanned_def Let_def r scan(1))
  then have "x' = request_ack c x1"
    using run(2) room x1(1) by (auto simp: scanned_def Let_def r scan(1))
  then have "new_acks ?x x' = [c0]" using x1(2) by (simp add: new_acks_def xiomas_tcp_export_def)
  then show ?thesis
    using p run(1) assms(5) resume_ok(1) [OF assms(1), of ?s] by (simp add: xio_received_def)
qed

section \<open>Witnesses\<close>

text \<open>The packet that acknowledges \<open>n\<close> bytes on the link of the instance.\<close>

definition ack_packet :: "nat \<Rightarrow> byte list" where
  "ack_packet n = [0, 1, 4, 0, 0, 0, 1, 0, word_of_nat n, word_of_nat (n div 256)]"

lemma ack_packet_encodes: "encodes_acks (serio_of plain_lib) ack_packet (1999 + 962)"
proof -
  have n: "unat (le16 (word_of_nat n) (word_of_nat (n div 256))) = n" if "n \<le> 2961" for n
    using that by (simp add: unat_le16 unsigned_of_nat take_bit_eq_mod)
  have l: "unat (le16 4 0) = 4" "length (ack_packet n) = 10" for n
    by (simp_all add: unat_le16 ack_packet_def)
  show ?thesis
    by (auto simp: encodes_acks_def plain_serio_def plain_not_serio_pkt_def
        ack_packet_def l n Let_def)
qed

theorem image_delivered_witness:
  "\<exists>q s r. xio_run plain_lib (\<lambda>out. out) plain_client
      [Received 0 (5 # take 7 image_packet), Received 0 (drop 7 image_packet @ [9])] q
    \<and> rcvrs q 0 = Some (s, r) \<and> concat (map snd (logged r)) = image_packet
    \<and> drop (cp s) (ibuf s) = [9]"
proof -
  let ?es = "map (Received 0) [5 # take 7 image_packet, drop 7 image_packet @ [9]]"
  obtain q where q: "xio_run plain_lib (\<lambda>out. out) plain_client ?es q"
    using reads_run [OF plain_lib_ok plain_client_inv plain_client_fields(6)] by blast
  have es: "received ?es = [5] @ image_packet @ [9]" "\<forall>e \<in> set ?es. session_event 0 e"
    by simp_all
  have "pkt_hdr_size (serio_of plain_lib) \<le> 248" "(0x24 :: byte) \<notin> set [5]"
    "length (replicate 270000 (0 :: byte)) = CIRC_BUFFER_SIZE"
    "rcvrs plain_client 0 = Some (\<lparr>ibuf = [], cp = 0\<rparr>, xiomas_tcp_rcvr False 0 [])"
    by (simp_all add: CIRC_BUFFER_SIZE_def plain_client_fields(1))
  from image_delivered [OF plain_lib_ok this(3,1) plain_client_run this(4) plain_client_fields(3)
      q es(2,1) this(2) image_packet_valid(1-3)]
  show ?thesis using q by auto
qed

theorem queue_drains_on_acks_witness:
  "\<exists>q k p' s r. xio_received plain_lib 0 image_packet plain_client = Some (Inr q)
    \<and> acknowledge plain_lib ack_packet k q = Some (Inr p') \<and> contents (XTEXP p') = []
    \<and> rcvrs p' 0 = Some (s, r) \<and> rTO r = Some 120"
proof -
  obtain s r s' r' x' cs where read: "rcvrs plain_client 0 = Some (s, r)"
    "scanned (serio_of plain_lib) (chan_of plain_lib) 0 r
       (drop (cp (resume_of plain_lib s)) (ibuf s) @ image_packet) (XTEXP plain_client) s' r' x'"
    "xio_received plain_lib 0 image_packet plain_client = Some (Inr (plain_client\<lparr>XTEXP := x',
       rcvrs := notified (Fl_Timeout_of plain_lib) cs ((rcvrs plain_client)(0 \<mapsto> (s', r')))\<rparr>))"
    by (rule xio_received_ok [OF plain_lib_ok plain_client_inv plain_client_fields(6),
          of image_packet])
  obtain d ds where "xtr_scan xtr_lost 0 ([] @ image_packet @ [])
      = ((first_mode image_packet, d) # map (Pair log_curfile) ds, xtr_mid_pkt, 0, [])"
    using xtr_scan_first_packet [OF _ image_packet_valid(1-3), of "[]" 0 "[]"]
    by (metis empty_iff list.set(1))
  then have client: "client x' = Some 0"
    using read(1,2) by (auto simp: scanned_def Let_def plain_client_fields(1) xiomas_tcp_rcvr_def)
  define q where "q = plain_client\<lparr>XTEXP := x',
     rcvrs := notified (Fl_Timeout_of plain_lib) cs ((rcvrs plain_client)(0 \<mapsto> (s', r')))\<rparr>"
  have "xio_run plain_lib (\<lambda>out. out) plain_main ([Accepted 0 False 0 []] @ [Received 0 image_packet]) q"
    using runs.go [OF plain_client_run, of "Received 0 image_packet" q] read(3) plain_client_fields(6)
    by (simp add: q_def)
  note run = this
  have "xtexp_buf q = \<lparr>ibuf = [], cp = 0\<rparr>" "client (XTEXP q) = Some 0"
    using client plain_client_fields(5) by (simp_all add: q_def)
  then show ?thesis
    using queue_drains_on_acks [OF plain_lib_ok _ run plain_lib_ready, of ack_packet] read(3)
      ack_packet_encodes
    unfolding q_def [symmetric] by (fastforce simp: CIRC_BUFFER_SIZE_def)
qed

theorem uninitialised_client_faults_witness:
  "xio_handle plain_lib (Received 0 image_packet) (xio_new_client 0 False 0 []
      (xio_main plain_lib (Some 77) (replicate 270000 0) [] [] Socket_connected []))
    = Some (Inl Freed_object)"
proof -
  have "length (replicate 270000 (0 :: byte)) = CIRC_BUFFER_SIZE" "(0x24 :: byte) \<notin> set []"
    "pkt_hdr_size (serio_of plain_lib) \<le> 1000" "(0 :: nat) \<noteq> 77" "length image_packet \<le> 956"
    using image_packet_valid(4) by (simp_all add: CIRC_BUFFER_SIZE_def)
  from uninitialised_client_faults [OF plain_lib_ok this(1,3) plain_lib_ready this(4,2)
      image_packet_valid(1,2) this(5), of "[]" False 0 "[]" "[]" "[]" Socket_connected "[]"]
  show ?thesis by simp
qed

end
