(* ===== verification/NphApid.thy ===== *)
theory NphApid
  imports Prelude
begin

text \<open>
  \<open>class APid\<close> (\<open>Nephex/nephex_export.h\<close>, \<open>nephex_export.cc\<close>): the table of the packet types
  of the nephelometer, indexed by application process identifier, with the size each type should
  have and the decimation state that thins out what is transmitted.
\<close>

section \<open>The table\<close>

definition MAX_APID :: nat where
  "MAX_APID = 151"

text \<open>\<open>period\<close> is left out: it is a \<open>float\<close> that the constructor stores and nothing reads.\<close>

record apid_def =
  mnc :: string
  asize :: u16
  decimation_rate :: u16
  n_to_skip :: u16
  reported :: u16

type_synonym apid_table = "apid_def list"

definition apid_def_op :: "string \<Rightarrow> nat \<Rightarrow> u16 \<Rightarrow> u16 \<Rightarrow> apid_table \<Rightarrow> fault + apid_table" where
  "apid_def_op m APID sz dec defs =
     (if \<not> APID \<le> MAX_APID then Inl Assert_failed
      else Inr (defs[APID := \<lparr>mnc = m, asize = sz, decimation_rate = dec,
        n_to_skip = (if dec \<noteq> 0 then 1 else 0), reported = 0\<rparr>]))"

text \<open>The calls of \<open>def\<close> in the constructor: first the loop, then the known types.\<close>

definition known_apids :: "(string \<times> nat \<times> u16 \<times> u16) list" where
  "known_apids =
    [(''ACCEL'', 1, 28, 20), (''SCI'', 2, 36, 10), (''STATUS'', 3, 88, 20), (''HSK'', 4, 20, 20),
     (''HTR'', 5, 20, 4), (''CFG'', 6, 96, 0), (''VER'', 7, 36, 0), (''TASK'', 8, 80, 20),
     (''NEPH_VER'', 132, 36, 0), (''NEPH_STATUS'', 133, 12, 20), (''NEPH_AD4684_REG'', 134, 4, 0),
     (''NEPH_AD4684_ADC'', 135, 8, 20), (''NEPH_AD7490'', 136, 32, 20), (''NEPH_DAC'', 137, 12, 20),
     (''NEPH_GPIO'', 138, 8, 0), (''NEPH_MEM_READ'', 139, 8, 0), (''NEPH_MEM_DUMP'', 140, 208, 0),
     (''NEPH_TEC_PID'', 141, 72, 0), (''NEPH_TEC_PID_PARAM'', 142, 24, 0),
     (''NEPH_LASER_POWER'', 143, 4, 1), (''NEPH_LASER_PWR_CTRL'', 144, 12, 0),
     (''NEPH_STATS_1'', 145, 44, 0), (''NEPH_STATS_2'', 146, 44, 0), (''NEPH_AC_1'', 147, 80, 0),
     (''NEPH_AC_2'', 148, 80, 0), (''NEPH_PULSE'', 149, 208, 4), (''NEPH_DARK_1'', 150, 204, 4),
     (''NEPH_DARK_2'', 151, 204, 4)]"

fun apid_defs_op :: "(string \<times> nat \<times> u16 \<times> u16) list \<Rightarrow> apid_table \<Rightarrow> fault + apid_table" where
  "apid_defs_op [] defs = Inr defs"
| "apid_defs_op ((m, APID, sz, dec) # es) defs =
     bind_sum (apid_def_op m APID sz dec defs) (apid_defs_op es)"

text \<open>\<open>present\<close> says that the static pointer \<open>APid_defs\<close> is already set; \<open>mem\<close> is raw memory.\<close>

definition APid_new :: "bool \<Rightarrow> apid_table \<Rightarrow> fault + apid_table" where
  "APid_new present mem =
     (if present then Inl Assert_failed
      else bind_sum (apid_defs_op (map (\<lambda>i. (''UNDEF'', i, 0, 0)) [0..<MAX_APID + 1]) mem)
        (apid_defs_op known_apids))"

definition apid_get_size :: "nat \<Rightarrow> apid_table \<Rightarrow> u16" where
  "apid_get_size APID defs = (if APID > MAX_APID then 0 else asize (defs ! APID))"

definition OK_to_transmit :: "nat \<Rightarrow> apid_table \<Rightarrow> bool \<times> apid_table" where
  "OK_to_transmit APID defs =
     (if APID > MAX_APID then (False, defs)
      else if asize (defs ! APID) = 0 \<or> decimation_rate (defs ! APID) = 0 then (False, defs)
      else
        let n = n_to_skip (defs ! APID) - 1
        in if n = 0
           then (True, defs[APID := (defs ! APID)\<lparr>n_to_skip := decimation_rate (defs ! APID)\<rparr>])
           else (False, defs[APID := (defs ! APID)\<lparr>n_to_skip := n\<rparr>]))"

text \<open>\<open>not_reported\<close> does not check its argument against the table.\<close>

definition not_reported :: "nat \<Rightarrow> apid_table \<Rightarrow> fault + bool \<times> apid_table" where
  "not_reported APID defs =
     (if APID \<ge> length defs then Inl Out_of_bounds
      else if reported (defs ! APID) \<noteq> 0 then Inr (False, defs)
      else Inr (True, defs[APID := (defs ! APID)\<lparr>reported := 1\<rparr>]))"

section \<open>Invariant\<close>

text \<open>
  An entry that transmits has between one and \<open>decimation_rate\<close> packets to go; its phase is how
  many it has refused since the last one it let through.
\<close>

definition wf_entry :: "apid_def \<Rightarrow> bool" where
  "wf_entry d \<longleftrightarrow> (decimation_rate d = 0 \<longleftrightarrow> n_to_skip d = 0) \<and> n_to_skip d \<le> decimation_rate d"

definition wf_table :: "apid_table \<Rightarrow> bool" where
  "wf_table defs \<longleftrightarrow> length defs = MAX_APID + 1 \<and> (\<forall>d \<in> set defs. wf_entry d)"

lemma wf_tableD: "wf_table defs \<Longrightarrow> i \<le> MAX_APID \<Longrightarrow> wf_entry (defs ! i)"
  by (simp add: wf_table_def)

lemma wf_table_update: "wf_table defs \<Longrightarrow> wf_entry d \<Longrightarrow> wf_table (defs[i := d])"
  by (auto simp: wf_table_def dest!: set_update_subset_insert [THEN subsetD])

lemma OK_to_transmit_wf:
  assumes "wf_table defs"
  shows "wf_table (snd (OK_to_transmit i defs))"
proof (cases "i > MAX_APID \<or> asize (defs ! i) = 0 \<or> decimation_rate (defs ! i) = 0")
  case True
  then show ?thesis using assms by (auto simp: OK_to_transmit_def)
next
  case False
  then have d: "wf_entry (defs ! i)" using assms wf_tableD by simp
  then have n: "n_to_skip (defs ! i) \<noteq> 0" "n_to_skip (defs ! i) \<le> decimation_rate (defs ! i)"
    using False by (auto simp: wf_entry_def)
  have "n_to_skip (defs ! i) - 1 \<le> decimation_rate (defs ! i)"
    using n by (simp add: word_le_nat_alt unat_minus_one)
  then show ?thesis
    using False d by (auto simp: OK_to_transmit_def Let_def wf_entry_def intro!: wf_table_update [OF assms])
qed

lemma not_reported_wf:
  assumes "wf_table defs" and "not_reported i defs = Inr (b, defs')"
  shows "wf_table defs'"
proof -
  have "wf_entry (d\<lparr>reported := v\<rparr>) = wf_entry d" for d :: apid_def and v by (simp add: wf_entry_def)
  then show ?thesis
    using assms by (auto simp: not_reported_def wf_table_def intro!: wf_table_update [unfolded wf_table_def]
        split: if_splits dest!: set_update_subset_insert [THEN subsetD])
qed

section \<open>The constructor\<close>

definition entry :: "string \<Rightarrow> u16 \<Rightarrow> u16 \<Rightarrow> apid_def" where
  "entry m sz dec = \<lparr>mnc = m, asize = sz, decimation_rate = dec,
     n_to_skip = (if dec \<noteq> 0 then 1 else 0), reported = 0\<rparr>"

lemma wf_entry_entry [simp]: "wf_entry (entry m sz dec)"
  using unsigned_eq_0_iff [of dec, where ?'a = nat]
  by (cases "unat dec") (auto simp: wf_entry_def entry_def word_le_nat_alt)

lemma apid_defs_op_ok:
  assumes "\<forall>(m, i, sz, dec) \<in> set es. i \<le> MAX_APID" and "length defs = MAX_APID + 1"
  shows "\<exists>t. apid_defs_op es defs = Inr t \<and> length t = MAX_APID + 1 \<and> (\<forall>i \<le> MAX_APID. t ! i =
    (case map_of (rev (map (\<lambda>(m, i, sz, dec). (i, entry m sz dec)) es)) i of
       None \<Rightarrow> defs ! i | Some e \<Rightarrow> e))"
  using assms
proof (induction es arbitrary: defs)
  case Nil
  then show ?case by simp
next
  case (Cons e es)
  obtain m i sz dec where e: "e = (m, i, sz, dec)" by (cases e)
  have i: "i \<le> MAX_APID" using Cons.prems(1) e by simp
  obtain t where t: "apid_defs_op es (defs[i := entry m sz dec]) = Inr t" "length t = MAX_APID + 1"
    "\<forall>j \<le> MAX_APID. t ! j =
      (case map_of (rev (map (\<lambda>(m, i, sz, dec). (i, entry m sz dec)) es)) j of
         None \<Rightarrow> defs[i := entry m sz dec] ! j | Some e \<Rightarrow> e)"
    using Cons.IH [of "defs[i := entry m sz dec]"] Cons.prems by auto
  have "apid_defs_op (e # es) defs = Inr t"
    using t(1) i by (simp add: e apid_def_op_def entry_def)
  then show ?case
    using t(2,3) i Cons.prems(2)
    by (auto simp: e map_add_def nth_list_update split: option.splits)
qed

text \<open>The entry of an APID after construction.\<close>

definition initial_entry :: "nat \<Rightarrow> apid_def" where
  "initial_entry i = (case map_of (map (\<lambda>(m, i, sz, dec). (i, entry m sz dec)) known_apids) i of
     None \<Rightarrow> entry ''UNDEF'' 0 0 | Some e \<Rightarrow> e)"

lemma known_apids_ok:
  "\<forall>(m, i, sz, dec) \<in> set known_apids. i \<le> MAX_APID"
  "distinct (map (\<lambda>(m, i, sz, dec). i) known_apids)"
  by (simp_all add: known_apids_def MAX_APID_def)

lemma distinct_known:
  "distinct (map fst (map (\<lambda>(m, i, sz, dec). (i, entry m sz dec)) known_apids))"
proof -
  have "map fst (map (\<lambda>(m, i, sz, dec). (i, entry m sz dec)) known_apids)
      = map (\<lambda>(m, i, sz, dec). i) known_apids"
    by (simp add: o_def case_prod_beta)
  then show ?thesis by (simp only: known_apids_ok)
qed

lemma map_of_rev_known:
  "map_of (rev (map (\<lambda>(m, i, sz, dec). (i, entry m sz dec)) known_apids))
    = map_of (map (\<lambda>(m, i, sz, dec). (i, entry m sz dec)) known_apids)"
proof -
  let ?es = "map (\<lambda>(m, i, sz, dec). (i, entry m sz dec)) known_apids"
  have "distinct (map fst ?es)" by (rule distinct_known)
  moreover from this have "distinct (map fst (rev ?es))" by (simp only: rev_map [symmetric] distinct_rev)
  ultimately show ?thesis using map_of_inject_set [of "rev ?es" ?es] by simp
qed

lemma APid_new_ok:
  assumes "length mem = MAX_APID + 1"
  shows "\<exists>t. APid_new False mem = Inr t \<and> length t = MAX_APID + 1
    \<and> (\<forall>i \<le> MAX_APID. t ! i = initial_entry i)"
proof -
  let ?undef = "map (\<lambda>i. (''UNDEF'', i, 0, 0)) [0..<MAX_APID + 1] :: (string \<times> nat \<times> u16 \<times> u16) list"
  obtain t1 where t1: "apid_defs_op ?undef mem = Inr t1" "length t1 = MAX_APID + 1"
    "\<forall>i \<le> MAX_APID. t1 ! i =
      (case map_of (rev (map (\<lambda>(m, i, sz, dec). (i, entry m sz dec)) ?undef)) i of
         None \<Rightarrow> mem ! i | Some e \<Rightarrow> e)"
    using apid_defs_op_ok [OF _ assms, of ?undef] by auto
  have "t1 ! i = entry ''UNDEF'' 0 0" if "i \<le> MAX_APID" for i
  proof -
    have "map_of (map (\<lambda>i. (i, entry ''UNDEF'' 0 0)) (rev [0..<Suc MAX_APID])) i
        = Some (entry ''UNDEF'' 0 0)"
      using that by (simp only: map_of_map_restrict) (simp add: restrict_map_def less_Suc_eq_le)
    moreover have "t1 ! i = (case map_of (map (\<lambda>i. (i, entry ''UNDEF'' 0 0)) (rev [0..<Suc MAX_APID])) i
        of None \<Rightarrow> mem ! i | Some e \<Rightarrow> e)"
      using t1(3) that by (simp add: o_def rev_map del: upt_Suc)
    ultimately show ?thesis by (simp only: option.case)
  qed
  moreover obtain t where "apid_defs_op known_apids t1 = Inr t" "length t = MAX_APID + 1"
    "\<forall>i \<le> MAX_APID. t ! i =
      (case map_of (rev (map (\<lambda>(m, i, sz, dec). (i, entry m sz dec)) known_apids)) i of
         None \<Rightarrow> t1 ! i | Some e \<Rightarrow> e)"
    using apid_defs_op_ok [OF known_apids_ok(1) t1(2)] by blast
  ultimately show ?thesis
    using t1(1) by (auto simp: APid_new_def initial_entry_def map_of_rev_known split: option.splits)
qed

lemma wf_initial_entry: "wf_entry (initial_entry i)"
proof (cases "map_of (map (\<lambda>(m, i, sz, dec). (i, entry m sz dec)) known_apids) i")
  case None
  then show ?thesis by (simp add: initial_entry_def)
next
  case (Some e)
  then have "\<exists>m sz dec. e = entry m sz dec"
    using map_of_SomeD by fastforce
  then show ?thesis using Some by (auto simp: initial_entry_def)
qed

lemma APid_new_wf:
  assumes "length mem = MAX_APID + 1" and "APid_new False mem = Inr t"
  shows "wf_table t" "\<And>i. i \<le> MAX_APID \<Longrightarrow> t ! i = initial_entry i"
proof -
  show "t ! i = initial_entry i" if "i \<le> MAX_APID" for i
    using APid_new_ok [OF assms(1)] assms(2) that by auto
  then show "wf_table t"
    using APid_new_ok [OF assms(1)] assms(2) wf_initial_entry
    by (auto simp: wf_table_def in_set_conv_nth)
qed

section \<open>Decimation\<close>

text \<open>Calls of \<open>OK_to_transmit\<close>, one for each APID of a list, and their answers.\<close>

fun transmit_run :: "nat list \<Rightarrow> apid_table \<Rightarrow> bool list \<times> apid_table" where
  "transmit_run [] t = ([], t)"
| "transmit_run (a # as) t =
     (let (b, t) = OK_to_transmit a t; (bs, t) = transmit_run as t in (b # bs, t))"

definition decimated :: "apid_def \<Rightarrow> nat \<Rightarrow> bool" where
  "decimated d c \<longleftrightarrow> asize d \<noteq> 0 \<and> decimation_rate d \<noteq> 0 \<and> c mod unat (decimation_rate d) = 0"

text \<open>The counter of an entry after \<open>c\<close> calls.\<close>

definition after_calls :: "nat \<Rightarrow> apid_def \<Rightarrow> apid_def \<Rightarrow> bool" where
  "after_calls c d0 d \<longleftrightarrow> asize d = asize d0 \<and> decimation_rate d = decimation_rate d0
     \<and> (asize d0 \<noteq> 0 \<and> decimation_rate d0 \<noteq> 0 \<longrightarrow>
        (let k = unat (decimation_rate d0) in unat (n_to_skip d) = k - (c + k - 1) mod k))"

lemma countdown:
  fixes k c :: nat
  assumes "0 < k"
  shows "k - (c + k - 1) mod k = 1 \<longleftrightarrow> c mod k = 0"
    and "k - (Suc c + k - 1) mod k = (if c mod k = 0 then k else k - (c + k - 1) mod k - 1)"
proof -
  have m: "(c + k - 1) mod k = (if c mod k = 0 then k - 1 else c mod k - 1)"
  proof (cases "c mod k = 0")
    case True
    then obtain q where "c = k * q" by auto
    then have "c + k - 1 = k - 1 + k * q" using assms by simp
    then have "(c + k - 1) mod k = (k - 1) mod k" by (metis mod_mult_self2)
    then show ?thesis using True assms by simp
  next
    case False
    then have "c mod k + (k - 1) = (c mod k - 1) + k" using assms by simp
    moreover have "(c + k - 1) mod k = (c mod k + (k - 1)) mod k"
    proof -
      have "c + k - 1 = c + (k - 1)" using assms by simp
      then show ?thesis by (simp only: mod_add_left_eq)
    qed
    ultimately have "(c + k - 1) mod k = (c mod k - 1) mod k" by simp
    then show ?thesis using False assms by (simp add: less_imp_diff_less)
  qed
  define r where "r = c mod k"
  have l: "r < k" using assms by (simp add: r_def)
  have s: "(Suc c + k - 1) mod k = r" by (simp add: r_def)
  show "k - (c + k - 1) mod k = 1 \<longleftrightarrow> c mod k = 0"
    unfolding m r_def [symmetric] using l by auto
  show "k - (Suc c + k - 1) mod k = (if c mod k = 0 then k else k - (c + k - 1) mod k - 1)"
    unfolding m s unfolding r_def [symmetric] using l by auto
qed

lemma OK_to_transmit_step:
  assumes "length t = MAX_APID + 1" and "a \<le> MAX_APID" and "after_calls c d0 (t ! a)"
  shows "fst (OK_to_transmit a t) = decimated d0 c"
    and "after_calls (Suc c) d0 (snd (OK_to_transmit a t) ! a)"
proof -
  let ?k = "unat (decimation_rate d0)" and ?n = "n_to_skip (t ! a)"
  have eqs: "asize (t ! a) = asize d0" "decimation_rate (t ! a) = decimation_rate d0"
    using assms(3) by (simp_all add: after_calls_def)
  have "fst (OK_to_transmit a t) = decimated d0 c \<and> after_calls (Suc c) d0 (snd (OK_to_transmit a t) ! a)"
  proof (cases "asize d0 = 0 \<or> decimation_rate d0 = 0")
    case True
    then show ?thesis
      using assms(1,2) eqs by (auto simp: OK_to_transmit_def decimated_def after_calls_def)
  next
    case False
    then have k: "0 < ?k" and n: "unat ?n = ?k - (c + ?k - 1) mod ?k"
      using assms(3) by (auto simp: after_calls_def unat_gt_0 Let_def)
    then have "0 < unat ?n" by simp
    then have n1: "unat (?n - 1) = unat ?n - 1"
      by (intro unat_minus_one) (simp add: unat_gt_0)
    have n2: "?n - 1 = 0 \<longleftrightarrow> unat ?n = 1"
      using n1 \<open>0 < unat ?n\<close> unat_eq_0 [of "?n - 1"] by linarith
    note cd = countdown [OF k, of c]
    show ?thesis
      using assms(1,2) eqs False n1 n2 cd n
      by (cases "c mod ?k = 0")
        (auto simp: OK_to_transmit_def decimated_def after_calls_def Let_def)
  qed
  then show "fst (OK_to_transmit a t) = decimated d0 c"
    "after_calls (Suc c) d0 (snd (OK_to_transmit a t) ! a)" by simp_all
qed

lemma OK_to_transmit_other:
  "length (snd (OK_to_transmit a t)) = length t"
  "a \<noteq> b \<Longrightarrow> snd (OK_to_transmit a t) ! b = t ! b"
  by (simp_all add: OK_to_transmit_def Let_def)

lemma transmit_run_counts:
  assumes "length t = MAX_APID + 1" and "\<forall>a \<le> MAX_APID. after_calls (cnt a) (d0 a) (t ! a)"
  shows "length (fst (transmit_run as t)) = length as \<and> (\<forall>j < length as.
    fst (transmit_run as t) ! j \<longleftrightarrow> as ! j \<le> MAX_APID
      \<and> decimated (d0 (as ! j)) (cnt (as ! j) + count_list (take j as) (as ! j)))"
  using assms
proof (induction as arbitrary: t cnt)
  case Nil
  then show ?case by simp
next
  case (Cons a as)
  obtain b t1 where b: "OK_to_transmit a t = (b, t1)" by (cases "OK_to_transmit a t")
  define cnt1 where "cnt1 = cnt(a := Suc (cnt a))"
  have t1: "length t1 = MAX_APID + 1" using OK_to_transmit_other(1) [of a t] b Cons.prems(1) by simp
  have b': "b \<longleftrightarrow> a \<le> MAX_APID \<and> decimated (d0 a) (cnt a)"
    using OK_to_transmit_step(1) [OF Cons.prems(1), of a "cnt a" "d0 a"] Cons.prems(2) b
    by (cases "a \<le> MAX_APID") (auto simp: OK_to_transmit_def)
  have "\<forall>x \<le> MAX_APID. after_calls (cnt1 x) (d0 x) (t1 ! x)"
    using OK_to_transmit_step(2) [OF Cons.prems(1), of a] OK_to_transmit_other(2) [of a _ t] b
      Cons.prems(2)
    by (auto simp: cnt1_def)
  note IH = Cons.IH [OF t1 this]
  show ?case
    using IH b b'
    by (auto simp: case_prod_beta Let_def cnt1_def nth_Cons split: nat.splits if_splits)
qed

section \<open>Properties\<close>

text \<open>
  C35: Decimation is exact and per APID: in any sequence of calls of \<open>OK_to_transmit\<close>, a call
  answers true exactly when the APID is known with a size and a decimation rate, and the number
  of earlier calls for the same APID is a multiple of its rate. The first one is let through, and
  calls for other APIDs do not matter.
\<close>

theorem decimation_exact:
  assumes "length mem = MAX_APID + 1" and "APid_new False mem = Inr t" and "j < length as"
  shows "fst (transmit_run as t) ! j \<longleftrightarrow>
    as ! j \<le> MAX_APID \<and> asize (t ! (as ! j)) \<noteq> 0 \<and> decimation_rate (t ! (as ! j)) \<noteq> 0
    \<and> count_list (take j as) (as ! j) mod unat (decimation_rate (t ! (as ! j))) = 0"
proof -
  note wf = APid_new_wf [OF assms(1,2)]
  have init: "after_calls 0 (initial_entry i) (initial_entry i)" for i
  proof -
    have "n_to_skip (initial_entry i) = (if decimation_rate (initial_entry i) \<noteq> 0 then 1 else 0)"
      using map_of_SomeD [of "map (\<lambda>(m, i, sz, dec). (i, entry m sz dec)) known_apids" i]
      by (fastforce simp: initial_entry_def entry_def split: option.splits)
    moreover have "0 < unat (decimation_rate (initial_entry i))"
      if "decimation_rate (initial_entry i) \<noteq> 0"
      using that by (simp add: unat_gt_0)
    ultimately show ?thesis by (auto simp: after_calls_def Let_def Suc_leI)
  qed
  have "length t = MAX_APID + 1" using wf(1) by (simp add: wf_table_def)
  moreover have "\<forall>a \<le> MAX_APID. after_calls 0 (initial_entry a) (t ! a)" using wf(2) init by simp
  ultimately show ?thesis
    using transmit_run_counts [of t "\<lambda>_. 0" initial_entry as] assms(3) wf(2)
    by (auto simp: decimated_def)
qed

section \<open>Witnesses\<close>

definition blank_table :: apid_table where
  "blank_table = replicate 152 \<lparr>mnc = [], asize = 7, decimation_rate = 9, n_to_skip = 0, reported = 3\<rparr>"

lemma length_blank_table [simp]: "length blank_table = MAX_APID + 1"
  by (simp add: blank_table_def MAX_APID_def)

theorem decimation_exact_witness:
  "\<exists>t. APid_new False blank_table = Inr t \<and> fst (transmit_run [5, 5, 5, 5, 5] t) ! 4
     \<and> \<not> fst (transmit_run [5, 5, 5, 5, 5] t) ! 3"
proof -
  obtain t where t: "APid_new False blank_table = Inr t"
    using APid_new_ok [OF length_blank_table] by blast
  have "t ! 5 = initial_entry 5" using APid_new_wf(2) [OF length_blank_table t] by (simp add: MAX_APID_def)
  then have "asize (t ! 5) = 20" "decimation_rate (t ! 5) = 4"
    by (simp_all add: initial_entry_def known_apids_def entry_def)
  then show ?thesis
    using t decimation_exact [OF length_blank_table t, of 4 "[5, 5, 5, 5, 5]"]
      decimation_exact [OF length_blank_table t, of 3 "[5, 5, 5, 5, 5]"]
    by (simp add: MAX_APID_def)
qed

end
