(* ===== verification/NphExport.thy ===== *)
theory NphExport
  imports CtrlInput
begin

text \<open>
  \<open>class nephex_tcp_export\<close> (\<open>Nephex/nephex_export.h\<close>, \<open>nephex_export.cc\<close>): the client of
  \<open>tm_ip_export\<close> that sends nephelometer packets while it has credit. Its input loop is the one
  it shares with the Xiomas exporter (\<open>CtrlInput\<close>).
\<close>

section \<open>State and operations\<close>

record 'o nte =
  noutstanding :: nat
  nchan :: 'o

definition nephex_tcp_export :: "'o \<Rightarrow> 'o nte" where
  "nephex_tcp_export out = \<lparr>noutstanding = 0, nchan = out\<rparr>"

definition nte_CTS :: "'o chan_ops \<Rightarrow> 'o nte \<Rightarrow> bool" where
  "nte_CTS C x \<longleftrightarrow> noutstanding x < 2000 \<and> obuf_empty_op C (nchan x)"

definition nte_forward_packet ::
  "serio \<Rightarrow> 'o chan_ops \<Rightarrow> byte list \<Rightarrow> u16 \<Rightarrow> 'o nte \<Rightarrow> fault + 'o nte" where
  "nte_forward_packet S C bfr n_bytes x =
     (if \<not> nte_CTS C x then Inl Assert_failed
      else
        let payload = take (unat n_bytes) bfr;
            hdr = fill_serio_hdr S (pkt_type_NPH S) n_bytes payload;
            x = x\<lparr>nchan := snd (iwritev_op C [hdr_image S hdr, payload] (nchan x))\<rparr>
        in Inr (x\<lparr>noutstanding := add32 (noutstanding x) (pkt_hdr_size S + unat n_bytes)\<rparr>))"

definition nte_ack :: "nat \<Rightarrow> 'o nte \<Rightarrow> 'o nte" where
  "nte_ack len x =
     (if len > noutstanding x then x\<lparr>noutstanding := 0\<rparr>
      else x\<lparr>noutstanding := sub32 (noutstanding x) len\<rparr>)"

definition nte_on_ack :: "nat \<Rightarrow> 'o nte \<Rightarrow> (fault + 'o nte) option" where
  "nte_on_ack len x = Some (Inr (nte_ack len x))"

definition nte_app_input ::
  "dasio \<Rightarrow> serio \<Rightarrow> inbuf \<Rightarrow> 'o nte \<Rightarrow> (fault + inbuf \<times> 'o nte) option" where
  "nte_app_input D S s x = ctrl_input D S noutstanding nte_on_ack s x"

section \<open>Acknowledges\<close>

text \<open>
  The contract of the input loop: the count stays a 32-bit number, never grows, and nothing is
  written.
\<close>

definition nte_inv :: "'o nte \<Rightarrow> bool" where
  "nte_inv x \<longleftrightarrow> noutstanding x < 2 ^ 32"

definition nte_promise :: "'o nte \<Rightarrow> 'o nte \<Rightarrow> bool" where
  "nte_promise x x' \<longleftrightarrow> nchan x' = nchan x \<and> noutstanding x' \<le> noutstanding x"

interpretation nte_acks: ack_handler noutstanding nte_on_ack nte_inv nte_promise
  by unfold_locales
    (auto simp: nte_on_ack_def nte_ack_def nte_inv_def nte_promise_def sub32_exact)

lemma nte_ack_exact: "nte_inv x \<Longrightarrow> noutstanding (nte_ack n x) = noutstanding x - n"
  by (simp add: nte_ack_def nte_inv_def sub32_exact)

lemma nte_app_input_returns:
  assumes "consumes D" "reports_only D" "presents_packets S" "nte_inv x"
    and "meets_other S s \<Longrightarrow> nte_app_input D S s x \<noteq> None"
  shows "\<exists>s' x'. nte_app_input D S s x = Some (Inr (s', x')) \<and> nte_inv x' \<and> nte_promise x x'"
proof (cases "meets_other S s")
  case True
  then show ?thesis using nte_acks.ctrl_input_kept [OF _ assms(4)] assms(5) by (fastforce simp: nte_app_input_def)
next
  case False
  then show ?thesis using nte_acks.ctrl_input_returns [OF assms(1-4)] by (simp add: nte_app_input_def)
qed

lemma nte_app_input_hangs:
  assumes "consumes D" "reports_only D" "presents_packets S" "finds_again S" "nte_inv x"
    and "meets_other S s"
  shows "nte_app_input D S s x = None"
  unfolding nte_app_input_def by (rule nte_acks.ctrl_input_hangs [OF assms(6,1-5)])

section \<open>Forwarding\<close>

text \<open>A packet on the link: header and data.\<close>

definition nph_frame :: "serio \<Rightarrow> byte list \<Rightarrow> byte list" where
  "nph_frame S p = hdr_image S (fill_serio_hdr S (pkt_type_NPH S) (word_of_nat (length p)) p) @ p"

lemma nte_forward_ok:
  assumes "nte_CTS C x" and "appends C w" and "length p < 2 ^ 16" and "pkt_hdr_size S < 2 ^ 31"
  shows "\<exists>x'. nte_forward_packet S C p (word_of_nat (length p)) x = Inr x'
    \<and> w (nchan x') = w (nchan x) @ nph_frame S p
    \<and> noutstanding x' = noutstanding x + pkt_hdr_size S + length p"
proof -
  have len: "unat (word_of_nat (length p) :: u16) = length p"
    using assms(3) by (simp add: unsigned_of_nat take_bit_nat_eq_self)
  have "noutstanding x < 2000" using assms(1) by (simp add: nte_CTS_def)
  then show ?thesis
    using assms
    by (simp add: nte_forward_packet_def len Let_def nph_frame_def appends_iwritev add32_exact)
qed

lemma nph_frame_sum: "lrc_first S \<Longrightarrow> sum_list (nph_frame S p) = sum_list p"
  by (simp add: nph_frame_def sum_of_serio_hdr)

end
