(* ===== verification/StreamReader.thy ===== *)
theory StreamReader
  imports Prelude
begin

text \<open>
  The interface between a byte stream and a handler that is called with one read at a time: a scan
  cuts the unread bytes into events and a rest that waits for more, and each event changes a
  state, or faults. The one law is that the scan of a longer input is the scan of the first
  part, continued on its rest. From it follows that the reads in which the stream arrives do
  not matter.
\<close>

fun handle_list :: "('e \<Rightarrow> 'x \<Rightarrow> 'f + 'x) \<Rightarrow> 'e list \<Rightarrow> 'x \<Rightarrow> 'f + 'x" where
  "handle_list h [] = Inr"
| "handle_list h (e # es) = (\<lambda>x. bind_sum (h e x) (handle_list h es))"

text \<open>The reads \<open>bss\<close>, one after the other, when \<open>left\<close> was left by the reads before.\<close>

fun read_all ::
  "('b list \<Rightarrow> 'e list \<times> 'b list) \<Rightarrow> ('e \<Rightarrow> 'x \<Rightarrow> 'f + 'x) \<Rightarrow> 'b list \<Rightarrow> 'b list list \<Rightarrow> 'x \<Rightarrow>
   'f + 'b list \<times> 'x" where
  "read_all scan h left [] = (\<lambda>x. Inr (left, x))"
| "read_all scan h left (bs # bss) = (\<lambda>x.
     bind_sum (handle_list h (fst (scan (left @ bs))) x) (read_all scan h (snd (scan (left @ bs))) bss))"

lemma bind_sum_assoc: "bind_sum (bind_sum m f) g = bind_sum m (\<lambda>x. bind_sum (f x) g)"
  by (cases m) simp_all

lemma handle_list_append:
  "handle_list h (es @ ds) = (\<lambda>x. bind_sum (handle_list h es x) (handle_list h ds))"
  by (induction es) (simp_all add: bind_sum_assoc)

locale stream_scan =
  fixes scan :: "'b list \<Rightarrow> 'e list \<times> 'b list"
  assumes scan_nil: "scan [] = ([], [])"
    and scan_append: "scan (a @ b) =
      (fst (scan a) @ fst (scan (snd (scan a) @ b)), snd (scan (snd (scan a) @ b)))"
begin

lemma reads_after:
  "bind_sum (handle_list h (fst (scan a)) x) (read_all scan h (snd (scan a)) bss) =
   bind_sum (handle_list h (fst (scan (a @ concat bss))) x) (\<lambda>y. Inr (snd (scan (a @ concat bss)), y))"
proof (induction bss arbitrary: a x)
  case Nil
  then show ?case by simp
next
  case (Cons bs bss)
  have "bind_sum (handle_list h (fst (scan a)) x) (read_all scan h (snd (scan a)) (bs # bss))
    = bind_sum (handle_list h (fst (scan (a @ bs))) x) (read_all scan h (snd (scan (a @ bs))) bss)"
    unfolding scan_append [of a bs] by (simp add: handle_list_append bind_sum_assoc)
  then show ?case using Cons.IH [where a = "a @ bs" and x = x] by simp
qed

lemma reads_merge:
  "read_all scan h [] bss x =
   bind_sum (handle_list h (fst (scan (concat bss))) x) (\<lambda>y. Inr (snd (scan (concat bss)), y))"
  using reads_after [of h "[]" x bss] by (simp add: scan_nil)

end

end
