(* ===== verification/NphRcvr.thy ===== *)
theory NphRcvr
  imports NphApid NphExport StreamReader "HOL-Library.Sublist"
begin

text \<open>
  \<open>class nephex_tcp_rcvr\<close> (\<open>Nephex/nephex_export.h\<close>, \<open>nephex_export.cc\<close>): the connection to the
  nephelometer. It cuts the byte stream into packets (two sync bytes, six bytes of primary header
  with APID and length, and length plus one bytes), logs each and forwards what the decimation
  of the APID table lets through.
\<close>

section \<open>State and operations\<close>

record nph_rcvr =
  nTO :: "nat option"
  nflags :: u32
  nlogged :: "byte list list"

definition nph_connected :: "u32 \<Rightarrow> nph_rcvr \<Rightarrow> nph_rcvr" where
  "nph_connected Fl_Timeout r = r\<lparr>nTO := Some 5, nflags := nflags r OR Fl_Timeout\<rparr>"

text \<open>
  What is done with a complete packet of APID and length \<open>Len\<close> that starts at \<open>bfr\<close>. The order is
  the one of the source: the table is asked for the size, the first wrong size of an APID is
  reported, the timeout is set, the packet is logged, and, if the link has credit, the decimation
  is asked.
\<close>

definition nph_packet ::
  "dasio \<Rightarrow> serio \<Rightarrow> 'o chan_ops \<Rightarrow> nat \<Rightarrow> u16 \<Rightarrow> byte list \<Rightarrow> inbuf \<times> nph_rcvr \<times> apid_table \<times> 'o nte \<Rightarrow>
   fault + inbuf \<times> nph_rcvr \<times> apid_table \<times> 'o nte" where
  "nph_packet D S C APid Len bfr = (\<lambda>(s, r, t, x).
     let apid_len = apid_get_size APid t
     in bind_sum (if unat apid_len + 6 \<noteq> unat Len then not_reported APid t else Inr (False, t))
       (\<lambda>(report, t).
         let s = (if report then report_err_op D s else s);
             r = r\<lparr>nTO := Some 5\<rparr>;
             r = r\<lparr>nlogged := nlogged r @ [take (unat Len + 9) bfr]\<rparr>
         in if nte_CTS C x
            then
              let (ok, t) = OK_to_transmit APid t
              in if ok
                 then bind_sum (nte_forward_packet S C bfr (word_of_nat (unat Len + 9)) x)
                   (\<lambda>x. Inr (s, r, t, x))
                 else Inr (s, r, t, x)
            else Inr (s, r, t, x)))"

partial_function (option) nph_protocol_input ::
  "dasio \<Rightarrow> serio \<Rightarrow> 'o chan_ops \<Rightarrow> inbuf \<Rightarrow> nph_rcvr \<Rightarrow> apid_table \<Rightarrow> 'o nte \<Rightarrow>
   (fault + inbuf \<times> nph_rcvr \<times> apid_table \<times> 'o nte) option" where
  "nph_protocol_input D S C s r t x =
     (if \<not> cp s < nc s then Some (Inr (report_ok_op D (cp s) s, r, t, x))
      else case not_found_op D 0xAA s of (missing, s) \<Rightarrow>
        if missing then Some (Inr (report_ok_op D (cp s) s, r, t, x))
        else if cp s < nc s \<and> ibuf s ! cp s \<noteq> 0xAA then nph_protocol_input D S C s r t x
        else
          let s = s\<lparr>cp := cp s + 1\<rparr>
          in if nc s < cp s + 6
             then let s = s\<lparr>cp := cp s - 2\<rparr> in Some (Inr (report_ok_op D (cp s) s, r, t, x))
             else
               let APword = le16 (ibuf s ! cp s) (ibuf s ! (cp s + 1));
                   APid = unat (APword AND 0x3FF);
                   s = s\<lparr>cp := cp s + 4\<rparr>;
                   Len = le16 (ibuf s ! cp s) (ibuf s ! (cp s + 1));
                   s = s\<lparr>cp := cp s + 2\<rparr>
               in if nc s < cp s + unat Len + 1
                  then let s = s\<lparr>cp := cp s - 8\<rparr> in Some (Inr (report_ok_op D (cp s) s, r, t, x))
                  else
                    (case nph_packet D S C APid Len (drop (cp s - 8) (ibuf s)) (s, r, t, x) of
                       Inl e \<Rightarrow> Some (Inl e)
                     | Inr (s, r, t, x) \<Rightarrow>
                         nph_protocol_input D S C (s\<lparr>cp := cp s + unat Len + 1\<rparr>) r t x))"

section \<open>The stream as packets\<close>

text \<open>Cutting the bytes into packets, and what is left of them for the next read.\<close>

definition frame_size :: "byte list \<Rightarrow> nat" where
  "frame_size bs = unat (le16 (bs ! 6) (bs ! 7)) + 9"

function nph_scan :: "byte list \<Rightarrow> byte list list \<times> byte list" where
  "nph_scan bs =
     (let bs = dropWhile (\<lambda>b. b \<noteq> 0xAA) bs
      in if bs = [] then ([], [])
         else if 1 < length bs \<and> bs ! 1 \<noteq> 0xAA then nph_scan (drop 1 bs)
         else if length bs < 8 \<or> length bs < frame_size bs then ([], bs)
         else let t = nph_scan (drop (frame_size bs) bs)
              in (take (frame_size bs) bs # fst t, snd t))"
  by pat_completeness auto
termination
proof (relation "measure length", goal_cases)
  case (2 bs bs')
  then show ?case
    using length_dropWhile_le [of "\<lambda>b. b \<noteq> 0xAA" bs] by (cases bs') (auto simp: Let_def)
next
  case (3 bs bs')
  then show ?case
    using length_dropWhile_le [of "\<lambda>b. b \<noteq> 0xAA" bs] by (cases bs') (auto simp: Let_def frame_size_def)
qed simp

declare nph_scan.simps [simp del]

definition apid_of :: "byte list \<Rightarrow> nat" where
  "apid_of p = unat (le16 (p ! 2) (p ! 3) AND 0x3FF)"

definition Len_of :: "byte list \<Rightarrow> u16" where
  "Len_of p = le16 (p ! 6) (p ! 7)"

text \<open>The effect of one packet and of a list of packets, without the input buffer.\<close>

definition handle ::
  "dasio \<Rightarrow> serio \<Rightarrow> 'o chan_ops \<Rightarrow> byte list \<Rightarrow> nph_rcvr \<times> apid_table \<times> 'o nte \<Rightarrow>
   fault + nph_rcvr \<times> apid_table \<times> 'o nte" where
  "handle D S C p y =
     map_sum id snd (nph_packet D S C (apid_of p) (Len_of p) p (\<lparr>ibuf = [], cp = 0\<rparr>, y))"

abbreviation handle_all ::
  "dasio \<Rightarrow> serio \<Rightarrow> 'o chan_ops \<Rightarrow> byte list list \<Rightarrow> nph_rcvr \<times> apid_table \<times> 'o nte \<Rightarrow>
   fault + nph_rcvr \<times> apid_table \<times> 'o nte" where
  "handle_all D S C \<equiv> handle_list (handle D S C)"

section \<open>Refinement\<close>

lemma nte_forward_take:
  "unat n \<le> m \<Longrightarrow> nte_forward_packet S C (take m bfr) n x = nte_forward_packet S C bfr n x"
  by (simp add: nte_forward_packet_def Let_def)

lemma unat_of_nat_le: "unat (word_of_nat n :: u16) \<le> n"
  by (simp add: unsigned_of_nat)

lemma nph_packet_handle:
  assumes "reports_only D" and p: "p = take (frame_size bfr) bfr" "8 \<le> length bfr"
    "APid = apid_of bfr" "Len = Len_of bfr"
  shows "nph_packet D S C APid Len bfr (s, y) = map_sum id (Pair s) (handle D S C p y)"
proof -
  have nth: "p ! i = bfr ! i" if "i < 8" for i
    using p that by (simp add: frame_size_def)
  have eqs: "apid_of p = APid" "Len_of p = Len" "unat Len + 9 = frame_size bfr"
    using nth p(3,4) by (simp_all add: apid_of_def Len_of_def frame_size_def)
  have fwd: "nte_forward_packet S C p (word_of_nat (frame_size bfr)) x
      = nte_forward_packet S C bfr (word_of_nat (frame_size bfr)) x" for x
    unfolding p(1) by (rule nte_forward_take [OF unat_of_nat_le])
  have tk: "take (frame_size bfr) p = p" by (simp add: p(1))
  obtain r t x where y: "y = (r, t, x)" by (cases y)
  show ?thesis
    using assms(1)
    by (simp add: handle_def nph_packet_def eqs fwd tk y Let_def reports_only_def p(1) [symmetric]
        bind_sum_def split: sum.splits prod.splits)
qed

lemma nph_scan_skip:
  assumes "d = dropWhile (\<lambda>b. b \<noteq> 0xAA) bs"
  shows "d = [] \<Longrightarrow> nph_scan bs = ([], [])"
    and "1 < length d \<Longrightarrow> d ! 1 \<noteq> 0xAA \<Longrightarrow> nph_scan bs = nph_scan (drop 1 d)"
    and "d \<noteq> [] \<Longrightarrow> \<not> (1 < length d \<and> d ! 1 \<noteq> 0xAA) \<Longrightarrow> length d < 8 \<or> length d < frame_size d \<Longrightarrow>
      nph_scan bs = ([], d)"
    and "d \<noteq> [] \<Longrightarrow> \<not> (1 < length d \<and> d ! 1 \<noteq> 0xAA) \<Longrightarrow> 8 \<le> length d \<Longrightarrow> frame_size d \<le> length d \<Longrightarrow>
      nph_scan bs = (take (frame_size d) d # fst (nph_scan (drop (frame_size d) d)),
        snd (nph_scan (drop (frame_size d) d)))"
proof -
  have eq: "nph_scan bs = (if d = [] then ([], [])
      else if 1 < length d \<and> d ! 1 \<noteq> 0xAA then nph_scan (drop 1 d)
      else if length d < 8 \<or> length d < frame_size d then ([], d)
      else (take (frame_size d) d # fst (nph_scan (drop (frame_size d) d)),
        snd (nph_scan (drop (frame_size d) d))))"
    unfolding assms by (subst nph_scan.simps) (simp only: Let_def)
  show "d = [] \<Longrightarrow> nph_scan bs = ([], [])"
    "1 < length d \<Longrightarrow> d ! 1 \<noteq> 0xAA \<Longrightarrow> nph_scan bs = nph_scan (drop 1 d)"
    "d \<noteq> [] \<Longrightarrow> \<not> (1 < length d \<and> d ! 1 \<noteq> 0xAA) \<Longrightarrow> length d < 8 \<or> length d < frame_size d \<Longrightarrow>
      nph_scan bs = ([], d)"
    "d \<noteq> [] \<Longrightarrow> \<not> (1 < length d \<and> d ! 1 \<noteq> 0xAA) \<Longrightarrow> 8 \<le> length d \<Longrightarrow> frame_size d \<le> length d \<Longrightarrow>
      nph_scan bs = (take (frame_size d) d # fst (nph_scan (drop (frame_size d) d)),
        snd (nph_scan (drop (frame_size d) d)))"
    unfolding eq by auto
qed

text \<open>
  A pass through the loop that finds a sync byte at \<open>n\<close>, from where the input is \<open>d\<close>: it goes on
  behind it, keeps an incomplete packet for the next read, or handles a packet.
\<close>

lemma nph_pass_sync:
  assumes D: "consumes D" "reports_only D" and s: "cp s \<le> n" "n < nc s" and d: "d = drop n (ibuf s)"
    and nf: "not_found_op D 0xAA s = (False, s\<lparr>cp := n + 1\<rparr>)"
    and sync: "\<not> (1 < length d \<and> d ! 1 \<noteq> 0xAA)"
  shows "nph_protocol_input D S C s r t x =
    (if length d < 8 \<or> length d < frame_size d then Some (Inr (\<lparr>ibuf = d, cp = 0\<rparr>, r, t, x))
     else case handle D S C (take (frame_size d) d) (r, t, x) of Inl e \<Rightarrow> Some (Inl e)
       | Inr (r, t, x) \<Rightarrow> nph_protocol_input D S C (s\<lparr>cp := n + frame_size d\<rparr>) r t x)"
proof -
  have d_len: "length d = nc s - n" by (simp add: d)
  have b: "ibuf s ! (i + n) = d ! i" if "i < length d" for i using that s by (simp add: d add.commute)
  have aa: "Suc n < nc s \<Longrightarrow> ibuf s ! Suc n = 0xAA" using sync b [of 1] d_len by auto
  have "report_ok_op D n (s\<lparr>cp := n\<rparr>) = consumed n (s\<lparr>cp := n\<rparr>)" using D(1) s by (simp add: consumes_def)
  then have keep: "report_ok_op D n (s\<lparr>cp := n\<rparr>) = \<lparr>ibuf = d, cp = 0\<rparr>" by (simp add: consumed_def d)
  note step = nph_protocol_input.simps [of D S C s r t x]
  consider (short) "length d < 8" | (part) "8 \<le> length d" "length d < frame_size d"
    | (frame) "8 \<le> length d" "frame_size d \<le> length d" by linarith
  then show ?thesis
  proof cases
    case short
    then show ?thesis using s nf aa d_len keep by (subst step) (auto simp: Let_def)
  next
    case part
    then have f: "ibuf s ! (6 + n) = d ! 6" "ibuf s ! (7 + n) = d ! 7" using b by simp_all
    show ?thesis
      using part s nf aa d_len f keep by (subst step) (auto simp: Let_def frame_size_def)
  next
    case frame
    then have f: "ibuf s ! (6 + n) = d ! 6" "ibuf s ! (7 + n) = d ! 7"
      "ibuf s ! Suc (Suc n) = d ! 2" "ibuf s ! Suc (Suc (Suc n)) = d ! 3"
      using b [of 2] b [of 3] b [of 6] b [of 7] by (simp_all add: numeral_3_eq_3)
    have fs: "frame_size d = unat (Len_of d) + 9" by (simp add: frame_size_def Len_of_def)
    have "nph_protocol_input D S C s r t x =
        (case nph_packet D S C (apid_of d) (Len_of d) d (s\<lparr>cp := n + 8\<rparr>, r, t, x) of
           Inl e \<Rightarrow> Some (Inl e)
         | Inr (s, r, t, x) \<Rightarrow> nph_protocol_input D S C (s\<lparr>cp := cp s + unat (Len_of d) + 1\<rparr>) r t x)"
      using frame s nf aa d_len f fs
      by (subst step) (auto simp: Let_def d [symmetric] Len_of_def apid_of_def add.commute [of _ 8]
          split: sum.splits)
    also have "nph_packet D S C (apid_of d) (Len_of d) d (s\<lparr>cp := n + 8\<rparr>, r, t, x) =
        map_sum id (Pair (s\<lparr>cp := n + 8\<rparr>)) (handle D S C (take (frame_size d) d) (r, t, x))"
      using frame by (intro nph_packet_handle [OF D(2) refl]) simp_all
    finally show ?thesis
      using frame by (simp add: fs ac_simps split: sum.splits prod.splits)
  qed
qed

text \<open>A pass, and what it does to the scan of the input.\<close>

lemma nph_pass:
  assumes D: "consumes D" "reports_only D" "searches D" and s: "cp s < nc s"
    and bs: "bs = drop (cp s) (ibuf s)"
  obtains (rest) left where
      "nph_protocol_input D S C s r t x = Some (Inr (\<lparr>ibuf = left, cp = 0\<rparr>, r, t, x))"
      "nph_scan bs = ([], left)"
    | (again) s' where "nph_protocol_input D S C s r t x = nph_protocol_input D S C s' r t x"
      "nph_scan bs = nph_scan (drop (cp s') (ibuf s'))" "cp s < cp s'" "cp s' \<le> nc s'" "nc s' = nc s"
    | (packet) s' p where "nph_protocol_input D S C s r t x =
        (case handle D S C p (r, t, x) of Inl e \<Rightarrow> Some (Inl e)
         | Inr (r, t, x) \<Rightarrow> nph_protocol_input D S C s' r t x)"
      "nph_scan bs = (p # fst (nph_scan (drop (cp s') (ibuf s'))), snd (nph_scan (drop (cp s') (ibuf s'))))"
      "cp s < cp s'" "cp s' \<le> nc s'" "nc s' = nc s"
proof -
  define n where "n = found_at 0xAA s"
  define d where "d = dropWhile (\<lambda>b. b \<noteq> 0xAA) bs"
  have d: "d = drop n (ibuf s)" "cp s \<le> n"
    by (simp_all add: d_def n_def bs found_at_def dropWhile_eq_drop add.commute)
  have nf: "not_found_op D 0xAA s =
      (if n < nc s then (False, s\<lparr>cp := n + 1\<rparr>) else (True, consumed (nc s) s))"
    using D(3) by (simp add: searches_def n_def)
  note scan = nph_scan_skip [OF d_def] and step = nph_protocol_input.simps [of D S C s r t x]
  show thesis
  proof (cases "n < nc s")
    case False
    have "report_ok_op D 0 (consumed (nc s) s) = consumed 0 (consumed (nc s) s)"
      using D(1) by (simp add: consumes_def)
    then show thesis
      using False s nf d scan(1) by (intro rest [of "[]"]) (simp_all add: step consumed_def)
  next
    case True
    then have found: "d \<noteq> []" "length d = nc s - n" by (simp_all add: d)
    show thesis
    proof (cases "1 < length d \<and> d ! 1 \<noteq> 0xAA")
      case no_sync: True
      then have "Suc n < nc s" "ibuf s ! Suc n \<noteq> 0xAA" using True by (auto simp: d)
      moreover have "drop 1 d = drop (n + 1) (ibuf s)" by (simp add: d)
      then have "nph_scan bs = nph_scan (drop (n + 1) (ibuf s))" using scan(2) no_sync by simp
      ultimately show thesis
        using True s nf d(2) by (intro again [of "s\<lparr>cp := n + 1\<rparr>"]) (simp_all add: step)
    next
      case sync: False
      note pass = nph_pass_sync [OF D(1,2) d(2) True d(1) _ sync, of S C r t x]
      show thesis
      proof (cases "length d < 8 \<or> length d < frame_size d")
        case part: True
        then show thesis
          using pass True nf scan(3) [OF found(1) sync part] by (intro rest [of d]) simp_all
      next
        case frame: False
        let ?s = "s\<lparr>cp := n + frame_size d\<rparr>"
        have rest: "drop (cp ?s) (ibuf ?s) = drop (frame_size d) d" by (simp add: d add.commute)
        have "nph_scan bs = (take (frame_size d) d # fst (nph_scan (drop (cp ?s) (ibuf ?s))),
            snd (nph_scan (drop (cp ?s) (ibuf ?s))))"
          unfolding rest using scan(4) [OF found(1) sync] frame by simp
        moreover have "0 < frame_size d" by (simp add: frame_size_def)
        moreover have "n + frame_size d \<le> nc s" using frame found(2) True by linarith
        ultimately show thesis
          using pass True nf frame found(2) d(2)
          by (intro packet [of ?s "take (frame_size d) d"]) simp_all
      qed
    qed
  qed
qed

lemma nph_run:
  assumes D: "consumes D" "reports_only D" "searches D"
  shows "cp s \<le> nc s \<Longrightarrow> nph_protocol_input D S C s r t x = Some
    (case handle_all D S C (fst (nph_scan (drop (cp s) (ibuf s)))) (r, t, x) of
       Inl e \<Rightarrow> Inl e
     | Inr (r', t', x') \<Rightarrow> Inr (\<lparr>ibuf = snd (nph_scan (drop (cp s) (ibuf s))), cp = 0\<rparr>, r', t', x'))"
proof (induction "nc s - cp s" arbitrary: s r t x rule: less_induct)
  case less
  show ?case
  proof (cases "cp s < nc s")
    case False
    then show ?thesis
      using less.prems D(1)
      by (subst nph_protocol_input.simps) (simp add: consumes_def consumed_def nph_scan.simps [of "[]"])
  next
    case True
    have IH: "nph_protocol_input D S C s' r' t' x' = Some
        (case handle_all D S C (fst (nph_scan (drop (cp s') (ibuf s')))) (r', t', x') of
           Inl e \<Rightarrow> Inl e
         | Inr (r', t', x') \<Rightarrow> Inr (\<lparr>ibuf = snd (nph_scan (drop (cp s') (ibuf s'))), cp = 0\<rparr>, r', t', x'))"
      if "cp s < cp s'" "cp s' \<le> nc s'" "nc s' = nc s" for s' r' t' x'
      using that True by (intro less.hyps) simp_all
    show ?thesis
    proof (cases rule: nph_pass [OF D True refl, of S C r t x, case_names rest again packet])
      case (again s')
      then show ?thesis unfolding again(1,2) using IH [OF again(3-5)] by simp
    next
      case (packet s' p)
      show ?thesis
      proof (cases "handle D S C p (r, t, x)")
        case (Inr y)
        then show ?thesis
          unfolding packet(1,2) fst_conv snd_conv using IH [OF packet(3-5)] by (cases y) simp
      qed (simp add: packet(1,2))
    qed simp
  qed
qed

section \<open>Cutting the stream\<close>

lemma frame_size_append: "8 \<le> length bs \<Longrightarrow> frame_size (bs @ cs) = frame_size bs"
  by (simp add: frame_size_def nth_append)

lemma frame_size_pos: "9 \<le> frame_size bs"
  by (simp add: frame_size_def)

lemma dropWhile_split:
  "dropWhile P (bs @ cs) = (if dropWhile P bs = [] then dropWhile P cs else dropWhile P bs @ cs)"
  by (induction bs) auto

lemma nph_scan_dropWhile: "nph_scan (dropWhile (\<lambda>b. b \<noteq> 0xAA) bs) = nph_scan bs"
proof -
  have "dropWhile (\<lambda>b. b \<noteq> 0xAA) (dropWhile (\<lambda>b. b \<noteq> 0xAA) bs) = dropWhile (\<lambda>b. b \<noteq> 0xAA) bs"
    by (induction bs) auto
  then show ?thesis by (subst (1 2) nph_scan.simps) (simp only:)
qed

text \<open>What is left of one read is where the next one goes on.\<close>

lemma nph_scan_append:
  "nph_scan (bs @ cs) = (fst (nph_scan bs) @ fst (nph_scan (snd (nph_scan bs) @ cs)),
     snd (nph_scan (snd (nph_scan bs) @ cs)))"
proof (induction bs rule: nph_scan.induct)
  case (1 bs)
  define d where "d = dropWhile (\<lambda>b. b \<noteq> 0xAA) bs"
  note scan = nph_scan_skip [OF d_def] and IH = "1.IH" [OF d_def]
  show ?case
  proof (cases "d = []")
    case True
    then have "nph_scan (bs @ cs) = nph_scan cs"
      by (subst (1 2) nph_scan.simps) (simp add: dropWhile_split d_def)
    with scan(1) [OF True] show ?thesis by simp
  next
    case found: False
    have dc: "d @ cs = dropWhile (\<lambda>b. b \<noteq> 0xAA) (bs @ cs)"
      using found unfolding d_def by (simp only: dropWhile_split if_False)
    note scan' = nph_scan_skip [OF dc]
    consider (again) "1 < length d" "d ! 1 \<noteq> 0xAA"
      | (wait) "\<not> (1 < length d \<and> d ! 1 \<noteq> 0xAA)" "length d < 8 \<or> length d < frame_size d"
      | (frame) "\<not> (1 < length d \<and> d ! 1 \<noteq> 0xAA)" "8 \<le> length d" "frame_size d \<le> length d"
      by linarith
    then show ?thesis
    proof cases
      case again
      then have "nph_scan (bs @ cs) = nph_scan (drop 1 d @ cs)"
        using scan'(2) by (simp add: nth_append)
      with again scan(2) IH(1) [OF found] show ?thesis by simp
    next
      case wait
      have "nph_scan (bs @ cs) = nph_scan (d @ cs)"
        by (subst dc) (rule nph_scan_dropWhile [symmetric])
      with scan(3) [OF found wait] show ?thesis by simp
    next
      case frame
      have "\<not> (1 < length (d @ cs) \<and> (d @ cs) ! 1 \<noteq> 0xAA)"
        using frame(1,2) by (simp add: nth_append)
      then have "nph_scan (bs @ cs) = (take (frame_size d) d # fst (nph_scan (drop (frame_size d) d @ cs)),
          snd (nph_scan (drop (frame_size d) d @ cs)))"
        using scan'(4) found frame by (simp add: frame_size_append)
      with frame scan(4) [OF found frame] IH(2) [OF found frame(1)] show ?thesis by simp
    qed
  qed
qed

text \<open>A packet as the instrument sends it.\<close>

definition nph_wf :: "byte list \<Rightarrow> bool" where
  "nph_wf p \<longleftrightarrow> 8 \<le> length p \<and> take 2 p = [0xAA, 0xAA] \<and> length p = frame_size p"

lemma nph_scan_frame:
  assumes "0xAA \<notin> set junk" and "nph_wf p"
  shows "nph_scan (junk @ p @ cs) = (p # fst (nph_scan cs), snd (nph_scan cs))"
proof -
  obtain p' where p': "p = 0xAA # 0xAA # p'"
    using assms(2) by (cases p; cases "tl p") (auto simp: nph_wf_def)
  have "dropWhile (\<lambda>b. b \<noteq> 0xAA) (junk @ p @ cs) = p @ cs"
    using assms(1) by (subst dropWhile_append2) (auto simp: p')
  note scan = nph_scan_skip(4) [OF this [symmetric]]
  have "frame_size (p @ cs) = length p" using assms(2) by (simp add: nph_wf_def frame_size_append)
  then show ?thesis using scan assms(2) by (simp add: nph_wf_def p')
qed

lemma nph_scan_complete:
  "p \<in> set (fst (nph_scan bs)) \<Longrightarrow> 8 \<le> length p \<and> length p = frame_size p"
proof (induction bs rule: nph_scan.induct)
  case (1 bs)
  define d where "d = dropWhile (\<lambda>b. b \<noteq> 0xAA) bs"
  note scan = nph_scan_skip [OF d_def] and IH = "1.IH" [OF d_def]
  consider (none) "d = []" | (again) "d \<noteq> []" "1 < length d \<and> d ! 1 \<noteq> 0xAA"
    | (wait) "d \<noteq> []" "\<not> (1 < length d \<and> d ! 1 \<noteq> 0xAA)" "length d < 8 \<or> length d < frame_size d"
    | (frame) "d \<noteq> []" "\<not> (1 < length d \<and> d ! 1 \<noteq> 0xAA)" "8 \<le> length d" "frame_size d \<le> length d"
    by linarith
  then show ?case
  proof cases
    case none
    with scan(1) "1.prems" show ?thesis by simp
  next
    case again
    with scan(2) "1.prems" IH(1) show ?thesis by simp
  next
    case wait
    with scan(3) [OF wait] "1.prems" show ?thesis by simp
  next
    case frame
    have "frame_size (take (frame_size d) d) = frame_size d"
      using frame_size_pos [of d] by (simp add: frame_size_def)
    with frame scan(4) [OF frame] "1.prems" IH(2) [OF frame(1,2)] frame_size_pos [of d]
    show ?thesis by auto
  qed
qed

lemma length_concat_ge: "p \<in> set ps \<Longrightarrow> length p \<le> length (concat ps)"
  by (induction ps) auto

lemma nph_scan_length: "length (concat (fst (nph_scan bs))) \<le> length bs"
proof (induction bs rule: nph_scan.induct)
  case (1 bs)
  define d where "d = dropWhile (\<lambda>b. b \<noteq> 0xAA) bs"
  have le: "length d \<le> length bs" by (simp add: d_def length_dropWhile_le)
  note scan = nph_scan_skip [OF d_def] and IH = "1.IH" [OF d_def]
  consider (none) "d = []" | (again) "d \<noteq> []" "1 < length d \<and> d ! 1 \<noteq> 0xAA"
    | (wait) "d \<noteq> []" "\<not> (1 < length d \<and> d ! 1 \<noteq> 0xAA)" "length d < 8 \<or> length d < frame_size d"
    | (frame) "d \<noteq> []" "\<not> (1 < length d \<and> d ! 1 \<noteq> 0xAA)" "8 \<le> length d" "frame_size d \<le> length d"
    by linarith
  then show ?case
  proof cases
    case none
    with scan(1) show ?thesis by simp
  next
    case again
    with scan(2) IH(1) le show ?thesis by simp
  next
    case wait
    with scan(3) [OF wait] show ?thesis by simp
  next
    case frame
    with scan(4) [OF frame] IH(2) [OF frame(1,2)] le show ?thesis by simp
  qed
qed

section \<open>The effect of a packet\<close>

text \<open>A packet that makes \<open>not_reported\<close> look outside the table.\<close>

definition off_table :: "byte list \<Rightarrow> bool" where
  "off_table p \<longleftrightarrow> apid_of p > MAX_APID \<and> unat (Len_of p) \<noteq> 6"

lemma handle_off_table:
  assumes "length t = MAX_APID + 1" "off_table p"
  shows "handle D S C p (r, t, x) = Inl Out_of_bounds"
  using assms
  by (simp add: handle_def nph_packet_def off_table_def apid_get_size_def not_reported_def Let_def)

lemma not_reported_in: "a < length t \<Longrightarrow> \<exists>b t'. not_reported a t = Inr (b, t')"
  by (auto simp: not_reported_def)

lemma handle_on_table:
  assumes t: "wf_table t" and p: "length p = frame_size p" "\<not> off_table p"
  shows "\<exists>r' t' x'. handle D S C p (r, t, x) = Inr (r', t', x') \<and> nlogged r' = nlogged r @ [p]
    \<and> wf_table t'
    \<and> (x' = x \<or> nte_CTS C x \<and> nte_forward_packet S C p (word_of_nat (length p)) x = Inr x')"
proof -
  define ask where "ask = (if unat (apid_get_size (apid_of p) t) + 6 \<noteq> unat (Len_of p)
    then not_reported (apid_of p) t else Inr (False, t))"
  have "\<exists>b t1. ask = Inr (b, t1)"
  proof (cases "apid_of p \<le> MAX_APID")
    case True
    then have "apid_of p < length t" using t by (simp add: wf_table_def)
    then show ?thesis using not_reported_in [of "apid_of p" t] by (auto simp: ask_def)
  next
    case False
    then show ?thesis using p(2) by (auto simp: ask_def off_table_def apid_get_size_def)
  qed
  then obtain b t1 where ask: "ask = Inr (b, t1)" by blast
  have t1: "wf_table t1"
    using ask t not_reported_wf [OF t] by (auto simp: ask_def split: if_splits)
  have n: "unat (Len_of p) + 9 = length p" using p(1) by (simp add: frame_size_def Len_of_def)
  obtain ok t2 where tr: "OK_to_transmit (apid_of p) t1 = (ok, t2)"
    by (cases "OK_to_transmit (apid_of p) t1")
  have t2: "wf_table t2" using OK_to_transmit_wf [OF t1, of "apid_of p"] tr by simp
  have run: "handle D S C p (r, t, x) = (let r = r\<lparr>nTO := Some 5, nlogged := nlogged r @ [p]\<rparr>
      in if nte_CTS C x
         then if ok then bind_sum (nte_forward_packet S C p (word_of_nat (length p)) x)
             (\<lambda>x. Inr (r, t2, x))
           else Inr (r, t2, x)
         else Inr (r, t1, x))"
    using ask tr
    by (simp add: handle_def nph_packet_def ask_def [symmetric] n Let_def bind_sum_def
        split: sum.splits)
  show ?thesis
  proof (cases "nte_CTS C x \<and> ok")
    case True
    then have "\<exists>x'. nte_forward_packet S C p (word_of_nat (length p)) x = Inr x'"
      by (simp add: nte_forward_packet_def Let_def)
    then show ?thesis using run True t2 by (auto simp: Let_def)
  next
    case False
    then show ?thesis using run t1 t2 by (auto simp: Let_def)
  qed
qed

lemma handle_all_result:
  assumes "wf_table t" and "\<forall>p \<in> set ps. length p = frame_size p"
  shows "if \<exists>p \<in> set ps. off_table p then handle_all D S C ps (r, t, x) = Inl Out_of_bounds
    else \<exists>r' t' x'. handle_all D S C ps (r, t, x) = Inr (r', t', x')
      \<and> nlogged r' = nlogged r @ ps \<and> wf_table t'"
  using assms
proof (induction ps arbitrary: r t x)
  case Nil
  then show ?case by simp
next
  case (Cons p ps)
  show ?case
  proof (cases "off_table p")
    case True
    then show ?thesis
      using handle_off_table [of t p D S C r x] Cons.prems(1) by (simp add: wf_table_def)
  next
    case False
    obtain r' t' x' where "handle D S C p (r, t, x) = Inr (r', t', x')"
      "nlogged r' = nlogged r @ [p]" "wf_table t'"
      using handle_on_table [OF Cons.prems(1) _ False] Cons.prems(2) by (metis list.set_intros(1))
    with Cons.IH [of t' r' x'] Cons.prems(2) False show ?thesis by (auto split: if_splits)
  qed
qed

text \<open>What reaches the exporter: frames of some of the packets, in order, within the credit.\<close>

lemma handle_all_forwards:
  assumes w: "appends C w" "pkt_hdr_size S < 2 ^ 31"
    and t: "wf_table t" and ps: "\<forall>p \<in> set ps. length p = frame_size p \<and> length p < 2 ^ 16"
    and run: "handle_all D S C ps (r, t, x) = Inr (r', t', x')"
  shows "\<exists>fw. subseq fw ps \<and> w (nchan x') = w (nchan x) @ concat (map (nph_frame S) fw)
    \<and> noutstanding x' = noutstanding x + length (concat fw) + length fw * pkt_hdr_size S
    \<and> noutstanding x' \<le> max (noutstanding x) (1999 + pkt_hdr_size S + 65535)"
  using t ps run
proof (induction ps arbitrary: r t x)
  case Nil
  then show ?case by (intro exI [of _ "[]"]) simp
next
  case (Cons p ps)
  have p: "length p = frame_size p" "length p < 2 ^ 16" using Cons.prems(2) by simp_all
  have on: "\<not> off_table p"
    using handle_off_table [of t p D S C r x] Cons.prems(1,3) by (auto simp: wf_table_def)
  obtain r1 t1 x1 where h: "handle D S C p (r, t, x) = Inr (r1, t1, x1)" "wf_table t1"
    "x1 = x \<or> nte_CTS C x \<and> nte_forward_packet S C p (word_of_nat (length p)) x = Inr x1"
    using handle_on_table [OF Cons.prems(1) p(1) on] by metis
  have ps': "\<forall>p \<in> set ps. length p = frame_size p \<and> length p < 2 ^ 16"
    using Cons.prems(2) by auto
  have run': "handle_all D S C ps (r1, t1, x1) = Inr (r', t', x')" using Cons.prems(3) h(1) by simp
  obtain fw where fw: "subseq fw ps"
    "w (nchan x') = w (nchan x1) @ concat (map (nph_frame S) fw)"
    "noutstanding x' = noutstanding x1 + length (concat fw) + length fw * pkt_hdr_size S"
    "noutstanding x' \<le> max (noutstanding x1) (1999 + pkt_hdr_size S + 65535)"
    using Cons.IH [OF h(2) ps' run'] by blast
  from h(3) show ?case
  proof
    assume "x1 = x"
    with fw show ?thesis by (intro exI [of _ fw]) auto
  next
    assume f: "nte_CTS C x \<and> nte_forward_packet S C p (word_of_nat (length p)) x = Inr x1"
    then have x1: "w (nchan x1) = w (nchan x) @ nph_frame S p"
      "noutstanding x1 = noutstanding x + pkt_hdr_size S + length p" "noutstanding x < 2000"
      using nte_forward_ok [OF _ w(1) p(2) w(2), of x] by (auto simp: nte_CTS_def)
    have "noutstanding x' \<le> max (noutstanding x) (1999 + pkt_hdr_size S + 65535)"
      using fw(4) x1(2,3) p(2) by (simp add: max_def split: if_splits)
    with fw x1 show ?thesis by (intro exI [of _ "p # fw"]) simp
  qed
qed

section \<open>Reads\<close>

text \<open>The receiver over a sequence of reads, each appended to what the last one left.\<close>

fun nph_reads ::
  "dasio \<Rightarrow> serio \<Rightarrow> 'o chan_ops \<Rightarrow> byte list list \<Rightarrow> inbuf \<Rightarrow> nph_rcvr \<Rightarrow> apid_table \<Rightarrow> 'o nte \<Rightarrow>
   (fault + inbuf \<times> nph_rcvr \<times> apid_table \<times> 'o nte) option" where
  "nph_reads D S C [] s r t x = Some (Inr (s, r, t, x))"
| "nph_reads D S C (bs # bss) s r t x =
     (case nph_protocol_input D S C (s\<lparr>ibuf := ibuf s @ bs\<rparr>) r t x of
        None \<Rightarrow> None
      | Some (Inl e) \<Rightarrow> Some (Inl e)
      | Some (Inr (s, r, t, x)) \<Rightarrow> nph_reads D S C bss s r t x)"

interpretation nph_stream: stream_scan nph_scan
proof unfold_locales
  show "nph_scan [] = ([], [])" by (subst nph_scan.simps) simp
qed (rule nph_scan_append)

lemma nph_reads_eq:
  assumes "consumes D" "reports_only D" "searches D"
  shows "nph_reads D S C bss \<lparr>ibuf = left, cp = 0\<rparr> r t x
    = Some (map_sum id (\<lambda>(left, y). (\<lparr>ibuf = left, cp = 0\<rparr>, y))
        (read_all nph_scan (handle D S C) left bss (r, t, x)))"
proof (induction bss arbitrary: left r t x)
  case (Cons bs bss)
  show ?case
    using nph_run [OF assms, of "\<lparr>ibuf = left @ bs, cp = 0\<rparr>" S C r t x]
    by (simp add: Cons.IH split: sum.splits prod.splits)
qed simp

section \<open>Properties\<close>

text \<open>
  C17: \<open>protocol_input\<close> always returns, and is the handling, in order, of the packets that
  cutting the unread bytes yields: it faults exactly when one of them has an APID above 151 and a
  length other than 6, because \<open>not_reported\<close> then reads and writes outside the table;
  otherwise every packet is logged, once and unchanged, the table stays well formed, and the
  bytes of an incomplete packet are kept for the next call.
\<close>

theorem nph_input_logs_or_faults:
  assumes "consumes D" "reports_only D" "searches D" and "cp s \<le> nc s" and "wf_table t"
    and "(ps, left) = nph_scan (drop (cp s) (ibuf s))"
  shows "if \<exists>p \<in> set ps. apid_of p > MAX_APID \<and> unat (Len_of p) \<noteq> 6
    then nph_protocol_input D S C s r t x = Some (Inl Out_of_bounds)
    else \<exists>r' t' x'. nph_protocol_input D S C s r t x = Some (Inr (\<lparr>ibuf = left, cp = 0\<rparr>, r', t', x'))
      \<and> nlogged r' = nlogged r @ ps \<and> wf_table t'"
proof -
  have scan: "nph_scan (drop (cp s) (ibuf s)) = (ps, left)" using assms(6) by simp
  have "\<forall>p \<in> set ps. length p = frame_size p"
    using nph_scan_complete [of _ "drop (cp s) (ibuf s)"] scan by simp
  from handle_all_result [OF assms(5) this, of D S C r x]
  show ?thesis
    using nph_run [OF assms(1-4), of S C r t x] scan
    by (auto simp: off_table_def split: if_splits)
qed

text \<open>
  C19: How the stream is cut into reads does not matter: over any sequence of reads, started with
  an empty buffer, log, table, exporter, remaining bytes and outcome (a fault included) are what
  one read of all the bytes gives.
\<close>

theorem nph_any_reads:
  assumes D: "consumes D" "reports_only D" "searches D"
  shows "nph_reads D S C bss \<lparr>ibuf = [], cp = 0\<rparr> r t x
    = nph_protocol_input D S C \<lparr>ibuf = concat bss, cp = 0\<rparr> r t x"
  unfolding nph_reads_eq [OF D] nph_stream.reads_merge
  using nph_run [OF D, of "\<lparr>ibuf = concat bss, cp = 0\<rparr>" S C r t x]
  by (simp add: bind_sum_def split: sum.splits prod.splits)

text \<open>
  The same from any state: processing a first part and then more bytes leaves everything as
  processing both at once does.
\<close>

theorem nph_fragmentation:
  assumes D: "consumes D" "reports_only D" "searches D" and "cp s \<le> nc s"
    and run: "nph_protocol_input D S C s r t x = Some (Inr (s1, r1, t1, x1))"
  shows "nph_protocol_input D S C (s\<lparr>ibuf := ibuf s @ bs\<rparr>) r t x
    = nph_protocol_input D S C (s1\<lparr>ibuf := ibuf s1 @ bs\<rparr>) r1 t1 x1"
proof -
  define a where "a = nph_scan (drop (cp s) (ibuf s))"
  have first: "handle_all D S C (fst a) (r, t, x) = Inr (r1, t1, x1)" "s1 = \<lparr>ibuf = snd a, cp = 0\<rparr>"
    using nph_run [OF D assms(4), of S C r t x] run
    by (auto simp: a_def split: sum.splits prod.splits)
  have app: "nph_scan (drop (cp s) (ibuf s) @ bs)
      = (fst a @ fst (nph_scan (snd a @ bs)), snd (nph_scan (snd a @ bs)))"
    unfolding a_def by (rule nph_scan_append)
  have cps: "cp (s\<lparr>ibuf := ibuf s @ bs\<rparr>) \<le> nc (s\<lparr>ibuf := ibuf s @ bs\<rparr>)"
    "cp (s1\<lparr>ibuf := ibuf s1 @ bs\<rparr>) \<le> nc (s1\<lparr>ibuf := ibuf s1 @ bs\<rparr>)"
    using assms(4) first(2) by simp_all
  have rest: "drop (cp (s\<lparr>ibuf := ibuf s @ bs\<rparr>)) (ibuf (s\<lparr>ibuf := ibuf s @ bs\<rparr>))
      = drop (cp s) (ibuf s) @ bs"
    "drop (cp (s1\<lparr>ibuf := ibuf s1 @ bs\<rparr>)) (ibuf (s1\<lparr>ibuf := ibuf s1 @ bs\<rparr>)) = snd a @ bs"
    using assms(4) first(2) by simp_all
  show ?thesis
    unfolding nph_run [OF D cps(1), of S C r t x] nph_run [OF D cps(2), of S C r1 t1 x1] rest app
      fst_conv snd_conv
    by (simp add: first(1) handle_list_append)
qed

text \<open>
  What is forwarded: the stream to \<open>tm_ip_export\<close> gets the frames of a subsequence of the
  packets in the input, and every byte sent is counted as outstanding; a packet is only sent
  with credit, so the assertion of \<open>forward_packet\<close> never fails and no more than the credit limit
  and one packet is outstanding. Packets are shorter than 64k, as the receive buffer is.
\<close>

lemma nph_forwards_within_credit:
  assumes D: "consumes D" "reports_only D" "searches D" and w: "appends C w" "pkt_hdr_size S < 2 ^ 31"
    and "cp s \<le> nc s" and "nc s < 2 ^ 16" and t: "wf_table t"
    and run: "nph_protocol_input D S C s r t x = Some (Inr (s', r', t', x'))"
  shows "\<exists>fw. subseq fw (fst (nph_scan (drop (cp s) (ibuf s))))
    \<and> w (nchan x') = w (nchan x) @ concat (map (nph_frame S) fw)
    \<and> noutstanding x' = noutstanding x + length (concat fw) + length fw * pkt_hdr_size S
    \<and> noutstanding x' \<le> max (noutstanding x) (1999 + pkt_hdr_size S + 65535)"
proof -
  let ?bs = "drop (cp s) (ibuf s)"
  have h: "handle_all D S C (fst (nph_scan ?bs)) (r, t, x) = Inr (r', t', x')"
    using nph_run [OF D assms(6), of S C r t x] run by (auto split: sum.splits prod.splits)
  have "length p \<le> length ?bs" if "p \<in> set (fst (nph_scan ?bs))" for p
    using le_trans [OF length_concat_ge [OF that] nph_scan_length] .
  then have "\<forall>p \<in> set (fst (nph_scan ?bs)). length p = frame_size p \<and> length p < 2 ^ 16"
    using nph_scan_complete assms(7) by fastforce
  from handle_all_forwards [OF w t this h] show ?thesis .
qed

section \<open>Witnesses\<close>

text \<open>A laser power packet (APID 143, four bytes and the time), and one of the unknown APID 300.\<close>

definition power_packet :: "byte list" where
  "power_packet = [0xAA, 0xAA, 143, 0, 0, 0, 1, 0, 7, 8]"

definition stray_packet :: "byte list" where
  "stray_packet = [0xAA, 0xAA, 0x2C, 1, 0, 0, 1, 0, 7, 8]"

definition some_table :: apid_table where
  "some_table = map initial_entry [0..<152]"

lemma wf_some_table [simp]: "wf_table some_table"
  using wf_initial_entry by (auto simp: some_table_def wf_table_def MAX_APID_def)

abbreviation new_nph :: nph_rcvr where
  "new_nph \<equiv> \<lparr>nTO = None, nflags = 0, nlogged = []\<rparr>"

lemma scan_stray: "nph_scan stray_packet = ([stray_packet], [])" "nph_wf stray_packet"
  "apid_of stray_packet = 300" "unat (Len_of stray_packet) = 1"
  by code_simp+

lemma scan_power: "nph_scan power_packet = ([power_packet], [])" "nph_wf power_packet"
  "apid_of power_packet = 143"
  by code_simp+

theorem nph_input_logs_or_faults_witness:
  "nph_protocol_input plain_dasio plain_serio open_chan \<lparr>ibuf = stray_packet, cp = 0\<rparr>
     new_nph some_table (nephex_tcp_export []) = Some (Inl Out_of_bounds)
   \<and> (\<exists>r' t' x'. nph_protocol_input plain_dasio plain_serio open_chan
       \<lparr>ibuf = power_packet, cp = 0\<rparr> new_nph some_table (nephex_tcp_export [])
       = Some (Inr (\<lparr>ibuf = [], cp = 0\<rparr>, r', t', x')) \<and> nlogged r' = [power_packet])"
  using nph_input_logs_or_faults [OF plain_dasio_ok(1-3) _ wf_some_table,
      of "\<lparr>ibuf = stray_packet, cp = 0\<rparr>" "[stray_packet]" "[]" plain_serio open_chan new_nph
        "nephex_tcp_export []"]
    nph_input_logs_or_faults [OF plain_dasio_ok(1-3) _ wf_some_table,
      of "\<lparr>ibuf = power_packet, cp = 0\<rparr>" "[power_packet]" "[]" plain_serio open_chan new_nph
        "nephex_tcp_export []"]
    scan_stray scan_power
  by (auto simp: MAX_APID_def)

theorem nph_any_reads_witness:
  "nph_reads plain_dasio plain_serio open_chan [[3, 0xAA], [], [0xAA, 143, 0], [0]]
     \<lparr>ibuf = [], cp = 0\<rparr> new_nph some_table (nephex_tcp_export [])
   = nph_protocol_input plain_dasio plain_serio open_chan
     \<lparr>ibuf = concat [[3, 0xAA], [], [0xAA, 143, 0], [0]], cp = 0\<rparr> new_nph some_table (nephex_tcp_export [])"
  by (rule nph_any_reads [OF plain_dasio_ok(1-3)])

theorem nph_fragmentation_witness:
  "\<exists>s1 r1 t1 x1.
     nph_protocol_input plain_dasio plain_serio open_chan (\<lparr>ibuf = [3, 0xAA] @ [0xAA, 143], cp = 0\<rparr>)
       new_nph some_table (nephex_tcp_export [])
     = nph_protocol_input plain_dasio plain_serio open_chan (s1\<lparr>ibuf := ibuf s1 @ [0xAA, 143]\<rparr>) r1 t1 x1
     \<and> ibuf s1 = [0xAA]"
proof -
  have scan: "nph_scan [3, 0xAA] = ([], [0xAA])" by code_simp
  let ?s = "\<lparr>ibuf = [3, 0xAA], cp = 0\<rparr>"
  have run: "nph_protocol_input plain_dasio plain_serio open_chan ?s new_nph some_table
      (nephex_tcp_export []) = Some (Inr (\<lparr>ibuf = [0xAA], cp = 0\<rparr>, new_nph, some_table,
        nephex_tcp_export []))"
    using nph_run [OF plain_dasio_ok(1-3), of ?s plain_serio open_chan new_nph some_table
        "nephex_tcp_export []"] scan
    by simp
  from nph_fragmentation [OF plain_dasio_ok(1-3) _ run, of "[0xAA, 143]"]
  show ?thesis
    by (intro exI [of _ "\<lparr>ibuf = [0xAA], cp = 0\<rparr>"] exI [of _ new_nph] exI [of _ some_table]
        exI [of _ "nephex_tcp_export []"]) simp
qed

end
