(* ===== verification/NphSystem.thy ===== *)
theory NphSystem
  imports EventLoop NphRcvr
begin

text \<open>
  The nephelometer program as a whole (\<open>main\<close> of \<open>Nephex/nephex_export.cc\<close>): one connection to the
  instrument, one to \<open>tm_ip_export\<close>, the table of packet types, and what the event loop delivers.
\<close>

section \<open>The program\<close>

definition NPH_RCVR_BUFSIZE :: nat where
  "NPH_RCVR_BUFSIZE = 50000"

definition nephex_tcp_rcvr :: "u32 \<Rightarrow> nph_rcvr" where
  "nephex_tcp_rcvr flags0 = \<lparr>nTO = None, nflags = flags0, nlogged = []\<rparr>"

text \<open>\<open>reset()\<close> of the base class closes the connection and prepares the next attempt.\<close>

type_synonym resetter = "inbuf \<times> nph_rcvr \<Rightarrow> bool \<times> inbuf \<times> nph_rcvr"

definition nph_protocol_timeout :: "resetter \<Rightarrow> inbuf \<times> nph_rcvr \<Rightarrow> bool \<times> inbuf \<times> nph_rcvr" where
  "nph_protocol_timeout reset sr = reset sr"

definition nph_process_eof :: "resetter \<Rightarrow> inbuf \<times> nph_rcvr \<Rightarrow> bool \<times> inbuf \<times> nph_rcvr" where
  "nph_process_eof reset sr = reset sr"

record 'o nephex =
  APid_defs :: apid_table
  NTEXP :: "'o nte"
  ntexp_buf :: inbuf
  NTCP :: nph_rcvr
  ntcp_buf :: inbuf

definition nephex_main :: "apid_table \<Rightarrow> u32 \<Rightarrow> 'o \<Rightarrow> fault + 'o nephex" where
  "nephex_main mem flags0 out =
     bind_sum (APid_new False mem) (\<lambda>t.
       Inr \<lparr>APid_defs = t, NTEXP = nephex_tcp_export out, ntexp_buf = \<lparr>ibuf = [], cp = 0\<rparr>,
            NTCP = nephex_tcp_rcvr flags0, ntcp_buf = \<lparr>ibuf = [], cp = 0\<rparr>\<rparr>)"

datatype 'o nph_event =
    Nph_connected | Nph_read "byte list" | Nph_timeout | Nph_eof | Nph_replied "byte list" | Nph_sent 'o

record 'o nph_lib =
  nph_dasio :: dasio
  nph_serio :: serio
  nph_chan :: "'o chan_ops"
  nph_Fl_Timeout :: u32
  nph_reset :: resetter

fun nph_handle :: "'o nph_lib \<Rightarrow> 'o nph_event \<Rightarrow> 'o nephex \<Rightarrow> (fault + 'o nephex) option" where
  "nph_handle L Nph_connected p =
     Some (Inr (p\<lparr>NTCP := nph_connected (nph_Fl_Timeout L) (NTCP p)\<rparr>))"
| "nph_handle L (Nph_read bs) p =
     map_option (map_sum id (\<lambda>(s, r, t, x). p\<lparr>ntcp_buf := s, NTCP := r, APid_defs := t, NTEXP := x\<rparr>))
       (nph_protocol_input (nph_dasio L) (nph_serio L) (nph_chan L)
          ((ntcp_buf p)\<lparr>ibuf := ibuf (ntcp_buf p) @ bs\<rparr>) (NTCP p) (APid_defs p) (NTEXP p))"
| "nph_handle L Nph_timeout p =
     (let (rv, s, r) = nph_protocol_timeout (nph_reset L) (ntcp_buf p, NTCP p)
      in Some (Inr (p\<lparr>ntcp_buf := s, NTCP := r\<rparr>)))"
| "nph_handle L Nph_eof p =
     (let (rv, s, r) = nph_process_eof (nph_reset L) (ntcp_buf p, NTCP p)
      in Some (Inr (p\<lparr>ntcp_buf := s, NTCP := r\<rparr>)))"
| "nph_handle L (Nph_replied bs) p =
     map_option (map_sum id (\<lambda>(s, x). p\<lparr>ntexp_buf := s, NTEXP := x\<rparr>))
       (nte_app_input (nph_dasio L) (nph_serio L)
          ((ntexp_buf p)\<lparr>ibuf := ibuf (ntexp_buf p) @ bs\<rparr>) (NTEXP p))"
| "nph_handle L (Nph_sent out) p = Some (Inr (p\<lparr>NTEXP := (NTEXP p)\<lparr>nchan := out\<rparr>\<rparr>))"

text \<open>A read fills at most the receive buffer; the timeout needs to be set.\<close>

fun nph_enabled :: "('o \<Rightarrow> byte list) \<Rightarrow> 'o nph_event \<Rightarrow> 'o nephex \<Rightarrow> bool" where
  "nph_enabled w (Nph_read bs) p \<longleftrightarrow> nc (ntcp_buf p) + length bs \<le> NPH_RCVR_BUFSIZE"
| "nph_enabled w Nph_timeout p \<longleftrightarrow> nTO (NTCP p) \<noteq> None"
| "nph_enabled w (Nph_sent out) p \<longleftrightarrow> w out = w (nchan (NTEXP p))"
| "nph_enabled w _ p \<longleftrightarrow> True"

abbreviation nph_run_of ::
  "'o nph_lib \<Rightarrow> ('o \<Rightarrow> byte list) \<Rightarrow> 'o nephex \<Rightarrow> 'o nph_event list \<Rightarrow> 'o nephex \<Rightarrow> bool" where
  "nph_run_of L w \<equiv> runs (nph_enabled w) (nph_handle L)"

section \<open>The invariant\<close>

definition nph_lib_ok :: "'o nph_lib \<Rightarrow> ('o \<Rightarrow> byte list) \<Rightarrow> bool" where
  "nph_lib_ok L w \<longleftrightarrow> consumes (nph_dasio L) \<and> reports_only (nph_dasio L) \<and> searches (nph_dasio L)
     \<and> presents_packets (nph_serio L) \<and> appends (nph_chan L) w
     \<and> pkt_hdr_size (nph_serio L) < 2 ^ 31
     \<and> (\<forall>s r rv s' r'. nph_reset L (s, r) = (rv, s', r') \<longrightarrow>
          nlogged r' = nlogged r \<and> cp s' \<le> nc s' \<and> nc s' \<le> nc s)"

definition nph_sys_inv :: "'o nph_lib \<Rightarrow> ('o \<Rightarrow> byte list) \<Rightarrow> byte list \<Rightarrow> 'o nephex \<Rightarrow> bool" where
  "nph_sys_inv L w before p \<longleftrightarrow> cp (ntcp_buf p) \<le> nc (ntcp_buf p)
     \<and> nc (ntcp_buf p) \<le> NPH_RCVR_BUFSIZE \<and> wf_table (APid_defs p)
     \<and> noutstanding (NTEXP p) \<le> 1999 + pkt_hdr_size (nph_serio L) + 65535
     \<and> (\<exists>fw. subseq fw (nlogged (NTCP p))
          \<and> w (nchan (NTEXP p)) = before @ concat (map (nph_frame (nph_serio L)) fw))"

text \<open>The packets a read completes.\<close>

definition completes :: "byte list \<Rightarrow> 'o nephex \<Rightarrow> byte list list" where
  "completes bs p = fst (nph_scan (drop (cp (ntcp_buf p)) (ibuf (ntcp_buf p)) @ bs))"

lemma nph_scan_left: "length (snd (nph_scan bs)) \<le> length bs"
proof (induction bs rule: nph_scan.induct)
  case (1 bs)
  define d where "d = dropWhile (\<lambda>b. b \<noteq> 0xAA) bs"
  have le: "length d \<le> length bs" by (simp add: d_def length_dropWhile_le)
  note scan = nph_scan_skip [OF d_def] and IH = "1.IH" [OF d_def]
  consider (none) "d = []" | (again) "d \<noteq> []" "1 < length d \<and> d ! 1 \<noteq> 0xAA"
    | (wait) "d \<noteq> []" "\<not> (1 < length d \<and> d ! 1 \<noteq> 0xAA)" "length d < 8 \<or> length d < frame_size d"
    | (frame) "d \<noteq> []" "\<not> (1 < length d \<and> d ! 1 \<noteq> 0xAA)" "8 \<le> length d" "frame_size d \<le> length d"
    by linarith
  then show ?case
  proof cases
    case none
    with scan(1) show ?thesis by simp
  next
    case again
    with scan(2) IH(1) le show ?thesis by simp
  next
    case wait
    with scan(3) [OF wait] le show ?thesis by simp
  next
    case frame
    with scan(4) [OF frame] IH(2) [OF frame(1,2)] le show ?thesis by simp
  qed
qed

lemma nph_read_ok:
  assumes lib: "nph_lib_ok L w" and inv: "nph_sys_inv L w before p"
    and en: "nph_enabled w (Nph_read bs) p"
  shows "if \<exists>d \<in> set (completes bs p). off_table d
    then nph_handle L (Nph_read bs) p = Some (Inl Out_of_bounds)
    else \<exists>p'. nph_handle L (Nph_read bs) p = Some (Inr p') \<and> nph_sys_inv L w before p'
      \<and> nlogged (NTCP p') = nlogged (NTCP p) @ completes bs p
      \<and> ntcp_buf p' = \<lparr>ibuf = snd (nph_scan (drop (cp (ntcp_buf p)) (ibuf (ntcp_buf p)) @ bs)), cp = 0\<rparr>"
proof -
  define s where "s = (ntcp_buf p)\<lparr>ibuf := ibuf (ntcp_buf p) @ bs\<rparr>"
  define u where "u = drop (cp s) (ibuf s)"
  have D: "consumes (nph_dasio L)" "reports_only (nph_dasio L)" "searches (nph_dasio L)"
    "appends (nph_chan L) w" "pkt_hdr_size (nph_serio L) < 2 ^ 31"
    using lib by (simp_all add: nph_lib_ok_def)
  have I: "cp s \<le> nc s" "nc s \<le> 50000" "wf_table (APid_defs p)"
    "noutstanding (NTEXP p) \<le> 1999 + pkt_hdr_size (nph_serio L) + 65535"
    using inv en by (simp_all add: nph_sys_inv_def s_def NPH_RCVR_BUFSIZE_def)
  have u: "fst (nph_scan u) = completes bs p" "length u \<le> 50000"
    using inv I(2) by (simp_all add: u_def s_def completes_def nph_sys_inv_def)
  let ?all = "handle_all (nph_dasio L) (nph_serio L) (nph_chan L)"
  have ps: "\<forall>d \<in> set (completes bs p). length d = frame_size d \<and> length d < 2 ^ 16"
    using nph_scan_complete [of _ u] length_concat_ge [of _ "completes bs p"] nph_scan_length [of u]
      u by fastforce
  have res: "if \<exists>d \<in> set (completes bs p). off_table d
      then ?all (completes bs p) (NTCP p, APid_defs p, NTEXP p) = Inl Out_of_bounds
      else \<exists>r' t' x'. ?all (completes bs p) (NTCP p, APid_defs p, NTEXP p) = Inr (r', t', x')
        \<and> nlogged r' = nlogged (NTCP p) @ completes bs p \<and> wf_table t'"
    using ps by (intro handle_all_result [OF I(3)]) blast
  have run: "nph_protocol_input (nph_dasio L) (nph_serio L) (nph_chan L) s (NTCP p) (APid_defs p)
      (NTEXP p) = Some (case ?all (completes bs p) (NTCP p, APid_defs p, NTEXP p) of
       Inl e \<Rightarrow> Inl e
     | Inr (r', t', x') \<Rightarrow> Inr (\<lparr>ibuf = snd (nph_scan u), cp = 0\<rparr>, r', t', x'))"
    unfolding u(1) [symmetric] unfolding u_def by (rule nph_run [OF D(1-3) I(1)])
  show ?thesis
  proof (cases "\<exists>d \<in> set (completes bs p). off_table d")
    case True
    then show ?thesis using res run by (simp add: s_def)
  next
    case False
    then obtain r' t' x' where h: "?all (completes bs p) (NTCP p, APid_defs p, NTEXP p) = Inr (r', t', x')"
      "nlogged r' = nlogged (NTCP p) @ completes bs p" "wf_table t'"
      using res by auto
    obtain fw where fw: "subseq fw (completes bs p)"
      "w (nchan x') = w (nchan (NTEXP p)) @ concat (map (nph_frame (nph_serio L)) fw)"
      "noutstanding x' \<le> max (noutstanding (NTEXP p)) (1999 + pkt_hdr_size (nph_serio L) + 65535)"
      using handle_all_forwards [OF D(4,5) I(3) ps h(1)] by blast
    obtain fw0 where fw0: "subseq fw0 (nlogged (NTCP p))"
      "w (nchan (NTEXP p)) = before @ concat (map (nph_frame (nph_serio L)) fw0)"
      using inv by (auto simp: nph_sys_inv_def)
    let ?p = "p\<lparr>ntcp_buf := \<lparr>ibuf = snd (nph_scan u), cp = 0\<rparr>, NTCP := r', APid_defs := t', NTEXP := x'\<rparr>"
    have "length (snd (nph_scan u)) \<le> 50000" using nph_scan_left [of u] u(2) by linarith
    moreover have "subseq (fw0 @ fw) (nlogged r')" using fw0(1) fw(1) h(2) by (simp add: list_emb_append_mono)
    moreover have "w (nchan x') = before @ concat (map (nph_frame (nph_serio L)) (fw0 @ fw))"
      using fw(2) fw0(2) by simp
    ultimately have "nph_sys_inv L w before ?p"
      using h(3) fw(3) I(4) unfolding nph_sys_inv_def
      by (intro conjI exI [of _ "fw0 @ fw"]) (simp_all add: NPH_RCVR_BUFSIZE_def)
    moreover have "u = drop (cp (ntcp_buf p)) (ibuf (ntcp_buf p)) @ bs"
      using inv by (simp add: u_def s_def nph_sys_inv_def)
    ultimately show ?thesis using False run h(1,2) by (simp add: s_def [symmetric])
  qed
qed

lemma nph_reset_ok:
  assumes lib: "nph_lib_ok L w" and inv: "nph_sys_inv L w before p"
  shows "\<exists>p'. (let (rv, s, r) = nph_reset L (ntcp_buf p, NTCP p)
      in Some (Inr (p\<lparr>ntcp_buf := s, NTCP := r\<rparr>))) = Some (Inr p' :: fault + 'o nephex)
    \<and> nph_sys_inv L w before p'"
proof -
  obtain rv s r where r: "nph_reset L (ntcp_buf p, NTCP p) = (rv, s, r)" by (metis prod_cases3)
  then have "nlogged r = nlogged (NTCP p)" "cp s \<le> nc s" "nc s \<le> nc (ntcp_buf p)"
    using lib unfolding nph_lib_ok_def by blast+
  then show ?thesis using inv by (simp add: r nph_sys_inv_def)
qed

text \<open>
  The one event whose handler may not return: input from \<open>tm_ip_export\<close> with a packet that is not
  a control packet.
\<close>

definition nph_hangs :: "'o nph_lib \<Rightarrow> 'o nph_event \<Rightarrow> 'o nephex \<Rightarrow> bool" where
  "nph_hangs L e p \<longleftrightarrow> (\<exists>bs. e = Nph_replied bs
     \<and> meets_other (nph_serio L) ((ntexp_buf p)\<lparr>ibuf := ibuf (ntexp_buf p) @ bs\<rparr>))"

lemma nph_hangs_None:
  assumes "nph_lib_ok L w" and "nph_sys_inv L w before p" and "finds_again (nph_serio L)"
    and "nph_hangs L e p"
  shows "nph_handle L e p = None"
proof -
  have "nte_inv (NTEXP p)" using assms(1,2) by (simp add: nte_inv_def nph_sys_inv_def nph_lib_ok_def)
  then show ?thesis
    using nte_app_input_hangs [OF _ _ _ assms(3), of "nph_dasio L" "NTEXP p"] assms(1,4)
    by (auto simp: nph_hangs_def nph_lib_ok_def)
qed

lemma nph_event_ok:
  assumes lib: "nph_lib_ok L w" and inv: "nph_sys_inv L w before p" and en: "nph_enabled w e p"
    and on: "\<And>bs. e = Nph_read bs \<Longrightarrow> \<not> (\<exists>d \<in> set (completes bs p). off_table d)"
    and hang: "nph_hangs L e p \<Longrightarrow> nph_handle L e p \<noteq> None"
  shows "\<exists>p'. nph_handle L e p = Some (Inr p') \<and> nph_sys_inv L w before p'"
proof (cases e)
  case Nph_connected
  then show ?thesis using inv by (auto simp: nph_sys_inv_def nph_connected_def)
next
  case (Nph_read bs)
  then show ?thesis using nph_read_ok [OF lib inv, of bs] en on by auto
next
  case (Nph_replied bs)
  have "nte_inv (NTEXP p)" using inv lib by (simp add: nte_inv_def nph_sys_inv_def nph_lib_ok_def)
  moreover have "consumes (nph_dasio L)" "reports_only (nph_dasio L)" "presents_packets (nph_serio L)"
    using lib by (simp_all add: nph_lib_ok_def)
  moreover have "nte_app_input (nph_dasio L) (nph_serio L) ((ntexp_buf p)\<lparr>ibuf := ibuf (ntexp_buf p) @ bs\<rparr>)
      (NTEXP p) \<noteq> None" if "meets_other (nph_serio L) ((ntexp_buf p)\<lparr>ibuf := ibuf (ntexp_buf p) @ bs\<rparr>)"
    using hang that by (simp add: Nph_replied nph_hangs_def)
  ultimately obtain s' x' where "nte_app_input (nph_dasio L) (nph_serio L)
      ((ntexp_buf p)\<lparr>ibuf := ibuf (ntexp_buf p) @ bs\<rparr>) (NTEXP p) = Some (Inr (s', x'))"
    "nte_promise (NTEXP p) x'"
    using nte_app_input_returns by blast
  then show ?thesis using Nph_replied inv by (auto simp: nph_sys_inv_def nte_promise_def)
next
  case (Nph_sent out)
  then show ?thesis using inv en by (simp add: nph_sys_inv_def)
qed (use nph_reset_ok [OF lib inv] in \<open>simp_all add: nph_protocol_timeout_def nph_process_eof_def\<close>)

section \<open>Properties\<close>

lemma nph_start:
  assumes "length mem = MAX_APID + 1"
  obtains p where "nephex_main mem flags0 out = Inr p" "nph_sys_inv L w (w out) p"
    "nlogged (NTCP p) = []"
proof -
  obtain t where t: "APid_new False mem = Inr t" using APid_new_ok [OF assms] by blast
  then obtain p where p: "nephex_main mem flags0 out = Inr p" by (simp add: nephex_main_def)
  then show thesis
    using APid_new_wf(1) [OF assms t] t
    by (intro that [OF p]) (auto simp: nephex_main_def nph_sys_inv_def nephex_tcp_export_def
        nephex_tcp_rcvr_def NPH_RCVR_BUFSIZE_def)
qed

text \<open>The one fault: a read that completes a packet outside the table.\<close>

definition nph_may_fault :: "'o nph_event \<Rightarrow> 'o nephex \<Rightarrow> fault \<Rightarrow> bool" where
  "nph_may_fault e p f \<longleftrightarrow> f = Out_of_bounds
     \<and> (\<exists>bs. e = Nph_read bs \<and> (\<exists>d \<in> set (completes bs p). off_table d))"

interpretation nph_loop: loop_invariant "nph_enabled w" "nph_handle L"
    "\<lambda>p. nph_lib_ok L w \<and> nph_sys_inv L w before p" "nph_hangs L" nph_may_fault
  for L :: "'o nph_lib" and w before
proof
  fix p e
  assume inv: "nph_lib_ok L w \<and> nph_sys_inv L w before p" and en: "nph_enabled w e p"
  show "outcome (nph_hangs L e p) (nph_handle L e p) (nph_may_fault e p)
      (\<lambda>p. nph_lib_ok L w \<and> nph_sys_inv L w before p)"
  proof (cases "\<exists>bs. e = Nph_read bs \<and> (\<exists>d \<in> set (completes bs p). off_table d)")
    case True
    then obtain bs where "e = Nph_read bs" "\<exists>d \<in> set (completes bs p). off_table d" by blast
    then show ?thesis
      using nph_read_ok [of L w before p bs] inv en unfolding outcome_def returns_iff nph_may_fault_def by auto
  next
    case False
    then have "\<not> (\<exists>d \<in> set (completes bs p). off_table d)" if "e = Nph_read bs" for bs
      using that by blast
    then show ?thesis using nph_event_ok [OF _ _ en] inv unfolding outcome_def returns_iff by blast
  qed
qed

text \<open>
  C13: The nephelometer program, from \<open>main\<close> on: over any sequence of connections, reads,
  timeouts, ends of file, acknowledges and progress of the link, what has been sent to
  \<open>tm_ip_export\<close> is the frames of a subsequence of the packets logged, no more than the credit limit
  and one packet is outstanding, and the table stays well formed. The next event is handled, with
  two exceptions: a read that completes a packet of an APID outside the table with a length other
  than 6 makes the program access memory outside the table; and \<open>app_input\<close> loops for ever on a
  packet from \<open>tm_ip_export\<close> that is not a control packet (if the recogniser presents it again).
\<close>

theorem nephex_session:
  assumes "nph_lib_ok L w" and "length mem = MAX_APID + 1" and "nephex_main mem flags0 out = Inr p"
    and "nph_run_of L w p es q" and "nph_enabled w e q"
  shows "(\<exists>fw. subseq fw (nlogged (NTCP q))
      \<and> w (nchan (NTEXP q)) = w out @ concat (map (nph_frame (nph_serio L)) fw))
    \<and> noutstanding (NTEXP q) \<le> 1999 + pkt_hdr_size (nph_serio L) + 65535 \<and> wf_table (APid_defs q)
    \<and> (if \<exists>bs. e = Nph_read bs
            \<and> (\<exists>d \<in> set (completes bs q). apid_of d > MAX_APID \<and> unat (Len_of d) \<noteq> 6)
       then nph_handle L e q = Some (Inl Out_of_bounds)
       else if \<exists>bs. e = Nph_replied bs
            \<and> meets_other (nph_serio L) ((ntexp_buf q)\<lparr>ibuf := ibuf (ntexp_buf q) @ bs\<rparr>)
       then (\<forall>f. nph_handle L e q \<noteq> Some (Inl f))
         \<and> (finds_again (nph_serio L) \<longrightarrow> nph_handle L e q = None)
       else \<exists>q'. nph_handle L e q = Some (Inr q'))"
proof -
  have inv: "nph_sys_inv L w (w out) q"
    using nph_start [OF assms(2), of flags0 out L w] nph_loop.run_inv [OF assms(4)] assms(1,3)
    by (metis sum.inject(2))
  have "if \<exists>bs. e = Nph_read bs \<and> (\<exists>d \<in> set (completes bs q). off_table d)
      then nph_handle L e q = Some (Inl Out_of_bounds)
      else if nph_hangs L e q
      then (\<forall>f. nph_handle L e q \<noteq> Some (Inl f))
        \<and> (finds_again (nph_serio L) \<longrightarrow> nph_handle L e q = None)
      else \<exists>q'. nph_handle L e q = Some (Inr q')"
  proof (cases "\<exists>bs. e = Nph_read bs \<and> (\<exists>d \<in> set (completes bs q). off_table d)")
    case True
    then obtain bs where "e = Nph_read bs" "\<exists>d \<in> set (completes bs q). off_table d" by blast
    then show ?thesis using nph_read_ok [OF assms(1) inv, of bs] assms(5) by auto
  next
    case False
    then have "\<not> (\<exists>d \<in> set (completes bs q). off_table d)" if "e = Nph_read bs" for bs
      using that by blast
    then have "\<exists>q'. nph_handle L e q = Some (Inr q')" if "nph_hangs L e q \<Longrightarrow> nph_handle L e q \<noteq> None"
      using nph_event_ok [OF assms(1) inv assms(5)] that by blast
    then show ?thesis
      using False nph_hangs_None [OF assms(1) inv, of e] by (cases "nph_handle L e q = None") auto
  qed
  then show ?thesis using inv unfolding off_table_def nph_sys_inv_def nph_hangs_def by blast
qed

section \<open>Witnesses\<close>

definition plain_nph_lib :: "byte list nph_lib" where
  "plain_nph_lib = \<lparr>nph_dasio = plain_dasio, nph_serio = plain_serio, nph_chan = open_chan,
     nph_Fl_Timeout = 4, nph_reset = (\<lambda>(s, r). (False, \<lparr>ibuf = [], cp = 0\<rparr>, r))\<rparr>"

lemma plain_nph_lib_ok: "nph_lib_ok plain_nph_lib (\<lambda>out. out)"
  by (simp add: nph_lib_ok_def plain_nph_lib_def)

theorem nephex_session_witness:
  "\<exists>p. nephex_main some_table 0 [] = Inr p
    \<and> nph_handle plain_nph_lib (Nph_read stray_packet) p = Some (Inl Out_of_bounds)
    \<and> (\<exists>p'. nph_handle plain_nph_lib (Nph_read power_packet) p = Some (Inr p'))"
proof -
  have len: "length some_table = MAX_APID + 1" by (simp add: some_table_def MAX_APID_def)
  obtain p where p: "nephex_main some_table 0 [] = Inr p"
    "nph_sys_inv plain_nph_lib (\<lambda>out. out) [] p"
    by (rule nph_start [OF len, of 0 "[]" plain_nph_lib "\<lambda>out. out"])
  have empty: "ntcp_buf p = \<lparr>ibuf = [], cp = 0\<rparr>"
    using p(1) by (auto simp: nephex_main_def bind_sum_Inr_iff)
  then have scans: "completes stray_packet p = [stray_packet]"
    "completes power_packet p = [power_packet]"
    using scan_stray scan_power by (simp_all add: completes_def)
  have en: "nph_enabled (\<lambda>out. out) (Nph_read d) p" if "length d \<le> 50000" for d
    using that empty by (simp add: NPH_RCVR_BUFSIZE_def)
  note s = nephex_session [OF plain_nph_lib_ok len p(1) runs.stop en]
  have "length stray_packet \<le> 50000" "length power_packet \<le> 50000"
    by (simp_all add: stray_packet_def power_packet_def)
  then show ?thesis
    using s [of stray_packet] s [of power_packet] p(1) scans scan_stray scan_power
    by (simp add: MAX_APID_def)
qed

end
