(* ===== verification/NphEmulator.thy ===== *)
theory NphEmulator
  imports NphRcvr
begin

text \<open>
  The nephelometer emulator (\<open>Nephex/nephex_emulator.h\<close>, \<open>nephex_emulator.cc\<close>): \<open>NE_ingest\<close> reads
  recorded packets from a file and sends each to its TCP client when the time recorded in it has
  come; \<open>nephex_tcp\<close> is the connection to the client.
\<close>

section \<open>State\<close>

text \<open>
  The timer \<open>TO\<close> belongs to the library: its state is \<open>'t\<close>. \<open>tstart_op\<close> is \<open>TO.Set(secs, msecs)\<close>,
  \<open>tset_op\<close> is \<open>TO.Set()\<close>; asking whether it has expired reads the clock and may change the state.
\<close>

record 't timer_ops =
  tset_op :: "'t \<Rightarrow> bool"
  tstart_op :: "u32 \<Rightarrow> u32 \<Rightarrow> 't \<Rightarrow> 't"
  tadd_op :: "u32 \<Rightarrow> u32 \<Rightarrow> 't \<Rightarrow> 't"
  texpired_op :: "'t \<Rightarrow> bool \<times> 't"
  tclear_op :: "'t \<Rightarrow> 't"

text \<open>
  \<open>client\<close> is an address, 0 the null pointer, and \<open>conns\<close> the connections alive with their output
  sides. The constructor initialises \<open>packet_sn\<close> only: the other members start as what the memory
  held.
\<close>

record ('t, 'o) ne =
  last_secs :: u32
  last_msecs :: u32
  packet_sn :: u32
  client :: nat
  neTO :: 't
  neflags :: u32
  conns :: "nat \<Rightarrow> 'o option"

definition NE_ingest ::
  "u32 \<Rightarrow> u32 \<Rightarrow> u32 \<Rightarrow> nat \<Rightarrow> 't \<Rightarrow> u32 \<Rightarrow> ('t, 'o) ne" where
  "NE_ingest Fl_Read secs0 msecs0 client0 to flags0 =
     (let x = \<lparr>last_secs = secs0, last_msecs = msecs0, packet_sn = 0, client = client0, neTO = to,
            neflags = flags0, conns = Map.empty\<rparr>
      in x\<lparr>neflags := neflags x AND NOT Fl_Read\<rparr>)"

section \<open>Clients\<close>

definition set_client :: "u32 \<Rightarrow> nat \<Rightarrow> ('t, 'o) ne \<Rightarrow> bool \<times> ('t, 'o) ne" where
  "set_client Fl_Read c x =
     (if client x \<noteq> 0 then (True, x)
      else
        let x = x\<lparr>client := c\<rparr>;
            x = x\<lparr>neflags := neflags x OR Fl_Read\<rparr>
        in (False, x))"

definition reset_client :: "'t timer_ops \<Rightarrow> u32 \<Rightarrow> ('t, 'o) ne \<Rightarrow> ('t, 'o) ne" where
  "reset_client T Fl_Read x =
     (let x = x\<lparr>neTO := tclear_op T (neTO x)\<rparr>;
          x = x\<lparr>neflags := neflags x AND NOT Fl_Read\<rparr>
      in x\<lparr>client := 0\<rparr>)"

text \<open>
  \<open>nephex_tcp::connected\<close> for the object at address \<open>c\<close>; \<open>linked\<close> is the condition \<open>NE && ELoop\<close> of
  its assertion. The first result says whether \<open>delete_child\<close> is called.
\<close>

definition tcp_connected ::
  "u32 \<Rightarrow> bool \<Rightarrow> nat \<Rightarrow> ('t, 'o) ne \<Rightarrow> fault + bool \<times> bool \<times> ('t, 'o) ne" where
  "tcp_connected Fl_Read linked c x =
     (if \<not> linked then Inl Assert_failed
      else case set_client Fl_Read c x of (taken, x) \<Rightarrow> Inr (taken, False, x))"

text \<open>The destructor; \<open>NE_set\<close> says that the member \<open>NE\<close> is not null. The object is gone afterwards.\<close>

definition tcp_destroy :: "'t timer_ops \<Rightarrow> u32 \<Rightarrow> bool \<Rightarrow> nat \<Rightarrow> ('t, 'o) ne \<Rightarrow> ('t, 'o) ne" where
  "tcp_destroy T Fl_Read NE_set c x =
     (let x = (if NE_set then reset_client T Fl_Read x else x) in x\<lparr>conns := (conns x)(c := None)\<rparr>)"

text \<open>\<open>nephex_tcp::forward_packet\<close> on the output side of the connection.\<close>

definition tcp_forward_packet :: "'o chan_ops \<Rightarrow> byte list \<Rightarrow> u16 \<Rightarrow> 'o \<Rightarrow> bool \<times> 'o" where
  "tcp_forward_packet C pkt len out =
     (if obuf_empty_op C out then (False, snd (iwrite_op C (take (unat len) pkt) out)) else (True, out))"

section \<open>Input\<close>

text \<open>The time base: how far the timer is advanced by the time of a packet.\<close>

definition ne_time :: "'t timer_ops \<Rightarrow> u32 \<Rightarrow> u16 \<Rightarrow> ('t, 'o) ne \<Rightarrow> fault + ('t, 'o) ne" where
  "ne_time T pkt_secs pkt_msecs x =
     (let ms = ucast pkt_msecs :: u32;
          x = (if \<not> tset_op T (neTO x)
               then x\<lparr>last_secs := pkt_secs, last_msecs := ms, neTO := tstart_op T 0 0 (neTO x)\<rparr>
               else x)
      in if pkt_secs > last_secs x \<or> pkt_secs = last_secs x \<and> ms > last_msecs x
         then if ms < last_msecs x
           then if \<not> ms + 1000 > last_msecs x then Inl Assert_failed
             else
               let d_msecs = ms + 1000 - last_msecs x;
                   d_secs = pkt_secs - last_secs x - 1
               in Inr (x\<lparr>last_secs := pkt_secs, last_msecs := ms, neTO := tadd_op T d_secs d_msecs (neTO x)\<rparr>)
           else
             let d_msecs = ms - last_msecs x;
                 d_secs = pkt_secs - last_secs x
             in Inr (x\<lparr>last_secs := pkt_secs, last_msecs := ms, neTO := tadd_op T d_secs d_msecs (neTO x)\<rparr>)
         else Inr x)"

text \<open>
  Reading \<open>n\<close> bytes of the buffer from \<open>i\<close> on. The constructor of \<open>NE_ingest\<close> sets the size of the
  buffer; behind the bytes received it holds what it held before, \<open>stale\<close>, and an access behind
  its end is a fault.
\<close>

definition NEI_BUFSIZE :: nat where
  "NEI_BUFSIZE = 1000"

definition bytes_at :: "(nat \<Rightarrow> byte) \<Rightarrow> inbuf \<Rightarrow> nat \<Rightarrow> nat \<Rightarrow> fault + byte list" where
  "bytes_at stale s i n =
     (if i + n \<le> max (nc s) NEI_BUFSIZE
      then Inr (map (\<lambda>j. if j < nc s then ibuf s ! j else stale j) [i..<i + n])
      else Inl Out_of_bounds)"

text \<open>
  A complete packet whose payload starts at \<open>cp\<close>; the first result says whether the loop goes on.
  The time is the first six bytes of the payload; when the payload is shorter, it is read from what
  follows the packet.
\<close>

definition ne_packet ::
  "'t timer_ops \<Rightarrow> 'o chan_ops \<Rightarrow> (nat \<Rightarrow> byte) \<Rightarrow> u16 \<Rightarrow> inbuf \<Rightarrow> ('t, 'o) ne \<Rightarrow>
   fault + bool \<times> inbuf \<times> ('t, 'o) ne" where
  "ne_packet T C stale Len s x =
     bind_sum (bytes_at stale s (cp s) 6) (\<lambda>b.
       let pkt_secs = le32 (b ! 0) (b ! 1) (b ! 2) (b ! 3);
           pkt_msecs = le16 (b ! 4) (b ! 5)
       in bind_sum (ne_time T pkt_secs pkt_msecs x) (\<lambda>x.
         let (expired, to) = texpired_op T (neTO x);
             x = x\<lparr>neTO := to\<rparr>
         in if expired \<and> client x \<noteq> 0
            then (case conns x (client x) of
                None \<Rightarrow> Inl Freed_object
              | Some out \<Rightarrow>
                  let (full, out) = tcp_forward_packet C (drop (cp s - 8) (ibuf s)) (Len + 9) out;
                      x = x\<lparr>conns := (conns x)(client x := Some out)\<rparr>;
                      s = s\<lparr>cp := cp s + unat Len + 1\<rparr>;
                      x = x\<lparr>packet_sn := packet_sn x + 1\<rparr>
                  in Inr (True, s, x))
            else Inr (False, s\<lparr>cp := cp s - 8\<rparr>, x)))"

partial_function (option) ne_protocol_input ::
  "dasio \<Rightarrow> 't timer_ops \<Rightarrow> 'o chan_ops \<Rightarrow> (nat \<Rightarrow> byte) \<Rightarrow> inbuf \<Rightarrow> ('t, 'o) ne \<Rightarrow>
   (fault + inbuf \<times> ('t, 'o) ne) option" where
  "ne_protocol_input D T C stale s x =
     (if \<not> cp s < nc s then Some (Inr (consume_op D (cp s) s, x))
      else case not_found_op D 0xAA s of (missing, s) \<Rightarrow>
        if missing then Some (Inr (s, x))
        else if cp s < nc s \<and> ibuf s ! cp s \<noteq> 0xAA then ne_protocol_input D T C stale s x
        else
          let s = s\<lparr>cp := cp s + 1\<rparr>
          in if nc s < cp s + 6 then Some (Inr (s, x))
             else
               let s = s\<lparr>cp := cp s + 4\<rparr>;
                   Len = le16 (ibuf s ! cp s) (ibuf s ! (cp s + 1));
                   s = s\<lparr>cp := cp s + 2\<rparr>
               in if nc s < cp s + unat Len + 1 then Some (Inr (s, x))
                  else
                    (case ne_packet T C stale Len s x of
                       Inl e \<Rightarrow> Some (Inl e)
                     | Inr (go_on, s, x) \<Rightarrow>
                         if go_on then ne_protocol_input D T C stale s x
                         else Some (Inr (consume_op D (cp s) s, x))))"

definition ne_protocol_timeout :: "('t, 'o) ne \<Rightarrow> bool \<times> ('t, 'o) ne" where
  "ne_protocol_timeout x = (False, x)"

section \<open>The recorded time\<close>

text \<open>Milliseconds; the last packet's time, the time in a packet.\<close>

definition now :: "('t, 'o) ne \<Rightarrow> nat" where
  "now x = 1000 * unat (last_secs x) + unat (last_msecs x)"

definition secs_of :: "byte list \<Rightarrow> u32" where
  "secs_of p = le32 (p ! 8) (p ! 9) (p ! 10) (p ! 11)"

definition msecs_of :: "byte list \<Rightarrow> u16" where
  "msecs_of p = le16 (p ! 12) (p ! 13)"

definition time_of :: "byte list \<Rightarrow> nat" where
  "time_of p = 1000 * unat (secs_of p) + unat (msecs_of p)"

text \<open>
  What the time base relies on: \<open>added\<close> is the sum of the intervals a started timer was given, and
  asking it changes nothing of that.
\<close>

definition keeps_time :: "'t timer_ops \<Rightarrow> ('t \<Rightarrow> nat) \<Rightarrow> bool" where
  "keeps_time T added \<longleftrightarrow>
     (\<forall>a b t. tset_op T (tstart_op T a b t) \<and> added (tstart_op T a b t) = 1000 * unat a + unat b)
   \<and> (\<forall>a b t. tset_op T t \<longrightarrow> tset_op T (tadd_op T a b t)
        \<and> added (tadd_op T a b t) = added t + 1000 * unat a + unat b)
   \<and> (\<forall>t. tset_op T (snd (texpired_op T t)) = tset_op T t \<and> added (snd (texpired_op T t)) = added t)"

text \<open>
  The abstract time base: not started, or the latest time seen with the interval added since the
  start. Time does not go backwards.
\<close>

definition time_base :: "'t timer_ops \<Rightarrow> ('t \<Rightarrow> nat) \<Rightarrow> ('t, 'o) ne \<Rightarrow> (nat \<times> nat) option" where
  "time_base T added x = (if tset_op T (neTO x) then Some (now x, added (neTO x)) else None)"

definition see_time :: "nat \<Rightarrow> (nat \<times> nat) option \<Rightarrow> (nat \<times> nat) option" where
  "see_time t b = (case b of None \<Rightarrow> Some (t, 0) | Some (n, a) \<Rightarrow> Some (max n t, a + (max n t - n)))"

definition ms_ok :: "'t timer_ops \<Rightarrow> ('t, 'o) ne \<Rightarrow> bool" where
  "ms_ok T x \<longleftrightarrow> (tset_op T (neTO x) \<longrightarrow> unat (last_msecs x) < 1000)"

lemma unat_ucast_u16: "unat (ucast (m :: u16) :: u32) = unat m"
proof -
  have "unat m < 65536" using unsigned_less [of m, where ?'a = nat] by simp
  then show ?thesis by (simp add: unsigned_ucast_eq take_bit_eq_mod)
qed

lemma ne_time_set:
  assumes k: "keeps_time T added" and set: "tset_op T (neTO x)" and m: "unat m < 1000"
    and x: "unat (last_msecs x) < 1000"
  shows "\<exists>x'. ne_time T s m x = Inr x' \<and> time_base T added x'
      = see_time (1000 * unat s + unat m) (time_base T added x) \<and> ms_ok T x'
    \<and> conns x' = conns x \<and> client x' = client x \<and> packet_sn x' = packet_sn x"
proof -
  define ms :: u32 where "ms = ucast m"
  let ?l = "last_secs x" and ?k = "last_msecs x"
  have ms: "unat ms < 1000" "unat ms = unat m" using m by (simp_all add: ms_def unat_ucast_u16)
  note less = word_less_nat_alt
  define later where "later \<longleftrightarrow> s > ?l \<or> s = ?l \<and> ms > ?k"
  show ?thesis
  proof (cases later)
    case False
    then have "ne_time T s m x = Inr x"
      using set unfolding ne_time_def Let_def later_def ms_def [symmetric] by auto
    moreover have "1000 * unat s + unat m \<le> now x"
      using False x ms unfolding later_def less by (auto simp: now_def not_less le_less word_unat_eq_iff)
    ultimately show ?thesis using x set by (simp add: time_base_def see_time_def ms_ok_def)
  next
    case True
    define d_ms where "d_ms = (if ms < ?k then ms + 1000 - ?k else ms - ?k)"
    define d_s where "d_s = (if ms < ?k then s - ?l - 1 else s - ?l)"
    let ?x' = "x\<lparr>last_secs := s, last_msecs := ms, neTO := tadd_op T d_s d_ms (neTO x)\<rparr>"
    have k1000: "unat (ms + 1000) = unat ms + 1000" using ms(1) by (simp add: unat_word_ariths)
    have "ms + 1000 > ?k" using x by (simp add: less k1000)
    then have run: "ne_time T s m x = Inr ?x'"
      using set True by (simp add: ne_time_def Let_def later_def d_ms_def d_s_def flip: ms_def)
    have le: "unat ?l \<le> unat s" using True by (auto simp: later_def less)
    have d: "now x + (1000 * unat d_s + unat d_ms) = now ?x'"
    proof (cases "ms < ?k")
      case True
      then have lt: "unat ?l + 1 \<le> unat s" using \<open>later\<close> by (auto simp: later_def less)
      have "unat (s - ?l) = unat s - unat ?l" using le by (intro unat_sub) (simp add: word_le_nat_alt)
      moreover have "unat (s - ?l - 1) = unat (s - ?l) - 1"
        using lt calculation by (simp add: unat_sub word_le_nat_alt)
      moreover have "unat (ms + 1000 - ?k) = unat ms + 1000 - unat ?k"
        using x k1000 by (simp add: unat_sub word_le_nat_alt)
      ultimately show ?thesis using True lt x by (simp add: now_def d_s_def d_ms_def)
    next
      case False
      then have "unat d_s = unat s - unat ?l" "unat d_ms = unat ms - unat ?k" "unat ?k \<le> unat ms"
        using le by (simp_all add: d_s_def d_ms_def unat_sub word_le_nat_alt less)
      then show ?thesis using le by (simp add: now_def)
    qed
    have t: "1000 * unat s + unat m = now ?x'" by (simp add: now_def ms(2))
    have "time_base T added ?x' = see_time (1000 * unat s + unat m) (time_base T added x)"
      using k set d unfolding t by (simp add: time_base_def see_time_def keeps_time_def)
    then show ?thesis using run ms(1) by (simp add: ms_ok_def)
  qed
qed

lemma ne_time_result:
  assumes k: "keeps_time T added" and x: "ms_ok T x" and m: "unat m < 1000"
  shows "\<exists>x'. ne_time T s m x = Inr x' \<and> time_base T added x'
      = see_time (1000 * unat s + unat m) (time_base T added x) \<and> ms_ok T x'
    \<and> conns x' = conns x \<and> client x' = client x \<and> packet_sn x' = packet_sn x"
proof (cases "tset_op T (neTO x)")
  case True
  then show ?thesis using ne_time_set [OF k True m] x by (simp add: ms_ok_def)
next
  case False
  let ?y = "x\<lparr>last_secs := s, last_msecs := ucast m, neTO := tstart_op T 0 0 (neTO x)\<rparr>"
  have y: "tset_op T (neTO ?y)" "added (neTO ?y) = 0" "now ?y = 1000 * unat s + unat m"
    "unat (last_msecs ?y) < 1000"
    using k m by (simp_all add: keeps_time_def now_def unat_ucast_u16)
  have "ne_time T s m x = ne_time T s m ?y" using False y(1) by (simp add: ne_time_def)
  moreover have "see_time (1000 * unat s + unat m) (time_base T added ?y)
      = see_time (1000 * unat s + unat m) (time_base T added x)"
    using False y by (simp add: time_base_def see_time_def)
  ultimately show ?thesis using ne_time_set [OF k y(1) m y(4), of s] by simp
qed

section \<open>A stream of recorded packets\<close>

definition emu_wf :: "byte list \<Rightarrow> bool" where
  "emu_wf p \<longleftrightarrow> nph_wf p \<and> 14 \<le> length p \<and> length p < 2 ^ 16 \<and> unat (msecs_of p) < 1000"

definition always_ready :: "'t timer_ops \<Rightarrow> 'o chan_ops \<Rightarrow> bool" where
  "always_ready T C \<longleftrightarrow> (\<forall>t. fst (texpired_op T t)) \<and> (\<forall>out. obuf_empty_op C out)"

lemma ne_packet_frame:
  assumes k: "keeps_time T added" and C: "appends C written" and p: "emu_wf p"
    and s: "8 \<le> cp s" "drop (cp s - 8) (ibuf s) = p @ rest"
    and x: "ms_ok T x" "client x \<noteq> 0" "conns x (client x) = Some out"
  shows "\<exists>go x' out' fw. ne_packet T C stale (Len_of p) s x
      = Inr (go, s\<lparr>cp := if go then cp s - 8 + length p else cp s - 8\<rparr>, x')
    \<and> time_base T added x' = see_time (time_of p) (time_base T added x) \<and> ms_ok T x'
    \<and> client x' = client x \<and> conns x' (client x) = Some out'
    \<and> written out' = written out @ concat fw \<and> subseq fw [p] \<and> (\<not> go \<longrightarrow> fw = [])
    \<and> packet_sn x' = packet_sn x + (if go then 1 else 0)
    \<and> (always_ready T C \<longrightarrow> go \<and> fw = [p])"
proof -
  have len: "14 \<le> length p" "length p < 2 ^ 16" "length p = unat (Len_of p) + 9" "unat (msecs_of p) < 1000"
    using p by (simp_all add: emu_wf_def nph_wf_def frame_size_def Len_of_def)
  have nc: "cp s - 8 + length p \<le> nc s" using arg_cong [OF s(2), of length] s(1) len(1) by simp
  have at: "ibuf s ! (cp s + i) = p ! (8 + i)" if "i < 6" for i
  proof -
    have "ibuf s ! (cp s + i) = drop (cp s - 8) (ibuf s) ! (8 + i)" using s(1) nc len that by simp
    also have "\<dots> = p ! (8 + i)" using s(2) len that by (simp add: nth_append)
    finally show ?thesis .
  qed
  define b where "b = map (\<lambda>j. if j < nc s then ibuf s ! j else stale j) [cp s..<cp s + 6]"
  have b0: "bytes_at stale s (cp s) 6 = Inr b" using nc s(1) len by (simp add: bytes_at_def b_def)
  have "b ! i = p ! (8 + i)" if "i < 6" for i using at [OF that] that nc s(1) len by (simp add: b_def)
  then have b: "le32 (b ! 0) (b ! 1) (b ! 2) (b ! 3) = secs_of p" "le16 (b ! 4) (b ! 5) = msecs_of p"
    by (simp_all add: secs_of_def msecs_of_def)
  obtain y where y: "ne_time T (secs_of p) (msecs_of p) x = Inr y"
      "time_base T added y = see_time (time_of p) (time_base T added x)" "ms_ok T y"
      "conns y = conns x" "client y = client x" "packet_sn y = packet_sn x"
    using ne_time_result [OF k x(1) len(4), of "secs_of p"] by (auto simp: time_of_def)
  obtain e to where e: "texpired_op T (neTO y) = (e, to)" by fastforce
  let ?y = "y\<lparr>neTO := to\<rparr>"
  have to: "tset_op T to = tset_op T (neTO y)" "added to = added (neTO y)"
    using k e unfolding keeps_time_def by (metis snd_conv)+
  have base: "time_base T added ?y = time_base T added y" "ms_ok T ?y"
    using y(3) to by (simp_all add: time_base_def ms_ok_def now_def)
  have pk: "take (unat (Len_of p + 9)) (drop (cp s - 8) (ibuf s)) = p"
    using len s(2) by (simp add: unat_word_ariths)
  obtain full out' where f: "tcp_forward_packet C (drop (cp s - 8) (ibuf s)) (Len_of p + 9) out = (full, out')"
    by fastforce
  have out': "written out' = written out @ concat (if obuf_empty_op C out then [p] else [])"
    using f by (auto simp: tcp_forward_packet_def pk appends_iwrite [OF C] split: if_splits)
  show ?thesis
  proof (cases e)
    case True
    let ?x' = "?y\<lparr>conns := (conns ?y)(client ?y := Some out'), packet_sn := packet_sn ?y + 1\<rparr>"
    have "ne_packet T C stale (Len_of p) s x = Inr (True, s\<lparr>cp := cp s - 8 + length p\<rparr>, ?x')"
      unfolding ne_packet_def Let_def b0 bind_sum_simps b y(1) using True x y s(1) len(3) by (simp add: e f)
    moreover have "time_base T added ?x' = time_base T added ?y" "ms_ok T ?x'"
      using base(2) by (simp_all add: time_base_def ms_ok_def now_def)
    ultimately show ?thesis
      using base y out'
      by (intro exI [of _ True] exI [of _ ?x'] exI [of _ out']
          exI [of _ "if obuf_empty_op C out then [p] else []"])
        (auto simp: always_ready_def)
  next
    case False
    have "ne_packet T C stale (Len_of p) s x = Inr (False, s\<lparr>cp := cp s - 8\<rparr>, ?y)"
      unfolding ne_packet_def Let_def b0 bind_sum_simps b y(1) using False by (simp add: e)
    moreover have "\<not> always_ready T C" using False e unfolding always_ready_def by (metis fst_conv)
    ultimately show ?thesis
      using base y x by (intro exI [of _ False] exI [of _ ?y] exI [of _ out] exI [of _ "[]"]) simp
  qed
qed

text \<open>The loop up to a packet that starts at \<open>cp\<close>.\<close>

lemma ne_loop_packet:
  assumes D: "consumes D" "searches D" and p: "nph_wf p" and junk: "0xAA \<notin> set junk"
    and s: "drop (cp s) (ibuf s) = junk @ p @ rest"
  shows "ne_protocol_input D T C stale s x =
    (case ne_packet T C stale (Len_of p) (s\<lparr>cp := cp s + length junk + 8\<rparr>) x of
       Inl e \<Rightarrow> Some (Inl e)
     | Inr (go_on, s, x) \<Rightarrow>
         if go_on then ne_protocol_input D T C stale s x
         else Some (Inr (consume_op D (cp s) s, x)))"
proof -
  let ?k = "cp s + length junk"
  have len: "9 \<le> length p" "length p = unat (Len_of p) + 9"
    using p by (simp_all add: nph_wf_def frame_size_def Len_of_def)
  have nc: "?k + length p \<le> nc s" using arg_cong [OF s, of length] len(1) by simp
  have at: "ibuf s ! (?k + i) = p ! i" if "i < length p" for i
  proof -
    have "ibuf s ! (?k + i) = drop (cp s) (ibuf s) ! (length junk + i)" using nc that by (simp add: add.assoc)
    also have "\<dots> = p ! i" using s that by (simp add: nth_append)
    finally show ?thesis .
  qed
  have "take 2 p = [0xAA, 0xAA]" using p by (simp add: nph_wf_def)
  then obtain q where q: "p = 0xAA # 0xAA # q" by (metis append_Cons append_Nil append_take_drop_id)
  have "found_at 0xAA s = ?k"
    using junk by (auto simp: found_at_def s q takeWhile_append)
  then have nf: "not_found_op D 0xAA s = (False, s\<lparr>cp := ?k + 1\<rparr>)"
    using D(2) nc len(1) by (simp add: searches_def)
  have Len: "le16 (ibuf s ! (?k + 6)) (ibuf s ! (?k + 7)) = Len_of p"
    using at [of 6] at [of 7] len(1) by (simp add: Len_of_def)
  have one: "ibuf s ! Suc ?k = 0xAA" using at [of 1] q by simp
  show ?thesis
    using nc len nf Len one
    by (subst ne_protocol_input.simps) (simp add: Let_def add.commute add.left_commute)
qed

lemma ne_loop_frame:
  assumes "consumes D" "searches D" and "emu_wf p" and "drop (cp s) (ibuf s) = p @ rest"
  shows "ne_protocol_input D T C stale s x =
    (case ne_packet T C stale (Len_of p) (s\<lparr>cp := cp s + 8\<rparr>) x of
       Inl e \<Rightarrow> Some (Inl e)
     | Inr (go_on, s, x) \<Rightarrow>
         if go_on then ne_protocol_input D T C stale s x
         else Some (Inr (consume_op D (cp s) s, x)))"
  using ne_loop_packet [OF assms(1,2), of p "[]"] assms(3,4) by (simp add: emu_wf_def)

lemma ne_replay:
  assumes D: "consumes D" "searches D" and k: "keeps_time T added" and C: "appends C written"
    and "\<forall>p \<in> set frames. emu_wf p" and "drop (cp s) (ibuf s) = concat frames" and "cp s \<le> nc s"
    and "ms_ok T x" "client x \<noteq> 0" "conns x (client x) = Some out"
  shows "\<exists>n x' out' fw. ne_protocol_input D T C stale s x
      = Some (Inr (\<lparr>ibuf = concat (drop n frames), cp = 0\<rparr>, x'))
    \<and> n \<le> length frames \<and> client x' = client x \<and> conns x' (client x) = Some out'
    \<and> subseq fw (take n frames) \<and> written out' = written out @ concat fw
    \<and> packet_sn x' = packet_sn x + of_nat n
    \<and> time_base T added x' = fold see_time (map time_of (take (Suc n) frames)) (time_base T added x)
    \<and> ms_ok T x' \<and> (always_ready T C \<longrightarrow> fw = frames \<and> n = length frames)"
  using assms(5-)
proof (induction frames arbitrary: s x out)
  case Nil
  then have "ne_protocol_input D T C stale s x = Some (Inr (\<lparr>ibuf = [], cp = 0\<rparr>, x))"
    using D(1) by (subst ne_protocol_input.simps) (simp add: consumes_def consumed_def)
  with Nil show ?case by (intro exI [of _ 0] exI [of _ x] exI [of _ out] exI [of _ "[]"]) simp
next
  case (Cons p frames)
  have p: "emu_wf p" using Cons.prems by simp
  have s: "drop (cp s) (ibuf s) = p @ concat frames" using Cons.prems(2) by simp
  have len: "cp s + length p \<le> nc s" using arg_cong [OF s, of length] Cons.prems(3) by simp
  let ?s8 = "s\<lparr>cp := cp s + 8\<rparr>"
  have pre: "8 \<le> cp ?s8" "drop (cp ?s8 - 8) (ibuf ?s8) = p @ concat frames" using s by simp_all
  obtain go x1 out1 fw1 where
    r0: "ne_packet T C stale (Len_of p) ?s8 x
      = Inr (go, ?s8\<lparr>cp := if go then cp ?s8 - 8 + length p else cp ?s8 - 8\<rparr>, x1)"
    and x1: "time_base T added x1 = see_time (time_of p) (time_base T added x)" "ms_ok T x1"
      "client x1 = client x" "conns x1 (client x) = Some out1"
      "written out1 = written out @ concat fw1" "subseq fw1 [p]" "\<not> go \<longrightarrow> fw1 = []"
      "packet_sn x1 = packet_sn x + (if go then 1 else 0)"
      "always_ready T C \<longrightarrow> go \<and> fw1 = [p]"
    using ne_packet_frame [OF k C p pre Cons.prems(4-6)] by blast
  have r: "ne_packet T C stale (Len_of p) ?s8 x
      = Inr (go, s\<lparr>cp := if go then cp s + length p else cp s\<rparr>, x1)" using r0 by simp
  note loop = ne_loop_frame [OF D p s, of T C stale x, unfolded r]
  show ?case
  proof (cases go)
    case False
    then have "ne_protocol_input D T C stale s x = Some (Inr (\<lparr>ibuf = concat (p # frames), cp = 0\<rparr>, x1))"
      using loop D(1) Cons.prems(2,3) by (simp add: consumes_def consumed_def)
    with False x1 show ?thesis
      by (intro exI [of _ 0] exI [of _ x1] exI [of _ out1] exI [of _ "[]"]) simp
  next
    case True
    let ?s = "s\<lparr>cp := cp s + length p\<rparr>"
    have "drop (cp ?s) (ibuf ?s) = drop (length p) (drop (cp s) (ibuf s))" by (simp add: add.commute)
    then have rest: "drop (cp ?s) (ibuf ?s) = concat frames" using s by simp
    obtain n x' out' fw where
      t: "ne_protocol_input D T C stale ?s x1 = Some (Inr (\<lparr>ibuf = concat (drop n frames), cp = 0\<rparr>, x'))"
        "n \<le> length frames" "client x' = client x1" "conns x' (client x1) = Some out'"
        "subseq fw (take n frames)" "written out' = written out1 @ concat fw"
        "packet_sn x' = packet_sn x1 + of_nat n"
        "time_base T added x'
          = fold see_time (map time_of (take (Suc n) frames)) (time_base T added x1)"
        "ms_ok T x'" "always_ready T C \<longrightarrow> fw = frames \<and> n = length frames"
      using Cons.IH [of ?s x1 out1] rest len x1 Cons.prems(1,5) by auto
    have "subseq (fw1 @ fw) ([p] @ take n frames)" using x1(6) t(5) by (rule list_emb_append_mono)
    then show ?thesis
      using loop True t x1
      by (intro exI [of _ "Suc n"] exI [of _ x'] exI [of _ out'] exI [of _ "fw1 @ fw"]) auto
  qed
qed

section \<open>Without a client\<close>

lemma ne_time_conns: "ne_time T s m x = Inr x' \<Longrightarrow> conns x' = conns x \<and> client x' = client x \<and> neflags x' = neflags x"
  by (auto simp: ne_time_def Let_def split: if_splits)

lemma ne_packet_no_client:
  assumes "ne_packet T C stale Len s x = Inr (go, s', x')" and "client x = 0"
  shows "\<not> go \<and> conns x' = conns x \<and> client x' = 0 \<and> neflags x' = neflags x"
proof -
  obtain b where b: "bytes_at stale s (cp s) 6 = Inr b"
    using assms(1) by (auto simp: ne_packet_def bind_sum_Inr_iff)
  then obtain y where y: "ne_time T (le32 (b ! 0) (b ! 1) (b ! 2) (b ! 3)) (le16 (b ! 4) (b ! 5)) x = Inr y"
    using assms(1) by (auto simp: ne_packet_def bind_sum_Inr_iff Let_def)
  with ne_time_conns [OF this] show ?thesis
    using assms b by (auto simp: ne_packet_def Let_def split: prod.splits)
qed

lemma ne_no_client:
  fixes x :: "('t, 'o) ne"
  assumes "ne_protocol_input D T C stale s x = Some r" and "client x = 0"
  shows "\<forall>s' x'. r = Inr (s', x') \<longrightarrow> conns x' = conns x \<and> client x' = 0 \<and> neflags x' = neflags x"
proof -
  have "client x = 0 \<longrightarrow> (\<forall>s' x'. r = Inr (s', x') \<longrightarrow> conns x' = conns x \<and> client x' = 0 \<and> neflags x' = neflags x)"
  proof (rule ne_protocol_input.raw_induct [where P = "\<lambda>D (T :: 't timer_ops) (C :: 'o chan_ops)
        stale s x r. client x = 0 \<longrightarrow> (\<forall>s' x'. r = Inr (s', x') \<longrightarrow> conns x' = conns x \<and> client x' = 0 \<and> neflags x' = neflags x)"
        and xa = "(((((D, T), C), stale), s), x)" and y = r, unfolded prod.case])
    fix f :: "dasio \<Rightarrow> 't timer_ops \<Rightarrow> 'o chan_ops \<Rightarrow> (nat \<Rightarrow> byte) \<Rightarrow> inbuf \<Rightarrow> ('t, 'o) ne \<Rightarrow>
      (fault + inbuf \<times> ('t, 'o) ne) option"
    fix D and T :: "'t timer_ops" and C :: "'o chan_ops" and stale s and x :: "('t, 'o) ne" and r
    assume IH: "\<And>D T C stale s x r. f D T C stale s x = Some r \<Longrightarrow>
        client x = 0 \<longrightarrow> (\<forall>s' x'. r = Inr (s', x') \<longrightarrow> conns x' = conns x \<and> client x' = 0 \<and> neflags x' = neflags x)"
    assume eq: "(if \<not> cp s < nc s then Some (Inr (consume_op D (cp s) s, x))
      else case not_found_op D 0xAA s of (missing, s) \<Rightarrow>
        if missing then Some (Inr (s, x))
        else if cp s < nc s \<and> ibuf s ! cp s \<noteq> 0xAA then f D T C stale s x
        else
          let s = s\<lparr>cp := cp s + 1\<rparr>
          in if nc s < cp s + 6 then Some (Inr (s, x))
             else
               let s = s\<lparr>cp := cp s + 4\<rparr>;
                   Len = le16 (ibuf s ! cp s) (ibuf s ! (cp s + 1));
                   s = s\<lparr>cp := cp s + 2\<rparr>
               in if nc s < cp s + unat Len + 1 then Some (Inr (s, x))
                  else
                    (case ne_packet T C stale Len s x of
                       Inl e \<Rightarrow> Some (Inl e)
                     | Inr (go_on, s, x) \<Rightarrow>
                         if go_on then f D T C stale s x
                         else Some (Inr (consume_op D (cp s) s, x)))) = Some r"
    show "client x = 0 \<longrightarrow> (\<forall>s' x'. r = Inr (s', x') \<longrightarrow> conns x' = conns x \<and> client x' = 0 \<and> neflags x' = neflags x)"
    proof
      assume "client x = 0"
      then show "\<forall>s' x'. r = Inr (s', x') \<longrightarrow> conns x' = conns x \<and> client x' = 0 \<and> neflags x' = neflags x"
        using eq IH
        by (auto simp: Let_def split: if_splits prod.splits sum.splits dest: ne_packet_no_client)
    qed
  qed (use assms(1) in simp)
  then show ?thesis using assms(2) by simp
qed

section \<open>Properties\<close>

text \<open>
  C21: The emulator replays its recording. From a read that holds whole recorded packets (with
  milliseconds below 1000, so that the assertion of the time base holds), with a client
  connected, \<open>protocol_input\<close> always returns without a fault; it has taken a first part of the
  packets, the others stay in the buffer from the start of the first one not due; what was
  written to the client is a subsequence of the part taken (a packet is lost when the output is
  busy), each unchanged; the serial number has counted all of it; and the time base has
  followed the recorded times of the part taken and of the packet it waits for: the timer has
  been advanced by exactly the difference between the latest and the first time seen.
\<close>

theorem emulator_replays:
  assumes "consumes D" and "searches D" and "keeps_time T added" and "appends C written"
    and "\<forall>p \<in> set frames. emu_wf p" and "ms_ok T x" and "client x \<noteq> 0"
    and "conns x (client x) = Some out"
  shows "\<exists>n x' out' fw. ne_protocol_input D T C stale \<lparr>ibuf = concat frames, cp = 0\<rparr> x
      = Some (Inr (\<lparr>ibuf = concat (drop n frames), cp = 0\<rparr>, x'))
    \<and> n \<le> length frames \<and> conns x' (client x') = Some out'
    \<and> subseq fw (take n frames) \<and> written out' = written out @ concat fw
    \<and> packet_sn x' = packet_sn x + of_nat n
    \<and> time_base T added x' = fold see_time (map time_of (take (Suc n) frames)) (time_base T added x)"
proof -
  obtain n x' out' fw where "ne_protocol_input D T C stale \<lparr>ibuf = concat frames, cp = 0\<rparr> x
      = Some (Inr (\<lparr>ibuf = concat (drop n frames), cp = 0\<rparr>, x'))"
    "n \<le> length frames" "client x' = client x" "conns x' (client x) = Some out'"
    "subseq fw (take n frames)" "written out' = written out @ concat fw"
    "packet_sn x' = packet_sn x + of_nat n"
    "time_base T added x' = fold see_time (map time_of (take (Suc n) frames)) (time_base T added x)"
    using ne_replay [OF assms(1-5), of "\<lparr>ibuf = concat frames, cp = 0\<rparr>" x out stale] assms(6-8)
    by auto
  then show ?thesis by (intro exI [of _ n] exI [of _ x'] exI [of _ out'] exI [of _ fw]) simp
qed

text \<open>
  C20: Emulator and driver together: when every packet is due and the output is never busy, what
  the emulator sends of a recording is read by \<open>nephex_tcp_rcvr::protocol_input\<close> as exactly the
  recorded packets, each logged once and unchanged.
\<close>

theorem emulator_to_receiver:
  assumes D: "consumes D" "searches D" "reports_only D" and T: "keeps_time T added" "always_ready T C"
    and C: "appends C written" and frames: "\<forall>p \<in> set frames. emu_wf p \<and> apid_of p \<le> MAX_APID"
    and x: "ms_ok T x" "client x \<noteq> 0" "conns x (client x) = Some out" and t: "wf_table t"
  shows "\<exists>x' out' sent s' r' t' y'.
      ne_protocol_input D T C stale \<lparr>ibuf = concat frames, cp = 0\<rparr> x
        = Some (Inr (\<lparr>ibuf = [], cp = 0\<rparr>, x'))
    \<and> conns x' (client x') = Some out' \<and> written out' = written out @ sent
    \<and> nph_protocol_input D S C2 \<lparr>ibuf = sent, cp = 0\<rparr> r t y = Some (Inr (s', r', t', y'))
    \<and> nlogged r' = nlogged r @ frames"
proof -
  have wf: "\<forall>p \<in> set frames. emu_wf p" using frames by simp
  obtain x' out' where e: "ne_protocol_input D T C stale \<lparr>ibuf = concat frames, cp = 0\<rparr> x
        = Some (Inr (\<lparr>ibuf = [], cp = 0\<rparr>, x'))"
      "conns x' (client x') = Some out'" "written out' = written out @ concat frames"
    using ne_replay [OF D(1,2) T(1) C wf, of "\<lparr>ibuf = concat frames, cp = 0\<rparr>" x out stale] x T(2)
    by auto
  have fr: "nph_scan (concat frames) = (frames, [])"
    using wf
  proof (induction frames)
    case Nil
    then show ?case by (simp add: nph_scan.simps [of "[]"])
  next
    case (Cons p frames)
    then have "nph_wf p" "nph_scan (concat frames) = (frames, [])" by (auto simp: emu_wf_def)
    then show ?case using nph_scan_frame [of "[]" p "concat frames"] by simp
  qed
  have "\<forall>p \<in> set frames. length p = frame_size p" using wf by (auto simp: emu_wf_def nph_wf_def)
  moreover have "\<not> (\<exists>p \<in> set frames. off_table p)" using frames by (force simp: off_table_def)
  ultimately obtain r' t' y' where h: "handle_all D S C2 frames (r, t, y) = Inr (r', t', y')"
      "nlogged r' = nlogged r @ frames"
    using handle_all_result [OF t, of frames D S C2 r y] by auto
  have "nph_protocol_input D S C2 \<lparr>ibuf = concat frames, cp = 0\<rparr> r t y
      = Some (Inr (\<lparr>ibuf = [], cp = 0\<rparr>, r', t', y'))"
    using nph_run [OF D(1) D(3) D(2), of "\<lparr>ibuf = concat frames, cp = 0\<rparr>" S C2 r t y] h fr by simp
  with e h show ?thesis by blast
qed

section \<open>Witnesses\<close>

text \<open>A timer that has always expired and adds up its intervals; \<open>None\<close> is not started.\<close>

definition plain_timer :: "nat option timer_ops" where
  "plain_timer = \<lparr>tset_op = (\<lambda>t. t \<noteq> None), tstart_op = (\<lambda>a b _. Some (1000 * unat a + unat b)),
     tadd_op = (\<lambda>a b. map_option (\<lambda>n. n + 1000 * unat a + unat b)),
     texpired_op = (\<lambda>t. (True, t)), tclear_op = (\<lambda>_. None)\<rparr>"

definition plain_added :: "nat option \<Rightarrow> nat" where
  "plain_added t = (case t of None \<Rightarrow> 0 | Some n \<Rightarrow> n)"

text \<open>Two recorded packets of APID 143, at 5.900 and 6.100 seconds.\<close>

definition recorded_1 :: "byte list" where
  "recorded_1 = [0xAA, 0xAA, 143, 0, 0, 0, 6, 0, 5, 0, 0, 0, 0x84, 3, 7]"

definition recorded_2 :: "byte list" where
  "recorded_2 = [0xAA, 0xAA, 143, 0, 0, 0, 6, 0, 6, 0, 0, 0, 0x64, 0, 8]"

definition plain_ne :: "(nat option, byte list) ne" where
  "plain_ne = \<lparr>last_secs = 0, last_msecs = 0, packet_sn = 0, client = 1, neTO = None, neflags = 4,
     conns = (\<lambda>a. if a = 1 then Some [] else None)\<rparr>"

lemma recorded_wf: "\<forall>p \<in> set [recorded_1, recorded_2]. emu_wf p \<and> apid_of p \<le> MAX_APID"
  by (simp only: list.simps ball_simps) code_simp

lemma recorded_times: "time_of recorded_1 = 5900" "time_of recorded_2 = 6100"
  by code_simp+

lemma plain_keeps_time: "keeps_time plain_timer plain_added"
  by (auto simp: keeps_time_def plain_timer_def plain_added_def split: option.splits)

lemma plain_ready: "always_ready plain_timer open_chan"
  by (simp add: always_ready_def plain_timer_def open_chan_def)

lemma plain_ne_ok: "ms_ok plain_timer plain_ne" "client plain_ne \<noteq> 0"
  "conns plain_ne (client plain_ne) = Some []" "time_base plain_timer plain_added plain_ne = None"
  by (simp_all add: ms_ok_def plain_ne_def plain_timer_def time_base_def)

theorem emulator_replays_witness:
  "\<exists>n x' fw. ne_protocol_input plain_dasio plain_timer open_chan (\<lambda>_. 0)
      \<lparr>ibuf = concat [recorded_1, recorded_2], cp = 0\<rparr> plain_ne
      = Some (Inr (\<lparr>ibuf = concat (drop n [recorded_1, recorded_2]), cp = 0\<rparr>, x'))
    \<and> subseq fw (take n [recorded_1, recorded_2]) \<and> conns x' (client x') = Some (concat fw)
    \<and> (n \<noteq> 0 \<longrightarrow> time_base plain_timer plain_added x' = Some (6100, 200))"
proof -
  have wf: "\<forall>p \<in> set [recorded_1, recorded_2]. emu_wf p" using recorded_wf by blast
  obtain n x' out' fw where
    r: "ne_protocol_input plain_dasio plain_timer open_chan (\<lambda>_. 0)
      \<lparr>ibuf = concat [recorded_1, recorded_2], cp = 0\<rparr> plain_ne
      = Some (Inr (\<lparr>ibuf = concat (drop n [recorded_1, recorded_2]), cp = 0\<rparr>, x'))"
      "conns x' (client x') = Some out'" "subseq fw (take n [recorded_1, recorded_2])"
      "out' = [] @ concat fw"
      "time_base plain_timer plain_added x'
        = fold see_time (map time_of (take (Suc n) [recorded_1, recorded_2])) None"
    using emulator_replays [OF plain_dasio_ok(1,3) plain_keeps_time open_chan_appends wf
        plain_ne_ok(1-3), of "\<lambda>_. 0", unfolded plain_ne_ok(4)] by blast
  have "n \<noteq> 0 \<longrightarrow> take (Suc n) [recorded_1, recorded_2] = [recorded_1, recorded_2]" by (cases n) simp_all
  with r(5) have "n \<noteq> 0 \<longrightarrow> time_base plain_timer plain_added x' = Some (6100, 200)"
    by (auto simp: recorded_times see_time_def)
  with r show ?thesis by (intro exI [of _ n] exI [of _ x'] exI [of _ fw]) simp
qed

theorem emulator_to_receiver_witness:
  "\<exists>x' sent s' r' t' y'.
      ne_protocol_input plain_dasio plain_timer open_chan (\<lambda>_. 0)
        \<lparr>ibuf = concat [recorded_1, recorded_2], cp = 0\<rparr> plain_ne
        = Some (Inr (\<lparr>ibuf = [], cp = 0\<rparr>, x'))
    \<and> conns x' (client x') = Some sent
    \<and> nph_protocol_input plain_dasio plain_serio open_chan \<lparr>ibuf = sent, cp = 0\<rparr> new_nph some_table
        (nephex_tcp_export []) = Some (Inr (s', r', t', y'))
    \<and> nlogged r' = [recorded_1, recorded_2]"
  using emulator_to_receiver [OF plain_dasio_ok(1,3,2) plain_keeps_time plain_ready open_chan_appends
      recorded_wf plain_ne_ok(1-3) wf_some_table, of "\<lambda>_. 0" plain_serio open_chan new_nph
      "nephex_tcp_export []"]
  by fastforce

end
