(* ===== verification/NphEmuSystem.thy ===== *)
theory NphEmuSystem
  imports EventLoop NphEmulator
begin

text \<open>
  The emulator program as a whole (\<open>main\<close> of \<open>Nephex/nephex_emulator.cc\<close>): the reader of the
  recording, the connections that clients open, and what the event loop delivers to them.
\<close>

section \<open>The program\<close>

text \<open>\<open>kids\<close> are the connections that the event loop serves, in its order.\<close>

record ('t, 'o) emulator =
  NE :: "('t, 'o) ne"
  ne_buf :: inbuf
  kids :: "nat list"

text \<open>What the handlers use of the library, in one record.\<close>

record ('t, 'o) emu_lib =
  emu_dasio :: dasio
  emu_timer :: "'t timer_ops"
  emu_chan :: "'o chan_ops"
  emu_Fl_Read :: u32
  emu_resume :: "inbuf \<Rightarrow> inbuf"

text \<open>
  \<open>NE_ingest\<close> reads the recording, and both it and the listening socket are in the loop from the
  start. The arguments are what its constructor leaves uninitialised.
\<close>

definition emulator_main ::
  "('t, 'o) emu_lib \<Rightarrow> u32 \<Rightarrow> u32 \<Rightarrow> nat \<Rightarrow> 't \<Rightarrow> u32 \<Rightarrow> ('t, 'o) emulator" where
  "emulator_main L secs0 msecs0 client0 to flags0 =
     \<lparr>NE = NE_ingest (emu_Fl_Read L) secs0 msecs0 client0 to flags0,
      ne_buf = \<lparr>ibuf = [], cp = 0\<rparr>, kids = []\<rparr>"

text \<open>
  The constructor of \<open>nephex_tcp\<close> for an object at address \<open>c\<close>, with the output side that the
  base class sets up, and \<open>nephex_tcp_svc::new_client\<close>.
\<close>

definition nephex_tcp :: "nat \<Rightarrow> 'o \<Rightarrow> ('t, 'o) ne \<Rightarrow> ('t, 'o) ne" where
  "nephex_tcp c out x = x\<lparr>conns := (conns x)(c \<mapsto> out)\<rparr>"

definition tcp_new_client :: "bool \<Rightarrow> nat \<Rightarrow> 'o \<Rightarrow> ('t, 'o) emulator \<Rightarrow> ('t, 'o) emulator" where
  "tcp_new_client has_loop c out p =
     (let p = p\<lparr>NE := nephex_tcp c out (NE p)\<rparr>
      in if has_loop then p\<lparr>kids := kids p @ [c]\<rparr> else p)"

text \<open>
  \<open>Emu_accepted\<close>: the listening socket makes an object for a client and calls \<open>connected()\<close>, which
  may ask the loop to let it go. \<open>Emu_closed\<close>: the loop lets go of a connection that has
  ended. \<open>Emu_released\<close>: the library deletes an object let go. \<open>Emu_read\<close>: bytes of the recording
  are added to the buffer, with what it held behind them. \<open>Emu_sent\<close>: output has left a buffer.
\<close>

datatype 'o emu_event =
    Emu_accepted nat 'o
  | Emu_closed nat
  | Emu_released nat
  | Emu_read "byte list" "nat \<Rightarrow> byte"
  | Emu_timeout
  | Emu_sent nat 'o

fun emu_handle ::
  "('t, 'o) emu_lib \<Rightarrow> 'o emu_event \<Rightarrow> ('t, 'o) emulator \<Rightarrow> (fault + ('t, 'o) emulator) option" where
  "emu_handle L (Emu_accepted c out) p =
     Some (let p = tcp_new_client True c out p
       in bind_sum (tcp_connected (emu_Fl_Read L) True c (NE p)) (\<lambda>(deleted, rv, x).
            let p = p\<lparr>NE := x\<rparr> in Inr (if deleted then p\<lparr>kids := removeAll c (kids p)\<rparr> else p)))"
| "emu_handle L (Emu_closed c) p = Some (Inr (p\<lparr>kids := removeAll c (kids p)\<rparr>))"
| "emu_handle L (Emu_released c) p =
     Some (Inr (p\<lparr>NE := tcp_destroy (emu_timer L) (emu_Fl_Read L) True c (NE p)\<rparr>))"
| "emu_handle L (Emu_read bs stale) p =
     (let s = emu_resume L (ne_buf p)
      in map_option (map_sum id (\<lambda>(s, x). p\<lparr>NE := x, ne_buf := s\<rparr>))
           (ne_protocol_input (emu_dasio L) (emu_timer L) (emu_chan L) stale
              (s\<lparr>ibuf := ibuf s @ bs\<rparr>) (NE p)))"
| "emu_handle L Emu_timeout p = Some (Inr (p\<lparr>NE := snd (ne_protocol_timeout (NE p))\<rparr>))"
| "emu_handle L (Emu_sent c out) p =
     Some (Inr (p\<lparr>NE := (NE p)\<lparr>conns := (conns (NE p))(c \<mapsto> out)\<rparr>\<rparr>))"

text \<open>
  When an event can happen: a new object gets an address not in use, which is not null; an object
  is deleted once the loop has let it go; the recording is read only while \<open>Fl_Read\<close> is set.
\<close>

fun emu_enabled :: "('t, 'o) emu_lib \<Rightarrow> 'o emu_event \<Rightarrow> ('t, 'o) emulator \<Rightarrow> bool" where
  "emu_enabled L (Emu_accepted c out) p \<longleftrightarrow> c \<noteq> 0 \<and> conns (NE p) c = None"
| "emu_enabled L (Emu_closed c) p \<longleftrightarrow> c \<in> set (kids p)"
| "emu_enabled L (Emu_released c) p \<longleftrightarrow> conns (NE p) c \<noteq> None \<and> c \<notin> set (kids p)"
| "emu_enabled L (Emu_read bs stale) p \<longleftrightarrow> neflags (NE p) AND emu_Fl_Read L \<noteq> 0 \<and> bs \<noteq> []"
| "emu_enabled L Emu_timeout p \<longleftrightarrow> tset_op (emu_timer L) (neTO (NE p))"
| "emu_enabled L (Emu_sent c out) p \<longleftrightarrow> conns (NE p) c \<noteq> None"

abbreviation emu_run ::
  "('t, 'o) emu_lib \<Rightarrow> ('t, 'o) emulator \<Rightarrow> 'o emu_event list \<Rightarrow> ('t, 'o) emulator \<Rightarrow> bool" where
  "emu_run L \<equiv> runs (emu_enabled L) (emu_handle L)"

text \<open>What the library adds to a socket's output side, and that a new one has written nothing.\<close>

fun emu_writes :: "('o \<Rightarrow> byte list) \<Rightarrow> 'o emu_event \<Rightarrow> ('t, 'o) emulator \<Rightarrow> bool" where
  "emu_writes w (Emu_accepted c out) p \<longleftrightarrow> w out = []"
| "emu_writes w (Emu_read bs stale) p \<longleftrightarrow> nc (ne_buf p) + length bs \<le> NEI_BUFSIZE"
| "emu_writes w (Emu_sent c out) p \<longleftrightarrow> (\<forall>out'. conns (NE p) c = Some out' \<longrightarrow> w out = w out')"
| "emu_writes w _ p \<longleftrightarrow> True"

section \<open>The recording is read to its end\<close>

text \<open>
  What a handler of the recording changes: not which connections there are, nor which one is
  served, nor whether the recording is read.
\<close>

definition same_clients :: "('t, 'o) ne \<Rightarrow> ('t, 'o) ne \<Rightarrow> bool" where
  "same_clients x x' \<longleftrightarrow> client x' = client x \<and> (\<forall>c. conns x' c = None \<longleftrightarrow> conns x c = None) \<and> neflags x' = neflags x"

lemma same_clients_refl [simp]: "same_clients x x"
  by (simp add: same_clients_def)

lemma same_clients_trans: "same_clients x y \<Longrightarrow> same_clients y z \<Longrightarrow> same_clients x z"
  by (simp add: same_clients_def)

lemma ne_time_clients:
  "case ne_time T s m x of Inl e \<Rightarrow> e = Assert_failed | Inr x' \<Rightarrow> same_clients x x'"
  by (auto simp: ne_time_def Let_def same_clients_def split: if_splits)

definition served :: "('t, 'o) ne \<Rightarrow> bool" where
  "served x \<longleftrightarrow> conns x (client x) \<noteq> None"

lemma same_clientsD:
  assumes "same_clients x x'"
  shows "served x' \<longleftrightarrow> served x" "neflags x' = neflags x" "conns x' c = None \<longleftrightarrow> conns x c = None"
proof -
  have "client x' = client x" "\<And>c. conns x' c = None \<longleftrightarrow> conns x c = None" "neflags x' = neflags x"
    using assms unfolding same_clients_def by blast+
  then show "served x' \<longleftrightarrow> served x" "neflags x' = neflags x" "conns x' c = None \<longleftrightarrow> conns x c = None"
    by (simp_all only: served_def)
qed

text \<open>
  The time of a packet is read behind the end of the buffer when the packet is shorter than 14 bytes
  and starts less than 14 bytes before the end.
\<close>

definition short_at_end :: "byte list \<Rightarrow> bool" where
  "short_at_end bs \<longleftrightarrow> (\<exists>i f. nph_wf f \<and> length f < 14 \<and> take (length f) (drop i bs) = f
     \<and> NEI_BUFSIZE < i + 14)"

lemma ne_packet_any:
  assumes "served x" and "8 \<le> cp s"
  shows "case ne_packet T C stale Len s x of
      Inl e \<Rightarrow> e = Assert_failed \<or> e = Out_of_bounds \<and> max (nc s) NEI_BUFSIZE < cp s + 6
    | Inr (go, s', x') \<Rightarrow> same_clients x x'
        \<and> s' = s\<lparr>cp := if go then cp s + unat Len + 1 else cp s - 8\<rparr>"
proof (cases "bytes_at stale s (cp s) 6")
  case (Inl e)
  then show ?thesis by (auto simp: ne_packet_def bytes_at_def split: if_splits)
next
  case (Inr b)
  define m where "m = ne_time T (le32 (b ! 0) (b ! 1) (b ! 2) (b ! 3)) (le16 (b ! 4) (b ! 5)) x"
  have m: "case m of Inl e \<Rightarrow> e = Assert_failed | Inr x' \<Rightarrow> same_clients x x'"
    unfolding m_def by (rule ne_time_clients)
  show ?thesis
  proof (cases m)
    case (Inl e)
    then show ?thesis
      using m unfolding ne_packet_def Inr bind_sum_simps Let_def m_def [symmetric] by simp
  next
    case (Inr y)
    with m assms(1) have y: "same_clients x y" "conns y (client y) \<noteq> None"
      by (auto simp: same_clients_def served_def)
    then obtain out where "conns y (client y) = Some out" by blast
    with y show ?thesis
      unfolding ne_packet_def \<open>bytes_at stale s (cp s) 6 = Inr b\<close> bind_sum_simps Let_def
        m_def [symmetric] Inr
      by (auto simp: same_clients_def split: prod.splits)
  qed
qed

lemma found_at_ge: "cp s \<le> found_at c s"
  by (simp add: found_at_def)

lemma found_at_byte: "found_at c s < nc s \<Longrightarrow> ibuf s ! found_at c s = c"
  using nth_length_takeWhile [of "\<lambda>b. b \<noteq> c" "drop (cp s) (ibuf s)"] by (simp add: found_at_def)

lemma nph_wf_at:
  assumes "bs ! i = 0xAA" and "bs ! (i + 1) = 0xAA" and "Len = le16 (bs ! (i + 6)) (bs ! (i + 7))"
    and "i + unat Len + 9 \<le> length bs"
  shows "nph_wf (take (unat Len + 9) (drop i bs))"
proof -
  let ?p = "take (unat Len + 9) (drop i bs)"
  have at: "?p ! j = bs ! (i + j)" if "j < 9" for j using that assms(4) by simp
  have len: "length ?p = unat Len + 9" using assms(4) by simp
  then have "take 2 ?p = [?p ! 0, ?p ! 1]" by (intro nth_equalityI) (auto simp: less_Suc_eq numeral_2_eq_2)
  then show ?thesis using at [of 0] at [of 1] at [of 6] at [of 7] assms(1-3) len
    by (simp add: nph_wf_def frame_size_def)
qed

text \<open>A pass through the loop: it returns, looks further on, or has a complete packet.\<close>

lemma ne_pass:
  assumes D: "consumes D" "searches D" and "cp s < nc s"
  obtains (stop) s' where "ne_protocol_input D T C stale s x = Some (Inr (s', x))" "cp s' \<le> nc s' + 1"
    | (again) s' where "ne_protocol_input D T C stale s x = ne_protocol_input D T C stale s' x"
        "cp s < cp s'" "cp s' \<le> nc s'" "ibuf s' = ibuf s"
    | (packet) k Len where "ne_protocol_input D T C stale s x =
        (case ne_packet T C stale Len (s\<lparr>cp := k\<rparr>) x of
           Inl e \<Rightarrow> Some (Inl e)
         | Inr (go_on, s, x) \<Rightarrow>
             if go_on then ne_protocol_input D T C stale s x
             else Some (Inr (consume_op D (cp s) s, x)))"
        "cp s < k" "8 \<le> k" "k + unat Len + 1 \<le> nc s"
        "nph_wf (take (unat Len + 9) (drop (k - 8) (ibuf s)))"
proof -
  note step = ne_protocol_input.simps [of D T C stale s x]
  define s1 where "s1 = s\<lparr>cp := found_at 0xAA s + 1\<rparr>"
  show thesis
  proof (cases "found_at 0xAA s < nc s")
    case False
    then have "not_found_op D 0xAA s = (True, consumed (nc s) s)" using D(2) by (simp add: searches_def)
    with assms(3) show thesis by (intro stop [of "consumed (nc s) s"]) (simp_all add: step consumed_def)
  next
    case True
    then have nf: "not_found_op D 0xAA s = (False, s1)" using D(2) by (simp add: searches_def s1_def)
    have s1: "cp s < cp s1" "cp s1 \<le> nc s" "ibuf s1 = ibuf s"
      using True found_at_ge [of s "0xAA"] by (simp_all add: s1_def)
    consider (next_sync) "cp s1 < nc s1 \<and> ibuf s1 ! cp s1 \<noteq> 0xAA"
      | (short) "\<not> (cp s1 < nc s1 \<and> ibuf s1 ! cp s1 \<noteq> 0xAA)" "nc s < cp s1 + 7"
      | (hdr) "\<not> (cp s1 < nc s1 \<and> ibuf s1 ! cp s1 \<noteq> 0xAA)" "cp s1 + 7 \<le> nc s"
      by linarith
    then show thesis
    proof cases
      case next_sync
      with assms(3) nf s1 show thesis by (intro again [of s1]) (simp_all add: step)
    next
      case short
      with assms(3) nf s1 show thesis by (intro stop [of "s1\<lparr>cp := cp s1 + 1\<rparr>"]) (auto simp: step Let_def)
    next
      case hdr
      define Len where "Len = le16 (ibuf s ! (cp s1 + 5)) (ibuf s ! (cp s1 + 6))"
      have s2: "s1\<lparr>cp := k\<rparr> = s\<lparr>cp := k\<rparr>" for k by (simp add: s1_def)
      have run: "ne_protocol_input D T C stale s x =
        (if nc s < cp s1 + 7 + unat Len + 1 then Some (Inr (s\<lparr>cp := cp s1 + 7\<rparr>, x))
         else case ne_packet T C stale Len (s\<lparr>cp := cp s1 + 7\<rparr>) x of
           Inl e \<Rightarrow> Some (Inl e)
         | Inr (go_on, s, x) \<Rightarrow>
             if go_on then ne_protocol_input D T C stale s x
             else Some (Inr (consume_op D (cp s) s, x)))"
        using assms(3) nf hdr s1 by (subst step) (simp add: Let_def Len_def s2 add.commute)
      show thesis
      proof (cases "nc s < cp s1 + 7 + unat Len + 1")
        case True
        with run hdr show thesis by (intro stop [of "s\<lparr>cp := cp s1 + 7\<rparr>"]) simp_all
      next
        case False
        have aa: "ibuf s ! (cp s1 - 1) = 0xAA" "ibuf s ! cp s1 = 0xAA" "1 \<le> cp s1"
          using found_at_byte [OF True] hdr s1(3) by (auto simp: s1_def)
        have "nph_wf (take (unat Len + 9) (drop (cp s1 - 1) (ibuf s)))"
          using aa False by (intro nph_wf_at) (simp_all add: Len_def add.commute)
        with run s1(1) False show thesis by (intro packet [of Len "cp s1 + 7"]) simp_all
      qed
    qed
  qed
qed

lemma ne_input_returns:
  assumes D: "consumes D" "searches D" and "cp s \<le> nc s" and "served x"
  shows "\<exists>r. ne_protocol_input D T C stale s x = Some r
    \<and> (case r of Inl e \<Rightarrow> e = Assert_failed \<or> e = Out_of_bounds \<and> short_at_end (ibuf s)
       | Inr (s', x') \<Rightarrow> same_clients x x' \<and> cp s' \<le> nc s' + 1)"
  using assms(3,4)
proof (induction "nc s - cp s" arbitrary: s x rule: less_induct)
  case less
  show ?case
  proof (cases "cp s < nc s")
    case False
    then show ?thesis
      using less.prems D(1) by (simp add: ne_protocol_input.simps [of D] consumes_def consumed_def)
  next
    case True
    show ?thesis
    proof (cases rule: ne_pass [OF D True, of T C stale x, case_names stop again packet])
      case (stop s')
      then show ?thesis by simp
    next
      case (again s')
      then have "nc s' - cp s' < nc s - cp s" using True by simp
      from less.hyps [OF this again(3) less.prems(2)] show ?thesis
        unfolding again(1) again(4) [symmetric] .
    next
      case (packet k Len)
      let ?s = "s\<lparr>cp := k + unat Len + 1\<rparr>"
      have short: "short_at_end (ibuf s)" if "max (nc s) NEI_BUFSIZE < k + 6"
        unfolding short_at_end_def using that packet(3-5)
        by (intro exI [of _ "k - 8"] exI [of _ "take (unat Len + 9) (drop (k - 8) (ibuf s))"])
          (simp add: min_def)
      have "case ne_packet T C stale Len (s\<lparr>cp := k\<rparr>) x of
          Inl e \<Rightarrow> e = Assert_failed \<or> e = Out_of_bounds \<and> max (nc s) NEI_BUFSIZE < k + 6
        | Inr (go, s', x') \<Rightarrow> same_clients x x' \<and> s' = s\<lparr>cp := if go then k + unat Len + 1 else k - 8\<rparr>"
        using ne_packet_any [OF less.prems(2), where s = "s\<lparr>cp := k\<rparr>" and T = T and C = C
            and stale = stale and Len = Len] packet(3) by (auto split: sum.splits)
      then consider (fault) e where "ne_packet T C stale Len (s\<lparr>cp := k\<rparr>) x = Inl e"
          "e = Assert_failed \<or> e = Out_of_bounds \<and> max (nc s) NEI_BUFSIZE < k + 6"
        | (wait) x1 where "ne_packet T C stale Len (s\<lparr>cp := k\<rparr>) x = Inr (False, s\<lparr>cp := k - 8\<rparr>, x1)"
            "same_clients x x1"
        | (more) x1 where "ne_packet T C stale Len (s\<lparr>cp := k\<rparr>) x = Inr (True, ?s, x1)"
            "same_clients x x1"
        by (auto split: sum.splits prod.splits if_splits)
      then show ?thesis
      proof cases
        case fault
        with packet(1) short show ?thesis by auto
      next
        case wait
        have "consume_op D (k - 8) (s\<lparr>cp := k - 8\<rparr>) = consumed (k - 8) (s\<lparr>cp := k - 8\<rparr>)"
          using D(1) packet(4) by (simp add: consumes_def)
        with packet(1) wait show ?thesis by (simp add: consumed_def)
      next
        case more
        have "nc ?s - cp ?s < nc s - cp s" "cp ?s \<le> nc ?s" using packet(2,4) by simp_all
        moreover have "served x1" using less.prems(2) same_clientsD(1) [OF more(2)] by simp
        ultimately obtain r where "ne_protocol_input D T C stale ?s x1 = Some r"
          "case r of Inl e \<Rightarrow> e = Assert_failed \<or> e = Out_of_bounds \<and> short_at_end (ibuf ?s)
             | Inr (s', x') \<Rightarrow> same_clients x1 x' \<and> cp s' \<le> nc s' + 1"
          using less.hyps [of ?s x1] by blast
        then show ?thesis
          using packet(1) more by (auto split: sum.splits elim: same_clients_trans)
      qed
    qed
  qed
qed

section \<open>The invariant\<close>

text \<open>
  The library behaves as documented. Between two reads it keeps \<open>cp\<close> or moves it back to the start
  of the buffer. \<open>Fl_Read\<close> is a set of bits, not empty.
\<close>

definition emu_lib_ok :: "('t, 'o) emu_lib \<Rightarrow> bool" where
  "emu_lib_ok L \<longleftrightarrow> consumes (emu_dasio L) \<and> searches (emu_dasio L) \<and> emu_Fl_Read L \<noteq> 0
     \<and> (\<forall>s. emu_resume L s = s \<or> emu_resume L s = s\<lparr>cp := 0\<rparr>)"

text \<open>While the recording is read, \<open>client\<close> is the address of a connection in memory, never null.\<close>

definition emu_inv :: "('t, 'o) emu_lib \<Rightarrow> ('t, 'o) emulator \<Rightarrow> bool" where
  "emu_inv L p \<longleftrightarrow> cp (ne_buf p) \<le> nc (ne_buf p) + 1 \<and> conns (NE p) 0 = None
     \<and> (neflags (NE p) AND emu_Fl_Read L \<noteq> 0 \<longrightarrow> served (NE p))"

lemma emu_main_inv: "emu_inv L (emulator_main L secs0 msecs0 client0 to flags0)"
  by (simp add: emu_inv_def emulator_main_def NE_ingest_def Let_def and.assoc)

lemma emu_resumed:
  assumes "emu_lib_ok L"
  shows "cp (emu_resume L s) \<le> cp s" "ibuf (emu_resume L s) = ibuf s"
proof -
  have "emu_resume L s = s \<or> emu_resume L s = s\<lparr>cp := 0\<rparr>" using assms unfolding emu_lib_ok_def by blast
  then show "cp (emu_resume L s) \<le> cp s" "ibuf (emu_resume L s) = ibuf s" by auto
qed

text \<open>
  The faults: the assertion on the recorded milliseconds, and a short packet at the end of the buffer.
\<close>

definition emu_may_fault :: "'o emu_event \<Rightarrow> ('t, 'o) emulator \<Rightarrow> fault \<Rightarrow> bool" where
  "emu_may_fault e p f \<longleftrightarrow> (\<exists>bs stale. e = Emu_read bs stale
     \<and> (f = Assert_failed \<or> f = Out_of_bounds \<and> short_at_end (ibuf (ne_buf p) @ bs)))"

lemma emu_read_inv:
  assumes L: "emu_lib_ok L" and inv: "emu_inv L p" and en: "emu_enabled L (Emu_read bs stale) p"
  shows "\<exists>r. emu_handle L (Emu_read bs stale) p = Some r
    \<and> (case r of Inl f \<Rightarrow> emu_may_fault (Emu_read bs stale) p f | Inr p' \<Rightarrow> emu_inv L p')"
proof -
  define s where "s = emu_resume L (ne_buf p)"
  define s' where "s' = s\<lparr>ibuf := ibuf s @ bs\<rparr>"
  have s: "cp s \<le> nc (ne_buf p) + 1" "ibuf s = ibuf (ne_buf p)"
    using emu_resumed [OF L, of "ne_buf p"] inv by (simp_all add: s_def emu_inv_def)
  have "1 \<le> length bs" using en by (cases bs) simp_all
  with s have "cp s' \<le> nc s'" by (simp add: s'_def)
  moreover have "served (NE p)" using inv en by (simp add: emu_inv_def)
  ultimately obtain r where r: "ne_protocol_input (emu_dasio L) (emu_timer L) (emu_chan L) stale s' (NE p) = Some r"
    "case r of Inl e \<Rightarrow> e = Assert_failed \<or> e = Out_of_bounds \<and> short_at_end (ibuf s')
       | Inr (s', x') \<Rightarrow> same_clients (NE p) x' \<and> cp s' \<le> nc s' + 1"
    using ne_input_returns [of "emu_dasio L" s' "NE p"] L unfolding emu_lib_ok_def by blast
  then show ?thesis
    using inv \<open>served (NE p)\<close>
    by (cases r) (auto simp: s'_def s_def [symmetric] s emu_inv_def emu_may_fault_def Let_def dest: same_clientsD)
qed

lemma emu_step_inv:
  assumes L: "emu_lib_ok L" and inv: "emu_inv L p" and en: "emu_enabled L e p"
  shows "\<exists>r. emu_handle L e p = Some r
    \<and> (case r of Inl f \<Rightarrow> emu_may_fault e p f | Inr p' \<Rightarrow> emu_inv L p')"
proof (cases e)
  case (Emu_read bs stale)
  then show ?thesis using emu_read_inv [OF L inv, of bs stale] en
    by (auto simp del: emu_handle.simps split: sum.splits)
next
  case (Emu_accepted c out)
  with inv en show ?thesis
    by (auto simp: emu_inv_def tcp_new_client_def nephex_tcp_def tcp_connected_def set_client_def
        served_def Let_def)
next
  case (Emu_released c)
  with inv en show ?thesis
    by (auto simp: emu_inv_def tcp_destroy_def reset_client_def served_def Let_def and.assoc)
next
  case (Emu_sent c out)
  with inv en show ?thesis by (cases "c = 0") (auto simp: emu_inv_def served_def)
qed (use inv in \<open>auto simp: emu_inv_def ne_protocol_timeout_def\<close>)

interpretation emu_loop: loop_invariant "emu_enabled L" "emu_handle L"
    "\<lambda>p. emu_lib_ok L \<and> emu_inv L p" "\<lambda>e p. False" emu_may_fault
  for L :: "('t, 'o) emu_lib"
proof
  fix p e
  assume inv: "emu_lib_ok L \<and> emu_inv L p" and en: "emu_enabled L e p"
  show "outcome False (emu_handle L e p) (emu_may_fault e p) (\<lambda>p. emu_lib_ok L \<and> emu_inv L p)"
    using emu_step_inv [OF _ _ en] inv by (simp add: returns_def cong: sum.case_cong)
qed

section \<open>Without a client\<close>

lemma silent_step:
  assumes "client (NE q) = 0" "neflags (NE q) AND emu_Fl_Read L = 0"
    and "\<exists>out2. conns (NE q) c = Some out2 \<and> w out2 = v" and "A \<and> Emu_closed c \<notin> set es \<longrightarrow> c \<in> set (kids q)"
    and run: "emu_handle L e q = Some (Inr q')"
    and "emu_writes w e q" "e \<noteq> Emu_released c" "\<And>d out. e \<noteq> Emu_accepted d out"
  shows "client (NE q') = 0 \<and> neflags (NE q') AND emu_Fl_Read L = 0
    \<and> (\<exists>out2. conns (NE q') c = Some out2 \<and> w out2 = v)
    \<and> (A \<and> Emu_closed c \<notin> set (es @ [e]) \<longrightarrow> c \<in> set (kids q'))"
proof (cases e)
  case (Emu_read bs stale)
  let ?s = "(emu_resume L (ne_buf q))\<lparr>ibuf := ibuf (emu_resume L (ne_buf q)) @ bs\<rparr>"
  obtain r where r: "ne_protocol_input (emu_dasio L) (emu_timer L) (emu_chan L) stale ?s (NE q) = Some r"
    "map_sum id (\<lambda>(s, x). q\<lparr>NE := x, ne_buf := s\<rparr>) r = Inr q'"
    using run Emu_read by (auto simp: Let_def)
  then obtain s' x' where "r = Inr (s', x')" by (cases r) auto
  with r ne_no_client [OF r(1) assms(1)] show ?thesis using assms(1-4) by auto
next
  case (Emu_released d)
  then show ?thesis
    using assms by (auto simp: tcp_destroy_def reset_client_def Let_def and.assoc)
next
  case (Emu_sent d out)
  then show ?thesis using assms by auto
qed (use assms in \<open>auto simp: ne_protocol_timeout_def\<close>)

section \<open>Properties\<close>

text \<open>
  C15: The emulator never uses a connection that has been deleted and never hangs. Started by
  \<open>main\<close>, whatever the memory held, after any sequence of clients that connect, are refused, close
  and are deleted, of reads of any bytes at any cut and of timeouts: the recording is read only
  while the address in \<open>client\<close> is that of a connection in memory, and the handler of every
  event that can come next returns. Only a read can fault: by the assertion on the recorded
  milliseconds, or, when a packet shorter than 14 bytes lies at the end of the buffer of 1000
  bytes, by reading its time behind the buffer (\<open>short_packet_at_end\<close>). But when the memory of \<open>client\<close>, which the constructor leaves uninitialised, is not
  null, the first client is refused.
\<close>

theorem emulator_serves_safely:
  assumes "emu_lib_ok L" and "emu_run L (emulator_main L secs0 msecs0 client0 to flags0) es p"
  shows "(neflags (NE p) AND emu_Fl_Read L \<noteq> 0 \<longrightarrow> client (NE p) \<noteq> 0 \<and> conns (NE p) (client (NE p)) \<noteq> None)
    \<and> (emu_enabled L e p \<longrightarrow> (\<exists>r. emu_handle L e p = Some r
         \<and> (\<forall>f. r = Inl f \<longrightarrow> (\<exists>bs stale. e = Emu_read bs stale
             \<and> (f = Assert_failed \<or> f = Out_of_bounds \<and> short_at_end (ibuf (ne_buf p) @ bs))))))
    \<and> (\<exists>q. emu_handle L (Emu_accepted c out) (emulator_main L secs0 msecs0 client0 to flags0) = Some (Inr q)
         \<and> (if client0 \<noteq> 0 then kids q = [] \<and> client (NE q) = client0
            else kids q = [c] \<and> client (NE q) = c))"
proof -
  have main: "emu_lib_ok L \<and> emu_inv L (emulator_main L secs0 msecs0 client0 to flags0)"
    by (simp add: assms(1) emu_main_inv)
  have inv: "emu_inv L p" using emu_loop.run_inv [OF assms(2) main] by simp
  then have "neflags (NE p) AND emu_Fl_Read L \<noteq> 0 \<longrightarrow> client (NE p) \<noteq> 0 \<and> conns (NE p) (client (NE p)) \<noteq> None"
    by (cases "client (NE p) = 0") (auto simp: emu_inv_def served_def)
  moreover have "emu_enabled L e p \<longrightarrow> (\<exists>r. emu_handle L e p = Some r
         \<and> (\<forall>f. r = Inl f \<longrightarrow> (\<exists>bs stale. e = Emu_read bs stale
             \<and> (f = Assert_failed \<or> f = Out_of_bounds \<and> short_at_end (ibuf (ne_buf p) @ bs)))))"
    using emu_loop.next_kept [OF assms(2) main] by (fastforce simp: returns_iff emu_may_fault_def)
  moreover have "\<exists>q. emu_handle L (Emu_accepted c out) (emulator_main L secs0 msecs0 client0 to flags0)
      = Some (Inr q) \<and> (if client0 \<noteq> 0 then kids q = [] \<and> client (NE q) = client0
        else kids q = [c] \<and> client (NE q) = c)"
    by (simp add: emulator_main_def NE_ingest_def tcp_new_client_def nephex_tcp_def
        tcp_connected_def set_client_def Let_def)
  ultimately show ?thesis by blast
qed

text \<open>
  C40: A packet shorter than 14 bytes at the end of the buffer of 1000 bytes (a header and less than
  six bytes) makes the emulator read its time behind the end of the buffer: the length
  announced is checked against the bytes received, but not against the six bytes of the time.
\<close>

theorem short_packet_at_end:
  assumes "consumes D" "searches D" and "nph_wf f" and "length f < 14" and "0xAA \<notin> set junk"
    and "length junk + length f \<le> NEI_BUFSIZE" and "NEI_BUFSIZE < length junk + 14"
  shows "ne_protocol_input D T C stale \<lparr>ibuf = junk @ f, cp = 0\<rparr> x = Some (Inl Out_of_bounds)"
  using ne_loop_packet [OF assms(1-3,5), of "\<lparr>ibuf = junk @ f, cp = 0\<rparr>" "[]" T C stale x] assms(6,7)
  by (simp add: ne_packet_def bytes_at_def)

text \<open>
  C38: A second client disconnects the first. It is refused by \<open>connected\<close>, which has the new object
  deleted, and its destructor resets the emulator, though the object never was its client. From then
  on, until another client connects, the first connection is sent nothing, although it is still
  open: reading is switched off, and stays so; and however often something were read, the packets
  would go nowhere.
\<close>

theorem second_client_silences_first:
  assumes "client (NE p) = c" and "c \<noteq> 0" and "conns (NE p) c = Some out"
    and "c' \<noteq> 0" and "conns (NE p) c' = None"
  shows "\<exists>p1. emu_run L p [Emu_accepted c' out', Emu_released c'] p1
    \<and> (\<forall>es q. runs (\<lambda>e p. emu_writes w e p \<and> (emu_enabled L e p \<or> (\<exists>bs stale. e = Emu_read bs stale)))
          (emu_handle L) p1 es q
        \<longrightarrow> (\<forall>e \<in> set es. e \<noteq> Emu_released c \<and> (\<forall>d out. e \<noteq> Emu_accepted d out))
        \<longrightarrow> client (NE q) = 0 \<and> neflags (NE q) AND emu_Fl_Read L = 0
          \<and> (\<exists>out2. conns (NE q) c = Some out2 \<and> w out2 = w out)
          \<and> (c \<in> set (kids p) \<and> Emu_closed c \<notin> set es \<longrightarrow> c \<in> set (kids q)))"
proof -
  define pa where "pa = p\<lparr>NE := (NE p)\<lparr>conns := (conns (NE p))(c' \<mapsto> out')\<rparr>, kids := removeAll c' (kids p)\<rparr>"
  define p1 where "p1 = pa\<lparr>NE := tcp_destroy (emu_timer L) (emu_Fl_Read L) True c' (NE pa)\<rparr>"
  have ne: "c' \<noteq> c" using assms(3,5) by auto
  have a: "emu_handle L (Emu_accepted c' out') p = Some (Inr pa)"
    using assms(1,2) by (simp add: tcp_new_client_def nephex_tcp_def tcp_connected_def set_client_def pa_def Let_def)
  have "emu_run L p [Emu_accepted c' out'] pa" by (rule runs_one) (use assms(4,5) a in simp_all)
  from runs.go [OF this, of "Emu_released c'" p1]
  have run: "emu_run L p [Emu_accepted c' out', Emu_released c'] p1" by (simp add: pa_def p1_def)
  have start: "client (NE p1) = 0 \<and> neflags (NE p1) AND emu_Fl_Read L = 0
      \<and> (\<exists>out2. conns (NE p1) c = Some out2 \<and> w out2 = w out) \<and> (c \<in> set (kids p) \<longrightarrow> c \<in> set (kids p1))"
    using ne assms(3) by (simp add: p1_def pa_def tcp_destroy_def reset_client_def Let_def and.assoc)
  have "client (NE q) = 0 \<and> neflags (NE q) AND emu_Fl_Read L = 0
      \<and> (\<exists>out2. conns (NE q) c = Some out2 \<and> w out2 = w out)
      \<and> (c \<in> set (kids p) \<and> Emu_closed c \<notin> set es \<longrightarrow> c \<in> set (kids q))"
    if "runs (\<lambda>e p. emu_writes w e p \<and> (emu_enabled L e p \<or> (\<exists>bs stale. e = Emu_read bs stale)))
          (emu_handle L) p1 es q"
      and "\<forall>e \<in> set es. e \<noteq> Emu_released c \<and> (\<forall>d out. e \<noteq> Emu_accepted d out)" for es q
    using that
  proof (induction rule: runs.induct)
    case stop
    then show ?case using start by simp
  next
    case (go es q e q')
    have IH: "client (NE q) = 0" "neflags (NE q) AND emu_Fl_Read L = 0"
      "\<exists>out2. conns (NE q) c = Some out2 \<and> w out2 = w out"
      "c \<in> set (kids p) \<and> Emu_closed c \<notin> set es \<longrightarrow> c \<in> set (kids q)"
      using go.IH go.prems by simp_all
    show ?case by (rule silent_step [OF IH go.hyps(3)]) (use go.hyps(2) go.prems in auto)
  qed
  with run show ?thesis by blast
qed

section \<open>Witnesses\<close>

definition plain_emu_lib :: "(nat option, byte list) emu_lib" where
  "plain_emu_lib = \<lparr>emu_dasio = plain_dasio, emu_timer = plain_timer, emu_chan = open_chan,
     emu_Fl_Read = 1, emu_resume = (\<lambda>s. s\<lparr>cp := 0\<rparr>)\<rparr>"

lemma plain_emu_lib_ok: "emu_lib_ok plain_emu_lib"
  by (simp add: emu_lib_ok_def plain_emu_lib_def plain_dasio_ok)

text \<open>
  A first client connects, at address 1; then a recorded packet is read, and sent to it.
\<close>

theorem emulator_serves_safely_witness:
  "\<exists>p r. emu_run plain_emu_lib (emulator_main plain_emu_lib 0 0 0 None 0) [Emu_accepted 1 []] p
    \<and> client (NE p) = 1 \<and> conns (NE p) 1 \<noteq> None
    \<and> emu_handle plain_emu_lib (Emu_read recorded_1 (\<lambda>_. 0)) p = Some r
    \<and> (\<forall>f. r = Inl f \<longrightarrow> f = Assert_failed \<or> f = Out_of_bounds)"
proof -
  define p0 where "p0 = emulator_main plain_emu_lib 0 0 0 None 0"
  define p where "p = p0\<lparr>NE := (NE p0)\<lparr>client := 1, neflags := 1, conns := [1 \<mapsto> []]\<rparr>, kids := [1]\<rparr>"
  have "emu_enabled plain_emu_lib (Emu_accepted 1 []) p0"
    and h: "emu_handle plain_emu_lib (Emu_accepted 1 []) p0 = Some (Inr p)"
    by (simp_all add: p_def p0_def emulator_main_def NE_ingest_def plain_emu_lib_def tcp_new_client_def
        nephex_tcp_def tcp_connected_def set_client_def Let_def)
  then have run: "emu_run plain_emu_lib p0 [Emu_accepted 1 []] p" by (rule runs_one)
  have en: "emu_enabled plain_emu_lib (Emu_read recorded_1 (\<lambda>_. 0)) p"
    by (simp add: p_def plain_emu_lib_def recorded_1_def)
  have p: "client (NE p) = 1" "conns (NE p) 1 \<noteq> None" by (simp_all add: p_def)
  obtain r where "emu_handle plain_emu_lib (Emu_read recorded_1 (\<lambda>_. 0)) p = Some r"
    "\<forall>f. r = Inl f \<longrightarrow> f = Assert_failed \<or> f = Out_of_bounds"
    using emulator_serves_safely [OF plain_emu_lib_ok run [unfolded p0_def], of "Emu_read recorded_1 (\<lambda>_. 0)"] en
    by blast
  then show ?thesis using run p unfolding p0_def by blast
qed

text \<open>A packet of nine bytes behind 991 bytes of the recording that have no \<open>0xAA\<close>.\<close>

theorem short_packet_at_end_witness:
  "ne_protocol_input plain_dasio plain_timer open_chan (\<lambda>_. 0)
     \<lparr>ibuf = replicate 991 0 @ [0xAA, 0xAA, 143, 0, 0, 0, 0, 0, 7], cp = 0\<rparr> plain_ne = Some (Inl Out_of_bounds)"
proof -
  have "nph_wf [0xAA, 0xAA, 143, 0, 0, 0, 0, 0, 7]" by code_simp
  from short_packet_at_end [OF plain_dasio_ok(1,3) this, of "replicate 991 0"] show ?thesis
    by (simp add: NEI_BUFSIZE_def)
qed

text \<open>The first client is at address 1, the second at 2; then the library deletes the second.\<close>

theorem second_client_silences_first_witness:
  "\<exists>p1. emu_run plain_emu_lib \<lparr>NE = plain_ne, ne_buf = \<lparr>ibuf = [], cp = 0\<rparr>, kids = [1]\<rparr>
      [Emu_accepted 2 [], Emu_released 2] p1
    \<and> client (NE p1) = 0 \<and> conns (NE p1) 1 = Some [] \<and> 1 \<in> set (kids p1)"
proof -
  let ?p = "\<lparr>NE = plain_ne, ne_buf = \<lparr>ibuf = [], cp = 0\<rparr>, kids = [1]\<rparr>"
  have p: "client (NE ?p) = 1" "conns (NE ?p) 1 = Some []" "conns (NE ?p) 2 = None" "kids ?p = [1]"
    by (simp_all add: plain_ne_def)
  obtain p1 where p1: "emu_run plain_emu_lib ?p [Emu_accepted 2 [], Emu_released 2] p1"
    "client (NE p1) = 0 \<and> (\<exists>out2. conns (NE p1) 1 = Some out2 \<and> id out2 = id []) \<and> 1 \<in> set (kids p1)"
    using second_client_silences_first [OF p(1) _ p(2) _ p(3), of plain_emu_lib "[]" id]
      runs.stop by fastforce
  then show ?thesis by auto
qed

end
