(* ===== verification/NphEmuReads.thy ===== *)
theory NphEmuReads
  imports NphEmuSystem
begin

text \<open>
  What the emulator does with a read that ends inside a packet. \<open>protocol_input\<close> then returns
  before it consumes what it has handled, and the two things that the library can do to \<open>cp\<close>
  before the next read both go wrong.
\<close>

section \<open>Whole packets, then a part of one\<close>

lemma ne_frames_ready:
  assumes D: "consumes D" "searches D" and T: "keeps_time T added" "always_ready T C"
    and C: "appends C written" and "\<forall>p \<in> set frames. emu_wf p"
    and "drop (cp s) (ibuf s) = concat frames @ rest"
    and "ms_ok T x" "client x \<noteq> 0" "conns x (client x) = Some out"
  shows "\<exists>x' out'. ne_protocol_input D T C stale s x
      = ne_protocol_input D T C stale (s\<lparr>cp := cp s + length (concat frames)\<rparr>) x'
    \<and> ms_ok T x' \<and> client x' = client x \<and> neflags x' = neflags x \<and> conns x' (client x) = Some out'
    \<and> written out' = written out @ concat frames"
  using assms(6-)
proof (induction frames arbitrary: s x out)
  case Nil
  then show ?case by (intro exI [of _ x] exI [of _ out]) simp
next
  case (Cons p frames)
  have p: "emu_wf p" and s: "drop (cp s) (ibuf s) = p @ concat frames @ rest" using Cons.prems by simp_all
  let ?s8 = "s\<lparr>cp := cp s + 8\<rparr>" and ?s = "s\<lparr>cp := cp s + length p\<rparr>"
  have "8 \<le> cp ?s8" "drop (cp ?s8 - 8) (ibuf ?s8) = p @ concat frames @ rest" using s by simp_all
  then obtain go x1 out1 fw where packet: "ne_packet T C stale (Len_of p) ?s8 x
      = Inr (go, ?s8\<lparr>cp := if go then cp ?s8 - 8 + length p else cp ?s8 - 8\<rparr>, x1)"
    "ms_ok T x1" "client x1 = client x" "conns x1 (client x) = Some out1"
    "written out1 = written out @ concat fw" "always_ready T C \<longrightarrow> go \<and> fw = [p]"
    using ne_packet_frame [OF T(1) C p _ _ Cons.prems(3-5)] by blast
  have go: "go" "fw = [p]" using packet(6) T(2) by simp_all
  have run: "ne_protocol_input D T C stale s x = ne_protocol_input D T C stale ?s x1"
    using ne_loop_frame [OF D p s, of T C stale x] packet(1) go(1) by simp
  have "same_clients x x1"
    using ne_packet_any [where s = ?s8 and x = x and T = T and C = C and stale = stale and Len = "Len_of p"]
      packet(1) go(1) Cons.prems(5) by (simp add: served_def)
  then have fl: "neflags x1 = neflags x" by (rule same_clientsD)
  have "drop (cp ?s) (ibuf ?s) = drop (length p) (drop (cp s) (ibuf s))" by (simp add: add.commute)
  then have rest: "drop (cp ?s) (ibuf ?s) = concat frames @ rest" using s by simp
  obtain x' out' where "ne_protocol_input D T C stale ?s x1
      = ne_protocol_input D T C stale (?s\<lparr>cp := cp ?s + length (concat frames)\<rparr>) x'"
    "ms_ok T x'" "client x' = client x1" "neflags x' = neflags x1" "conns x' (client x1) = Some out'"
    "written out' = written out1 @ concat frames"
    using Cons.IH [OF _ rest, of x1 out1] Cons.prems(1,4) packet(2-4) by auto
  with run packet(3-5) go fl show ?case
    by (intro exI [of _ x'] exI [of _ out']) (simp add: add.assoc)
qed

lemma ne_nothing:
  assumes "searches D" and "cp s < nc s" and "0xAA \<notin> set (drop (cp s) (ibuf s))"
  shows "ne_protocol_input D T C stale s x = Some (Inr (\<lparr>ibuf = [], cp = 0\<rparr>, x))"
proof -
  have "takeWhile (\<lambda>b. b \<noteq> 0xAA) (drop (cp s) (ibuf s)) = drop (cp s) (ibuf s)"
    using assms(3) by (auto simp: takeWhile_eq_all_conv)
  then have "found_at 0xAA s = cp s + length (drop (cp s) (ibuf s))"
    unfolding found_at_def by (rule arg_cong)
  then have "not_found_op D 0xAA s = (True, consumed (nc s) s)"
    using assms(1,2) by (simp add: searches_def)
  then show ?thesis using assms(2) by (subst ne_protocol_input.simps) (simp add: consumed_def)
qed

text \<open>The part of a packet: \<open>cp\<close> is left behind its sync bytes or its header, and nothing is consumed.\<close>

lemma ne_part:
  assumes D: "searches D" and p: "emu_wf p" and k: "0 < k" "k < length p"
    and s: "drop (cp s) (ibuf s) = take k p"
  shows "ne_protocol_input D T C stale s x
    = Some (Inr (s\<lparr>cp := cp s + (if k < 8 then 2 else 8)\<rparr>, x))"
proof -
  have len: "14 \<le> length p" "length p = unat (Len_of p) + 9"
    using p by (simp_all add: emu_wf_def nph_wf_def frame_size_def Len_of_def)
  have nc: "nc s = cp s + k" "cp s < nc s" using arg_cong [OF s, of length] k by simp_all
  have at: "ibuf s ! (cp s + i) = p ! i" if "i < k" for i
  proof -
    have "ibuf s ! (cp s + i) = drop (cp s) (ibuf s) ! i" using nc that by simp
    also have "\<dots> = p ! i" using s that by simp
    finally show ?thesis .
  qed
  have "take 2 p = [0xAA, 0xAA]" using p by (simp add: emu_wf_def nph_wf_def)
  then obtain ps where ps: "p = 0xAA # 0xAA # ps"
    by (metis append_Cons append_Nil append_take_drop_id)
  then have "drop (cp s) (ibuf s) = 0xAA # take (k - 1) (0xAA # ps)" using s k(1) by (cases k) simp_all
  then have "found_at 0xAA s = cp s" by (simp add: found_at_def)
  then have nf: "not_found_op D 0xAA s = (False, s\<lparr>cp := cp s + 1\<rparr>)"
    using D nc(2) by (simp add: searches_def)
  have aa: "Suc (cp s) < nc s \<Longrightarrow> ibuf s ! Suc (cp s) = 0xAA" using at [of 1] nc ps by simp
  show ?thesis
  proof (cases "k < 8")
    case True
    then show ?thesis using nc nf aa by (subst ne_protocol_input.simps) (auto simp: Let_def)
  next
    case False
    then have "le16 (ibuf s ! (cp s + 6)) (ibuf s ! (cp s + 7)) = Len_of p"
      using at [of 6] at [of 7] by (simp add: Len_of_def)
    then show ?thesis
      using False nc nf aa k len
      by (subst ne_protocol_input.simps) (auto simp: Let_def add.commute add.left_commute)
  qed
qed

text \<open>A read that ends inside a packet, and what the next call may start from.\<close>

lemma ne_cut:
  assumes D: "consumes D" "searches D" and T: "keeps_time T added" "always_ready T C"
    and C: "appends C written" and frames: "\<forall>p \<in> set frames. emu_wf p"
    and p: "emu_wf p" "0 < k" "k < length p"
    and x: "ms_ok T x" "client x \<noteq> 0" "conns x (client x) = Some out"
  obtains x' out' c where
    "ne_protocol_input D T C stale \<lparr>ibuf = concat frames @ take k p, cp = 0\<rparr> x
      = Some (Inr (\<lparr>ibuf = concat frames @ take k p, cp = length (concat frames) + c\<rparr>, x'))"
    "c = 2 \<or> c = 8" "ms_ok T x'" "client x' = client x" "neflags x' = neflags x"
    "conns x' (client x) = Some out'" "written out' = written out @ concat frames"
proof -
  let ?s = "\<lparr>ibuf = concat frames @ take k p, cp = 0\<rparr>"
  obtain x' out' where x': "ne_protocol_input D T C stale ?s x
      = ne_protocol_input D T C stale (?s\<lparr>cp := length (concat frames)\<rparr>) x'"
    "ms_ok T x'" "client x' = client x" "neflags x' = neflags x" "conns x' (client x) = Some out'"
    "written out' = written out @ concat frames"
    using ne_frames_ready [OF D T C frames _ x, of ?s "take k p" stale] by auto
  have "ne_protocol_input D T C stale (?s\<lparr>cp := length (concat frames)\<rparr>) x'
      = Some (Inr (?s\<lparr>cp := length (concat frames) + (if k < 8 then 2 else 8)\<rparr>, x'))"
    using ne_part [OF D(2) p, of "?s\<lparr>cp := length (concat frames)\<rparr>" T C stale x'] by simp
  then show thesis using that [of "if k < 8 then 2 else 8" x' out'] x' by auto
qed

text \<open>The two reads of the program: what the first leaves, and where the second starts.\<close>

lemma emu_cut_reads:
  assumes L: "emu_lib_ok L" and T: "keeps_time (emu_timer L) added"
    "always_ready (emu_timer L) (emu_chan L)" and C: "appends (emu_chan L) written"
    and frames: "\<forall>p \<in> set frames. emu_wf p" and p: "emu_wf p" "0 < k" "k < length p"
    and buf: "ne_buf q = \<lparr>ibuf = [], cp = 0\<rparr>" and fl: "neflags (NE q) AND emu_Fl_Read L \<noteq> 0"
    and x: "ms_ok (emu_timer L) (NE q)" "client (NE q) \<noteq> 0" "conns (NE q) (client (NE q)) = Some out"
  obtains s1 c x1 out1 where
    "s1 = \<lparr>ibuf = concat frames @ take k p, cp = length (concat frames) + c\<rparr>" "c = 2 \<or> c = 8"
    "ms_ok (emu_timer L) x1" "client x1 = client (NE q)"
    "conns x1 (client (NE q)) = Some out1" "written out1 = written out @ concat frames"
    "\<And>x2. ne_protocol_input (emu_dasio L) (emu_timer L) (emu_chan L) st'
        ((emu_resume L s1)\<lparr>ibuf := concat frames @ p\<rparr>) x1 = Some (Inr (\<lparr>ibuf = [], cp = 0\<rparr>, x2))
      \<Longrightarrow> emu_run L q [Emu_read (concat frames @ take k p) st, Emu_read (drop k p) st']
            (q\<lparr>NE := x2, ne_buf := \<lparr>ibuf = [], cp = 0\<rparr>\<rparr>)"
proof -
  have D: "consumes (emu_dasio L)" "searches (emu_dasio L)"
    and resume: "\<And>s. emu_resume L s = s \<or> emu_resume L s = s\<lparr>cp := 0\<rparr>"
    using L unfolding emu_lib_ok_def by blast+
  obtain x1 out1 c where x1: "ne_protocol_input (emu_dasio L) (emu_timer L) (emu_chan L) st
        \<lparr>ibuf = concat frames @ take k p, cp = 0\<rparr> (NE q)
      = Some (Inr (\<lparr>ibuf = concat frames @ take k p, cp = length (concat frames) + c\<rparr>, x1))"
    "c = 2 \<or> c = 8" "ms_ok (emu_timer L) x1" "client x1 = client (NE q)" "neflags x1 = neflags (NE q)"
    "conns x1 (client (NE q)) = Some out1" "written out1 = written out @ concat frames"
    by (rule ne_cut [OF D T C frames p x])
  define s1 where "s1 = \<lparr>ibuf = concat frames @ take k p, cp = length (concat frames) + c\<rparr>"
  define q1 where "q1 = q\<lparr>NE := x1, ne_buf := s1\<rparr>"
  have first: "emu_run L q [Emu_read (concat frames @ take k p) st] q1"
  proof (rule runs_one)
    have "take k p \<noteq> []" using p(2,3) by auto
    then show "emu_enabled L (Emu_read (concat frames @ take k p) st) q" using fl by simp
    have "emu_resume L (ne_buf q) = \<lparr>ibuf = [], cp = 0\<rparr>" using resume [of "ne_buf q"] buf by auto
    then show "emu_handle L (Emu_read (concat frames @ take k p) st) q = Some (Inr q1)"
      using x1(1) by (simp add: s1_def q1_def)
  qed
  have "emu_run L q [Emu_read (concat frames @ take k p) st, Emu_read (drop k p) st']
      (q\<lparr>NE := x2, ne_buf := \<lparr>ibuf = [], cp = 0\<rparr>\<rparr>)"
    if "ne_protocol_input (emu_dasio L) (emu_timer L) (emu_chan L) st'
      ((emu_resume L s1)\<lparr>ibuf := concat frames @ p\<rparr>) x1 = Some (Inr (\<lparr>ibuf = [], cp = 0\<rparr>, x2))" for x2
  proof -
    have "(emu_resume L s1)\<lparr>ibuf := ibuf (emu_resume L s1) @ drop k p\<rparr>
        = (emu_resume L s1)\<lparr>ibuf := concat frames @ p\<rparr>"
      using resume [of s1] by (auto simp: s1_def)
    then have "emu_handle L (Emu_read (drop k p) st') q1
        = Some (Inr (q\<lparr>NE := x2, ne_buf := \<lparr>ibuf = [], cp = 0\<rparr>\<rparr>))"
      using that by (simp add: q1_def Let_def)
    moreover have "emu_enabled L (Emu_read (drop k p) st') q1"
      using x1(5) p(3) fl by (simp add: q1_def)
    ultimately show ?thesis using runs.go [OF first] by simp
  qed
  with that [of s1 c x1 out1] x1(2-4,6,7) show thesis by (simp add: s1_def)
qed

section \<open>Properties\<close>

text \<open>
  C39: A read that ends inside a packet goes wrong whatever the library does to \<open>cp\<close> afterwards,
  when all its packets are due and the output takes them. The buffer holds whole packets and a
  part of one; \<open>protocol_input\<close> sends the whole packets, returns early, and consumes nothing. When
  the rest of the packet has come, a library that starts at the first byte of the buffer again
  makes it send the whole packets a second time; one that keeps \<open>cp\<close> makes it lose the packet that
  was cut (if no later byte of it looks like a sync byte).
\<close>

theorem emulator_cut_packet:
  assumes "emu_lib_ok L" and "keeps_time (emu_timer L) added"
    and "always_ready (emu_timer L) (emu_chan L)" and "appends (emu_chan L) written"
    and "\<forall>p \<in> set frames. emu_wf p" and "emu_wf p" and "0 < k" and "k < length p"
    and "ne_buf q = \<lparr>ibuf = [], cp = 0\<rparr>" and "neflags (NE q) AND emu_Fl_Read L \<noteq> 0"
    and "ms_ok (emu_timer L) (NE q)" and "client (NE q) \<noteq> 0" and "conns (NE q) (client (NE q)) = Some out"
    and "es = [Emu_read (concat frames @ take k p) st, Emu_read (drop k p) st']"
  shows "((\<forall>s. emu_resume L s = s\<lparr>cp := 0\<rparr>) \<longrightarrow> (\<exists>q' out'. emu_run L q es q'
        \<and> conns (NE q') (client (NE q)) = Some out'
        \<and> written out' = written out @ concat frames @ concat frames @ p))
    \<and> ((\<forall>s. emu_resume L s = s) \<and> 0xAA \<notin> set (drop 2 p) \<longrightarrow> (\<exists>q' out'. emu_run L q es q'
        \<and> conns (NE q') (client (NE q)) = Some out' \<and> ne_buf q' = \<lparr>ibuf = [], cp = 0\<rparr>
        \<and> written out' = written out @ concat frames))" (is "(?reset \<longrightarrow> ?again) \<and> (?kept \<longrightarrow> ?lost)")
proof (intro conjI impI)
  let ?D = "emu_dasio L" and ?T = "emu_timer L" and ?C = "emu_chan L"
  have D: "consumes ?D" "searches ?D" using assms(1) unfolding emu_lib_ok_def by blast+
  obtain s1 c x1 out1 where s1: "s1 = \<lparr>ibuf = concat frames @ take k p, cp = length (concat frames) + c\<rparr>"
    and c: "c = 2 \<or> c = 8" and x1: "ms_ok ?T x1" "client x1 = client (NE q)"
      "conns x1 (client (NE q)) = Some out1" "written out1 = written out @ concat frames"
    and second: "\<And>x2. ne_protocol_input ?D ?T ?C st' ((emu_resume L s1)\<lparr>ibuf := concat frames @ p\<rparr>) x1
        = Some (Inr (\<lparr>ibuf = [], cp = 0\<rparr>, x2)) \<Longrightarrow> emu_run L q es (q\<lparr>NE := x2, ne_buf := \<lparr>ibuf = [], cp = 0\<rparr>\<rparr>)"
    using emu_cut_reads [OF assms(1-13), of st' st thesis] unfolding assms(14) by simp
  {
    let ?s2 = "\<lparr>ibuf = concat frames @ p, cp = 0\<rparr>"
    assume ?reset
    then have start: "(emu_resume L s1)\<lparr>ibuf := concat frames @ p\<rparr> = ?s2" by (simp add: s1)
    obtain x2 out2 where x2: "ne_protocol_input ?D ?T ?C st' ?s2 x1
        = ne_protocol_input ?D ?T ?C st' (?s2\<lparr>cp := length (concat frames @ p)\<rparr>) x2"
      "conns x2 (client x1) = Some out2" "written out2 = written out1 @ concat frames @ p"
      using ne_frames_ready [OF D assms(2-4), of "frames @ [p]" ?s2 "[]" x1 out1 st'] assms(5,6,12) x1 by auto
    have "ne_protocol_input ?D ?T ?C st' (?s2\<lparr>cp := length (concat frames @ p)\<rparr>) x2
        = Some (Inr (\<lparr>ibuf = [], cp = 0\<rparr>, x2))"
      using D(1) by (subst ne_protocol_input.simps) (simp add: consumes_def consumed_def)
    then show ?again using second [of x2] x2 x1(2,4) start
      by (intro exI [of _ "q\<lparr>NE := x2, ne_buf := \<lparr>ibuf = [], cp = 0\<rparr>\<rparr>"] exI [of _ out2]) simp
  }
  {
    let ?s2 = "\<lparr>ibuf = concat frames @ p, cp = length (concat frames) + c\<rparr>"
    assume kept: ?kept
    then have start: "(emu_resume L s1)\<lparr>ibuf := concat frames @ p\<rparr> = ?s2" by (simp add: s1)
    have "set (drop c p) \<subseteq> set (drop 2 p)" using c set_drop_subset_set_drop [of 2 c p] by auto
    then have "0xAA \<notin> set (drop (cp ?s2) (ibuf ?s2))" using kept by auto
    moreover have "cp ?s2 < nc ?s2" using c assms(6) by (auto simp: emu_wf_def)
    ultimately have "ne_protocol_input ?D ?T ?C st' ?s2 x1 = Some (Inr (\<lparr>ibuf = [], cp = 0\<rparr>, x1))"
      by (intro ne_nothing [OF D(2)])
    then show ?lost using second [of x1] x1(3,4) start
      by (intro exI [of _ "q\<lparr>NE := x1, ne_buf := \<lparr>ibuf = [], cp = 0\<rparr>\<rparr>"] exI [of _ out1]) simp
  }
qed

section \<open>Witnesses\<close>

text \<open>
  Both kinds of library: a client is connected, the recorded packets come in one read that ends
  after five bytes of the second, and the rest of it in a second read.
\<close>

definition plain_emu_prog :: "(nat option, byte list) emulator" where
  "plain_emu_prog = \<lparr>NE = plain_ne\<lparr>neflags := 1\<rparr>, ne_buf = \<lparr>ibuf = [], cp = 0\<rparr>, kids = [1]\<rparr>"

definition keeping_emu_lib :: "(nat option, byte list) emu_lib" where
  "keeping_emu_lib = plain_emu_lib\<lparr>emu_resume := \<lambda>s. s\<rparr>"

theorem emulator_cut_packet_witness:
  "(\<exists>q'. emu_run plain_emu_lib plain_emu_prog [Emu_read (recorded_1 @ take 5 recorded_2) (\<lambda>_. 0),
        Emu_read (drop 5 recorded_2) (\<lambda>_. 0)] q'
      \<and> conns (NE q') 1 = Some (recorded_1 @ recorded_1 @ recorded_2))
    \<and> (\<exists>q'. emu_run keeping_emu_lib plain_emu_prog [Emu_read (recorded_1 @ take 5 recorded_2) (\<lambda>_. 0),
        Emu_read (drop 5 recorded_2) (\<lambda>_. 0)] q'
      \<and> conns (NE q') 1 = Some recorded_1)"
proof -
  have wf: "\<forall>p \<in> set [recorded_1]. emu_wf p" "emu_wf recorded_2" using recorded_wf by simp_all
  have ok: "emu_lib_ok keeping_emu_lib"
    using plain_emu_lib_ok by (simp add: emu_lib_ok_def keeping_emu_lib_def)
  have same: "emu_timer L = plain_timer \<and> emu_chan L = open_chan \<and> emu_Fl_Read L = 1"
    if "L = plain_emu_lib \<or> L = keeping_emu_lib" for L
    using that by (auto simp: plain_emu_lib_def keeping_emu_lib_def)
  have q: "ne_buf plain_emu_prog = \<lparr>ibuf = [], cp = 0\<rparr>" "neflags (NE plain_emu_prog) = 1"
    "client (NE plain_emu_prog) = 1" "conns (NE plain_emu_prog) 1 = Some []"
    "ms_ok plain_timer (NE plain_emu_prog)"
    by (simp_all add: plain_emu_prog_def plain_ne_def ms_ok_def plain_timer_def)
  note cut = emulator_cut_packet [where added = plain_added and written = "\<lambda>out. out"
      and frames = "[recorded_1]" and p = recorded_2 and k = 5 and q = plain_emu_prog and out = "[]"
      and st = "\<lambda>_. 0" and st' = "\<lambda>_. 0"]
  have "\<forall>s. emu_resume plain_emu_lib s = s\<lparr>cp := 0\<rparr>" "\<forall>s. emu_resume keeping_emu_lib s = s"
    by (simp_all add: plain_emu_lib_def keeping_emu_lib_def)
  moreover have "0xAA \<notin> set (drop 2 recorded_2)" "5 < length recorded_2" by (simp_all add: recorded_2_def)
  ultimately have "\<exists>q' out'. emu_run plain_emu_lib plain_emu_prog
        [Emu_read (concat [recorded_1] @ take 5 recorded_2) (\<lambda>_. 0), Emu_read (drop 5 recorded_2) (\<lambda>_. 0)] q'
      \<and> conns (NE q') (client (NE plain_emu_prog)) = Some out'
      \<and> out' = [] @ concat [recorded_1] @ concat [recorded_1] @ recorded_2"
    and "\<exists>q' out'. emu_run keeping_emu_lib plain_emu_prog
        [Emu_read (concat [recorded_1] @ take 5 recorded_2) (\<lambda>_. 0), Emu_read (drop 5 recorded_2) (\<lambda>_. 0)] q'
      \<and> conns (NE q') (client (NE plain_emu_prog)) = Some out' \<and> ne_buf q' = \<lparr>ibuf = [], cp = 0\<rparr>
      \<and> out' = [] @ concat [recorded_1]"
    using cut [OF plain_emu_lib_ok, THEN conjunct1, rule_format] cut [OF ok, THEN conjunct2, rule_format]
      wf same [of plain_emu_lib] same [of keeping_emu_lib] q plain_keeps_time plain_ready open_chan_appends
    by simp_all
  then show ?thesis by (auto simp: q(3))
qed

end
