(* ===== verification/NphLink.thy ===== *)
theory NphLink
  imports NphSystem NphEmuReads
begin

text \<open>
  The emulator and the nephelometer program together, joined by a TCP connection: in any
  interleaving of the two programs, with their reads cut anywhere, the packets that the emulator
  sends arrive whole and in order.
\<close>

section \<open>What the emulator sends\<close>

text \<open>
  To each connection that stays, whole frames. This needs the size of the buffer: the length of a
  packet fits in the \<open>uint16_t\<close> argument of \<open>forward_packet\<close>.
\<close>

definition sends_frames :: "('o \<Rightarrow> byte list) \<Rightarrow> ('t, 'o) ne \<Rightarrow> ('t, 'o) ne \<Rightarrow> bool" where
  "sends_frames w x x' \<longleftrightarrow> (\<forall>c out out'. conns x c = Some out \<longrightarrow> conns x' c = Some out' \<longrightarrow>
     (\<exists>fs. w out' = w out @ concat fs \<and> (\<forall>f \<in> set fs. nph_wf f)))"

lemma sends_nothing: "(\<And>c out'. conns x c \<noteq> None \<Longrightarrow> conns x' c = Some out' \<Longrightarrow>
    w out' = w (the (conns x c))) \<Longrightarrow> sends_frames w x x'"
  unfolding sends_frames_def by (intro allI impI exI [of _ "[]"]) fastforce

lemma sends_frames_trans:
  assumes "sends_frames w x y" and "sends_frames w y z" and "same_clients x y"
  shows "sends_frames w x z"
  unfolding sends_frames_def
proof (intro allI impI)
  fix c out out'
  assume c: "conns x c = Some out" "conns z c = Some out'"
  then obtain o1 where o1: "conns y c = Some o1" using same_clientsD(3) [OF assms(3), of c] by auto
  obtain fs gs where "w o1 = w out @ concat fs" "\<forall>f \<in> set fs. nph_wf f"
    "w out' = w o1 @ concat gs" "\<forall>f \<in> set gs. nph_wf f"
    using assms(1,2) c o1 unfolding sends_frames_def by metis
  then show "\<exists>fs. w out' = w out @ concat fs \<and> (\<forall>f \<in> set fs. nph_wf f)"
    by (intro exI [of _ "fs @ gs"]) auto
qed

lemma ne_packet_sends:
  assumes C: "appends C w" and cp: "8 \<le> cp s" and len: "unat Len + 9 < 2 ^ 16"
    and wf: "nph_wf (take (unat Len + 9) (drop (cp s - 8) (ibuf s)))"
    and run: "ne_packet T C stale Len s x = Inr (go, s', x')"
  shows "sends_frames w x x'"
proof -
  have l: "unat (Len + 9) = unat Len + 9" using len by (simp add: unat_word_ariths)
  obtain b where b: "bytes_at stale s (cp s) 6 = Inr b"
    using run by (auto simp: ne_packet_def bind_sum_Inr_iff)
  then obtain y where y: "ne_time T (le32 (b ! 0) (b ! 1) (b ! 2) (b ! 3)) (le16 (b ! 4) (b ! 5)) x = Inr y"
    using run by (auto simp: ne_packet_def Let_def bind_sum_Inr_iff)
  note conns = ne_time_conns [OF this]
  have "\<exists>fs. w out' = w out @ concat fs \<and> (\<forall>f \<in> set fs. nph_wf f)"
    if c: "conns x c = Some out" "conns x' c = Some out'" for c out out'
  proof (cases "c = client x \<and> w out' \<noteq> w out")
    case True
    then have "w out' = w out @ concat [take (unat Len + 9) (drop (cp s - 8) (ibuf s))]"
      using run c b y conns l
      by (auto simp: ne_packet_def Let_def tcp_forward_packet_def appends_iwrite [OF C] split: prod.splits if_splits)
    then show ?thesis using wf by (metis list.set(1) list.set(2) singletonD)
  next
    case False
    then have "w out' = w out"
      using run c b y conns by (auto simp: ne_packet_def Let_def split: prod.splits if_splits option.splits)
    then show ?thesis by (intro exI [of _ "[]"]) simp
  qed
  then show ?thesis unfolding sends_frames_def by blast
qed

lemma ne_input_sends:
  assumes D: "consumes D" "searches D" and C: "appends C w"
    and "cp s \<le> nc s" and "nc s < 2 ^ 16" and "served x"
    and "ne_protocol_input D T C stale s x = Some (Inr (s', x'))"
  shows "sends_frames w x x'"
  using assms(4-)
proof (induction "nc s - cp s" arbitrary: s x rule: less_induct)
  case less
  have refl: "sends_frames w x x" by (rule sends_nothing) auto
  show ?case
  proof (cases "cp s < nc s")
    case False
    then show ?thesis
      using less.prems D(1) refl by (auto simp: ne_protocol_input.simps [of D])
  next
    case True
    show ?thesis
    proof (cases rule: ne_pass [OF D True, of T C stale x, case_names stop again packet])
      case (stop s1)
      then show ?thesis using less.prems(4) refl by simp
    next
      case (again s1)
      then have "nc s1 - cp s1 < nc s - cp s" using True by simp
      from less.hyps [OF this again(3) _ less.prems(3)] again(1,4) less.prems(2,4) show ?thesis by simp
    next
      case (packet k Len)
      have len: "unat Len + 9 < 2 ^ 16" using packet(3,4) less.prems(2) by simp
      obtain go s1 x1 where p: "ne_packet T C stale Len (s\<lparr>cp := k\<rparr>) x = Inr (go, s1, x1)"
        using packet(1) less.prems(4) by (auto split: sum.splits)
      then have s1: "same_clients x x1" "s1 = s\<lparr>cp := if go then k + unat Len + 1 else k - 8\<rparr>"
        using ne_packet_any [OF less.prems(3), where s = "s\<lparr>cp := k\<rparr>" and T = T and C = C
            and stale = stale and Len = Len] packet(3) by simp_all
      have x1: "sends_frames w x x1" by (rule ne_packet_sends [OF C _ len _ p]) (use packet in simp_all)
      show ?thesis
      proof (cases go)
        case False
        then show ?thesis using packet(1) p less.prems(4) x1 by simp
      next
        case True
        then have "nc s1 - cp s1 < nc s - cp s" "cp s1 \<le> nc s1" "nc s1 < 2 ^ 16"
          using packet(2,4) s1(2) less.prems(2) by simp_all
        moreover have "served x1" using less.prems(3) same_clientsD(1) [OF s1(1)] by simp
        moreover have "ne_protocol_input D T C stale s1 x1 = Some (Inr (s', x'))"
          using packet(1) p less.prems(4) True by simp
        ultimately have "sends_frames w x1 x'" using less.hyps by blast
        then show ?thesis using sends_frames_trans [OF x1 _ s1(1)] by blast
      qed
    qed
  qed
qed

lemma emu_event_sends:
  assumes L: "emu_lib_ok L" and C: "appends (emu_chan L) w" and inv: "emu_inv L p"
    and en: "emu_enabled L e p" "emu_writes w e p" and run: "emu_handle L e p = Some (Inr p')"
  shows "sends_frames w (NE p) (NE p')"
proof (cases e)
  case (Emu_read bs stale)
  define s where "s = emu_resume L (ne_buf p)"
  define s' where "s' = s\<lparr>ibuf := ibuf s @ bs\<rparr>"
  have "cp s \<le> nc (ne_buf p) + 1" "ibuf s = ibuf (ne_buf p)"
    using emu_resumed [OF L, of "ne_buf p"] inv by (simp_all add: s_def emu_inv_def)
  moreover have "1 \<le> length bs" using en(1) Emu_read by (cases bs) simp_all
  ultimately have "cp s' \<le> nc s'" "nc s' < 2 ^ 16" using en(2) Emu_read by (simp_all add: s'_def NEI_BUFSIZE_def)
  moreover have "served (NE p)" using inv en Emu_read by (simp add: emu_inv_def)
  moreover have "\<exists>b. ne_protocol_input (emu_dasio L) (emu_timer L) (emu_chan L) stale s' (NE p) = Some (Inr (b, NE p'))"
  proof -
    obtain r where "ne_protocol_input (emu_dasio L) (emu_timer L) (emu_chan L) stale s' (NE p) = Some r"
      "map_sum id (\<lambda>(s, x). p\<lparr>NE := x, ne_buf := s\<rparr>) r = Inr p'"
      using run Emu_read by (auto simp: Let_def s_def s'_def)
    then show ?thesis by (cases r) auto
  qed
  ultimately show ?thesis using ne_input_sends [OF _ _ C] L unfolding emu_lib_ok_def by blast
next
  case (Emu_accepted c out)
  then show ?thesis using run en
    by (intro sends_nothing) (auto simp: tcp_new_client_def nephex_tcp_def tcp_connected_def set_client_def Let_def
        split: if_splits)
next
  case (Emu_released c)
  then show ?thesis using run
    by (intro sends_nothing) (auto simp: tcp_destroy_def reset_client_def Let_def split: if_splits)
next
  case (Emu_sent c out)
  then show ?thesis using run en by (intro sends_nothing) (auto split: if_splits)
qed (use run in \<open>auto intro!: sends_nothing simp: ne_protocol_timeout_def\<close>)

section \<open>What the receiver finds in a part of the stream\<close>

lemma nph_scan_cut:
  assumes "nph_wf f" and "k < length f"
  shows "nph_scan (take k f) = ([], take k f)"
proof -
  have "take 2 f = [0xAA, 0xAA]" using assms(1) by (simp add: nph_wf_def)
  then obtain f' where f: "f = 0xAA # 0xAA # f'" by (metis append_Cons append_Nil append_take_drop_id)
  then have d: "take k f = dropWhile (\<lambda>b. b \<noteq> 0xAA) (take k f)" by (cases k) simp_all
  show ?thesis
  proof (cases "k = 0")
    case True
    then show ?thesis by (simp add: nph_scan.simps [of "[]"])
  next
    case False
    have "\<not> (1 < length (take k f) \<and> take k f ! 1 \<noteq> 0xAA)" using f by (simp add: nth_Cons')
    moreover have "length (take k f) < 8 \<or> length (take k f) < frame_size (take k f)"
      using assms by (cases "k < 8") (auto simp: nph_wf_def frame_size_def)
    moreover have "take k f \<noteq> []" using False f by simp
    ultimately show ?thesis using nph_scan_skip(3) [OF d] by blast
  qed
qed

lemma scan_part:
  assumes "u @ v = concat fs" and "\<forall>f \<in> set fs. nph_wf f"
  shows "\<exists>m left. nph_scan u = (take m fs, left) \<and> left @ v = concat (drop m fs) \<and> m \<le> length fs"
  using assms
proof (induction fs arbitrary: u)
  case Nil
  then show ?case by (intro exI [of _ 0] exI [of _ "[]"]) (simp add: nph_scan.simps [of "[]"])
next
  case (Cons f fs)
  have f: "nph_wf f" using Cons.prems(2) by simp
  show ?case
  proof (cases "length f \<le> length u")
    case True
    then have "take (length f) u = f"
      using arg_cong [OF Cons.prems(1), of "take (length f)"] by simp
    then have u: "u = f @ drop (length f) u" by (metis append_take_drop_id)
    then have v: "drop (length f) u @ v = concat fs"
      using Cons.prems(1) by (metis append.assoc concat.simps(2) same_append_eq)
    then obtain m left where m: "nph_scan (drop (length f) u) = (take m fs, left)" "left @ v = concat (drop m fs)"
      "m \<le> length fs"
      using Cons.IH [OF v] Cons.prems(2) by auto
    have "nph_scan u = (f # take m fs, left)"
      using nph_scan_frame [of "[]" f "drop (length f) u"] f u m(1) by simp
    then show ?thesis using m(2,3) by (intro exI [of _ "Suc m"] exI [of _ left]) simp
  next
    case False
    then have u: "u = take (length u) f" using Cons.prems(1) by (auto simp: append_eq_append_conv_if)
    have "nph_scan u = ([], u)" using nph_scan_cut [OF f, of "length u"] False u by simp
    then show ?thesis using Cons.prems(1) by (intro exI [of _ 0] exI [of _ u]) simp
  qed
qed

section \<open>The two programs joined\<close>

text \<open>
  \<open>nl_conn\<close> is the emulator's connection to the receiver and \<open>nl_wire\<close> what is on its way;
  \<open>nl_base\<close> is the number of packets that the receiver had logged when the connection was made.
\<close>

record ('t, 'o, 'q) nph_link =
  nl_emu :: "('t, 'o) emulator"
  nl_rcv :: "'q nephex"
  nl_conn :: "nat option"
  nl_wire :: "byte list"
  nl_base :: nat

record ('t, 'o, 'q) nph_libs =
  nl_L :: "('t, 'o) emu_lib"
  nl_M :: "'q nph_lib"
  nl_w :: "'o \<Rightarrow> byte list"
  nl_w2 :: "'q \<Rightarrow> byte list"

definition on_conn :: "('o \<Rightarrow> byte list) \<Rightarrow> ('t, 'o) emulator \<Rightarrow> nat \<Rightarrow> byte list" where
  "on_conn w p c = (case conns (NE p) c of None \<Rightarrow> [] | Some out \<Rightarrow> w out)"

text \<open>
  \<open>Join c out\<close>: the receiver's connection is accepted by the emulator. \<open>Deliver n\<close>: the receiver reads
  \<open>n\<close> bytes. The rest of the events of either program are its own.
\<close>

datatype ('o, 'q) nl_event = Emulator "'o emu_event" | Join nat 'o | Deliver nat | Receiver "'q nph_event"

definition emulator_does ::
  "('t, 'o, 'q) nph_libs \<Rightarrow> 'o emu_event \<Rightarrow> ('t, 'o, 'q) nph_link \<Rightarrow>
   (fault + ('t, 'o, 'q) nph_link) option" where
  "emulator_does Q e l = map_option (map_sum id (\<lambda>p. l\<lparr>nl_emu := p, nl_wire := (case nl_conn l of
       None \<Rightarrow> nl_wire l
     | Some c \<Rightarrow> nl_wire l @ drop (length (on_conn (nl_w Q) (nl_emu l) c)) (on_conn (nl_w Q) p c))\<rparr>))
     (emu_handle (nl_L Q) e (nl_emu l))"

definition receiver_does ::
  "('t, 'o, 'q) nph_libs \<Rightarrow> 'q nph_event \<Rightarrow> ('t, 'o, 'q) nph_link \<Rightarrow>
   (fault + ('t, 'o, 'q) nph_link) option" where
  "receiver_does Q e l = map_option (map_sum id (\<lambda>p. l\<lparr>nl_rcv := p\<rparr>)) (nph_handle (nl_M Q) e (nl_rcv l))"

fun nl_handle ::
  "('t, 'o, 'q) nph_libs \<Rightarrow> ('o, 'q) nl_event \<Rightarrow> ('t, 'o, 'q) nph_link \<Rightarrow>
   (fault + ('t, 'o, 'q) nph_link) option" where
  "nl_handle Q (Emulator e) l = emulator_does Q e
     (case e of Emu_released c \<Rightarrow> if nl_conn l = Some c then l\<lparr>nl_conn := None\<rparr> else l | _ \<Rightarrow> l)"
| "nl_handle Q (Join c out) l =
     (case emulator_does Q (Emu_accepted c out) l of
        Some (Inr l') \<Rightarrow> receiver_does Q Nph_connected
          (l'\<lparr>nl_conn := Some c, nl_wire := [], nl_base := length (nlogged (NTCP (nl_rcv l)))\<rparr>)
      | r \<Rightarrow> r)"
| "nl_handle Q (Deliver n) l =
     receiver_does Q (Nph_read (take n (nl_wire l))) (l\<lparr>nl_wire := drop n (nl_wire l)\<rparr>)"
| "nl_handle Q (Receiver e) l = receiver_does Q e
     (if e \<in> {Nph_timeout, Nph_eof} then l\<lparr>nl_conn := None, nl_wire := []\<rparr> else l)"

text \<open>A new connection finds the receiver's buffer empty.\<close>

fun nl_enabled ::
  "('t, 'o, 'q) nph_libs \<Rightarrow> ('o, 'q) nl_event \<Rightarrow> ('t, 'o, 'q) nph_link \<Rightarrow> bool" where
  "nl_enabled Q (Emulator e) l \<longleftrightarrow> emu_enabled (nl_L Q) e (nl_emu l) \<and> emu_writes (nl_w Q) e (nl_emu l)"
| "nl_enabled Q (Join c out) l \<longleftrightarrow> nl_conn l = None \<and> ibuf (ntcp_buf (nl_rcv l)) = []
     \<and> emu_enabled (nl_L Q) (Emu_accepted c out) (nl_emu l) \<and> nl_w Q out = []"
| "nl_enabled Q (Deliver n) l \<longleftrightarrow> 0 < n \<and> n \<le> length (nl_wire l)
     \<and> nph_enabled (nl_w2 Q) (Nph_read (take n (nl_wire l))) (nl_rcv l)"
| "nl_enabled Q (Receiver e) l \<longleftrightarrow> nph_enabled (nl_w2 Q) e (nl_rcv l)
     \<and> (case e of Nph_read bs \<Rightarrow> False | Nph_connected \<Rightarrow> False | _ \<Rightarrow> True)"

abbreviation nl_run ::
  "('t, 'o, 'q) nph_libs \<Rightarrow> ('t, 'o, 'q) nph_link \<Rightarrow> ('o, 'q) nl_event list \<Rightarrow>
   ('t, 'o, 'q) nph_link \<Rightarrow> bool" where
  "nl_run Q \<equiv> runs (nl_enabled Q) (nl_handle Q)"

definition nl_main ::
  "('t, 'o, 'q) nph_libs \<Rightarrow> ('t, 'o) emulator \<Rightarrow> 'q nephex \<Rightarrow> ('t, 'o, 'q) nph_link" where
  "nl_main Q p q = \<lparr>nl_emu = p, nl_rcv = q, nl_conn = None, nl_wire = [], nl_base = 0\<rparr>"

section \<open>The invariant\<close>

text \<open>
  While the connection lasts: the frames sent are those logged since it was made, and then those in the
  receiver's buffer and on the wire.
\<close>

definition in_transit :: "('t, 'o, 'q) nph_libs \<Rightarrow> ('t, 'o, 'q) nph_link \<Rightarrow> nat \<Rightarrow> bool" where
  "in_transit Q l c \<longleftrightarrow> (\<exists>out sent m. conns (NE (nl_emu l)) c = Some out \<and> nl_w Q out = concat sent
     \<and> (\<forall>f \<in> set sent. nph_wf f) \<and> m \<le> length sent
     \<and> nl_base l \<le> length (nlogged (NTCP (nl_rcv l)))
     \<and> drop (nl_base l) (nlogged (NTCP (nl_rcv l))) = take m sent
     \<and> drop (cp (ntcp_buf (nl_rcv l))) (ibuf (ntcp_buf (nl_rcv l))) @ nl_wire l = concat (drop m sent))"

definition nl_inv :: "('t, 'o, 'q) nph_libs \<Rightarrow> byte list \<Rightarrow> ('t, 'o, 'q) nph_link \<Rightarrow> bool" where
  "nl_inv Q before l \<longleftrightarrow> emu_inv (nl_L Q) (nl_emu l) \<and> nph_sys_inv (nl_M Q) (nl_w2 Q) before (nl_rcv l)
     \<and> (\<forall>c. nl_conn l = Some c \<longrightarrow> in_transit Q l c)"

definition nl_libs_ok :: "('t, 'o, 'q) nph_libs \<Rightarrow> bool" where
  "nl_libs_ok Q \<longleftrightarrow> emu_lib_ok (nl_L Q) \<and> nph_lib_ok (nl_M Q) (nl_w2 Q) \<and> appends (emu_chan (nl_L Q)) (nl_w Q)"

text \<open>
  The faults: those of the emulator, and a packet outside the receiver's table. The one hang: a
  packet from \<open>tm_ip_export\<close> to the receiver's exporter that is not a control packet.
\<close>

definition nl_may_fault :: "('o, 'q) nl_event \<Rightarrow> ('t, 'o, 'q) nph_link \<Rightarrow> fault \<Rightarrow> bool" where
  "nl_may_fault e l f \<longleftrightarrow> (\<exists>e1. e = Emulator e1 \<and> emu_may_fault e1 (nl_emu l) f)
     \<or> (f = Out_of_bounds \<and> (\<exists>n. e = Deliver n
          \<and> (\<exists>d \<in> set (completes (take n (nl_wire l)) (nl_rcv l)). off_table d)))"

definition nl_hangs ::
  "('t, 'o, 'q) nph_libs \<Rightarrow> ('o, 'q) nl_event \<Rightarrow> ('t, 'o, 'q) nph_link \<Rightarrow> bool" where
  "nl_hangs Q e l \<longleftrightarrow> (\<exists>e1. e = Receiver e1 \<and> nph_hangs (nl_M Q) e1 (nl_rcv l))"

lemma emu_keeps_conn:
  assumes L: "emu_lib_ok L" and inv: "emu_inv L p" and en: "emu_enabled L e p"
    and run: "emu_handle L e p = Some (Inr p')" and c: "conns (NE p) c \<noteq> None" "e \<noteq> Emu_released c"
  shows "conns (NE p') c \<noteq> None"
proof (cases e)
  case (Emu_read bs stale)
  define s where "s = emu_resume L (ne_buf p)"
  have "cp s \<le> nc (ne_buf p) + 1" "ibuf s = ibuf (ne_buf p)"
    using emu_resumed [OF L, of "ne_buf p"] inv by (simp_all add: s_def emu_inv_def)
  moreover have "1 \<le> length bs" using en Emu_read by (cases bs) simp_all
  ultimately have "cp (s\<lparr>ibuf := ibuf s @ bs\<rparr>) \<le> nc (s\<lparr>ibuf := ibuf s @ bs\<rparr>)" by simp
  moreover have "served (NE p)" using inv en Emu_read by (simp add: emu_inv_def)
  ultimately obtain r where "ne_protocol_input (emu_dasio L) (emu_timer L) (emu_chan L) stale
      (s\<lparr>ibuf := ibuf s @ bs\<rparr>) (NE p) = Some r" "case r of Inl e \<Rightarrow> e = Assert_failed \<or> e = Out_of_bounds \<and> short_at_end (ibuf (s\<lparr>ibuf := ibuf s @ bs\<rparr>))
       | Inr (s', x') \<Rightarrow> same_clients (NE p) x' \<and> cp s' \<le> nc s' + 1"
    using ne_input_returns [of "emu_dasio L"] L unfolding emu_lib_ok_def by blast
  then show ?thesis
    using run c(1) Emu_read by (cases r) (auto simp: s_def Let_def same_clients_def, metis not_None_eq)
next
  case (Emu_accepted c' out)
  then show ?thesis using run c
    by (auto simp: tcp_new_client_def nephex_tcp_def tcp_connected_def set_client_def Let_def split: if_splits)
next
  case (Emu_released c')
  then show ?thesis using run c by (auto simp: tcp_destroy_def reset_client_def Let_def split: if_splits)
next
  case (Emu_sent c' out)
  then show ?thesis using run c by (auto split: if_splits)
qed (use run c in \<open>auto simp: ne_protocol_timeout_def\<close>)

lemma emu_accepts:
  "emu_handle L (Emu_accepted c out) p = Some (Inr p') \<Longrightarrow> conns (NE p') c = Some out"
  by (auto simp: tcp_new_client_def nephex_tcp_def tcp_connected_def set_client_def Let_def split: if_splits)

lemma emulator_keeps:
  assumes Q: "nl_libs_ok Q" and inv: "nl_inv Q before l"
    and en: "emu_enabled (nl_L Q) e (nl_emu l)" "emu_writes (nl_w Q) e (nl_emu l)"
    and rel: "\<And>c. e = Emu_released c \<Longrightarrow> nl_conn l \<noteq> Some c"
  shows "returns (emulator_does Q e l) (emu_may_fault e (nl_emu l))
     (\<lambda>l'. nl_inv Q before l' \<and> nl_rcv l' = nl_rcv l \<and> nl_conn l' = nl_conn l
        \<and> (\<forall>c out. e = Emu_accepted c out \<longrightarrow> conns (NE (nl_emu l')) c = Some out))"
proof -
  have L: "emu_lib_ok (nl_L Q)" "appends (emu_chan (nl_L Q)) (nl_w Q)" "emu_inv (nl_L Q) (nl_emu l)"
    using Q inv by (simp_all add: nl_libs_ok_def nl_inv_def)
  obtain r where r: "emu_handle (nl_L Q) e (nl_emu l) = Some r"
    "case r of Inl f \<Rightarrow> emu_may_fault e (nl_emu l) f | Inr p' \<Rightarrow> emu_inv (nl_L Q) p'"
    using emu_step_inv [OF L(1,3) en(1)] by blast
  show ?thesis
  proof (cases r)
    case (Inl f)
    then show ?thesis using r by (simp add: emulator_does_def returns_iff)
  next
    case (Inr p)
    then have p: "emu_handle (nl_L Q) e (nl_emu l) = Some (Inr p)" "emu_inv (nl_L Q) p" using r by simp_all
    define l' where "l' = l\<lparr>nl_emu := p, nl_wire := (case nl_conn l of None \<Rightarrow> nl_wire l
      | Some c \<Rightarrow> nl_wire l @ drop (length (on_conn (nl_w Q) (nl_emu l) c)) (on_conn (nl_w Q) p c))\<rparr>"
    have run: "emulator_does Q e l = Some (Inr l')" by (simp add: emulator_does_def p(1) l'_def)
    have "in_transit Q l' c" if c: "nl_conn l = Some c" for c
    proof -
      obtain out sent m where t: "conns (NE (nl_emu l)) c = Some out" "nl_w Q out = concat sent"
        "\<forall>f \<in> set sent. nph_wf f" "m \<le> length sent"
        "nl_base l \<le> length (nlogged (NTCP (nl_rcv l)))"
        "drop (nl_base l) (nlogged (NTCP (nl_rcv l))) = take m sent"
        "drop (cp (ntcp_buf (nl_rcv l))) (ibuf (ntcp_buf (nl_rcv l))) @ nl_wire l = concat (drop m sent)"
        using inv c unfolding nl_inv_def in_transit_def by blast
      obtain out' where out': "conns (NE p) c = Some out'"
        using emu_keeps_conn [OF L(1,3) en(1) p(1), of c] t(1) rel c by auto
      obtain fs where fs: "nl_w Q out' = nl_w Q out @ concat fs" "\<forall>f \<in> set fs. nph_wf f"
        using emu_event_sends [OF L en p(1)] t(1) out' unfolding sends_frames_def by blast
      have "nl_wire l' = nl_wire l @ concat fs" by (simp add: l'_def c on_conn_def t(1) out' fs(1))
      then have "drop (cp (ntcp_buf (nl_rcv l))) (ibuf (ntcp_buf (nl_rcv l))) @ nl_wire l'
          = concat (drop m (sent @ fs))"
        using t(4,7) by simp
      then show ?thesis unfolding in_transit_def
        using out' fs t(2-6) by (intro exI [of _ out'] exI [of _ "sent @ fs"] exI [of _ m]) (auto simp: l'_def)
    qed
    then have "nl_inv Q before l'" using inv p(2) by (simp add: nl_inv_def l'_def)
    then show ?thesis using emu_accepts p(1) by (auto simp: run returns_iff l'_def)
  qed
qed

lemma deliver_keeps:
  assumes Q: "nl_libs_ok Q" and inv: "nl_inv Q before l" and en: "nl_enabled Q (Deliver n) l"
  shows "returns (nl_handle Q (Deliver n) l) (nl_may_fault (Deliver n) l) (nl_inv Q before)"
proof -
  let ?bs = "take n (nl_wire l)"
  have M: "nph_lib_ok (nl_M Q) (nl_w2 Q)" "nph_sys_inv (nl_M Q) (nl_w2 Q) before (nl_rcv l)"
    "nph_enabled (nl_w2 Q) (Nph_read ?bs) (nl_rcv l)"
    using Q inv en by (simp_all add: nl_libs_ok_def nl_inv_def del: nph_enabled.simps)
  show ?thesis
  proof (cases "\<exists>d \<in> set (completes ?bs (nl_rcv l)). off_table d")
    case True
    then show ?thesis using nph_read_ok [OF M]
      by (auto simp: receiver_does_def returns_iff nl_may_fault_def simp del: nph_handle.simps)
  next
    case False
    then obtain p where p: "nph_handle (nl_M Q) (Nph_read ?bs) (nl_rcv l) = Some (Inr p)"
      "nph_sys_inv (nl_M Q) (nl_w2 Q) before p"
      "nlogged (NTCP p) = nlogged (NTCP (nl_rcv l)) @ completes ?bs (nl_rcv l)"
      "ntcp_buf p = \<lparr>ibuf = snd (nph_scan (drop (cp (ntcp_buf (nl_rcv l))) (ibuf (ntcp_buf (nl_rcv l))) @ ?bs)), cp = 0\<rparr>"
      using nph_read_ok [OF M] by auto
    define l' where "l' = l\<lparr>nl_wire := drop n (nl_wire l), nl_rcv := p\<rparr>"
    have "in_transit Q l' c" if c: "nl_conn l = Some c" for c
    proof -
      obtain out sent m where t: "conns (NE (nl_emu l)) c = Some out" "nl_w Q out = concat sent"
        "\<forall>f \<in> set sent. nph_wf f" "m \<le> length sent"
        "nl_base l \<le> length (nlogged (NTCP (nl_rcv l)))"
        "drop (nl_base l) (nlogged (NTCP (nl_rcv l))) = take m sent"
        "drop (cp (ntcp_buf (nl_rcv l))) (ibuf (ntcp_buf (nl_rcv l))) @ nl_wire l = concat (drop m sent)"
        using inv c unfolding nl_inv_def in_transit_def by blast
      let ?u = "drop (cp (ntcp_buf (nl_rcv l))) (ibuf (ntcp_buf (nl_rcv l))) @ ?bs"
      have "?u @ drop n (nl_wire l) = concat (drop m sent)" "\<forall>f \<in> set (drop m sent). nph_wf f"
        using t(3,7) by (auto dest: in_set_dropD)
      then obtain k left where k: "nph_scan ?u = (take k (drop m sent), left)"
        "left @ drop n (nl_wire l) = concat (drop k (drop m sent))" "k \<le> length (drop m sent)"
        using scan_part by blast
      have "drop (nl_base l) (nlogged (NTCP p)) = take (m + k) sent"
        using t(5,6) k(1) by (simp add: p(3) completes_def take_add)
      moreover have "m + k \<le> length sent" using k(3) t(4) by simp
      ultimately show ?thesis unfolding in_transit_def
        using t(1-3,5) k by (intro exI [of _ out] exI [of _ sent] exI [of _ "m + k"])
          (simp add: l'_def p(3,4) add.commute)
    qed
    then have "nl_inv Q before l'" using inv p(2) by (simp add: nl_inv_def l'_def)
    then show ?thesis by (simp add: receiver_does_def p(1) returns_iff l'_def del: nph_handle.simps)
  qed
qed

lemma nph_quiet:
  assumes "nph_handle M e p = Some (Inr p')"
    and "case e of Nph_read bs \<Rightarrow> False | Nph_timeout \<Rightarrow> False | Nph_eof \<Rightarrow> False | _ \<Rightarrow> True"
  shows "ntcp_buf p' = ntcp_buf p \<and> nlogged (NTCP p') = nlogged (NTCP p)"
proof (cases e)
  case (Nph_replied bs)
  obtain r where "nte_app_input (nph_dasio M) (nph_serio M) ((ntexp_buf p)\<lparr>ibuf := ibuf (ntexp_buf p) @ bs\<rparr>) (NTEXP p)
      = Some r" "map_sum id (\<lambda>(s, x). p\<lparr>ntexp_buf := s, NTEXP := x\<rparr>) r = Inr p'"
    using assms(1) Nph_replied by auto
  then show ?thesis by (cases r) auto
qed (use assms in \<open>auto simp: nph_connected_def\<close>)

lemma receiver_keeps:
  assumes Q: "nl_libs_ok Q" and inv: "nl_inv Q before l" and en: "nl_enabled Q (Receiver e) l"
    and hang: "nph_hangs (nl_M Q) e (nl_rcv l) \<Longrightarrow> nph_handle (nl_M Q) e (nl_rcv l) \<noteq> None"
  shows "\<exists>l'. nl_handle Q (Receiver e) l = Some (Inr l') \<and> nl_inv Q before l'"
proof -
  have M: "nph_lib_ok (nl_M Q) (nl_w2 Q)" "nph_sys_inv (nl_M Q) (nl_w2 Q) before (nl_rcv l)"
    "nph_enabled (nl_w2 Q) e (nl_rcv l)" "\<And>bs. e \<noteq> Nph_read bs"
    using Q inv en by (auto simp: nl_libs_ok_def nl_inv_def simp del: nph_enabled.simps)
  obtain p where p: "nph_handle (nl_M Q) e (nl_rcv l) = Some (Inr p)"
    "nph_sys_inv (nl_M Q) (nl_w2 Q) before p"
    using nph_event_ok [OF M(1-3)] M(4) hang by blast
  show ?thesis
  proof (cases "e \<in> {Nph_timeout, Nph_eof}")
    case True
    then show ?thesis using inv p by (simp add: receiver_does_def nl_inv_def del: nph_handle.simps)
  next
    case False
    then have "ntcp_buf p = ntcp_buf (nl_rcv l)" "nlogged (NTCP p) = nlogged (NTCP (nl_rcv l))"
      using nph_quiet [OF p(1)] M(4) by (cases e; simp)+
    then show ?thesis using False inv p
      by (simp add: receiver_does_def nl_inv_def in_transit_def del: nph_handle.simps)
  qed
qed

lemma join_keeps:
  assumes Q: "nl_libs_ok Q" and inv: "nl_inv Q before l" and en: "nl_enabled Q (Join c out) l"
  shows "\<exists>l'. nl_handle Q (Join c out) l = Some (Inr l') \<and> nl_inv Q before l'"
proof -
  have none: "nl_conn l = None" "ibuf (ntcp_buf (nl_rcv l)) = []" "nl_w Q out = []"
    and e: "emu_enabled (nl_L Q) (Emu_accepted c out) (nl_emu l)" using en by simp_all
  obtain l1 where l1: "emulator_does Q (Emu_accepted c out) l = Some (Inr l1)" "nl_inv Q before l1"
    "nl_rcv l1 = nl_rcv l" "conns (NE (nl_emu l1)) c = Some out"
    using emulator_keeps [OF Q inv e] none(3) by (auto simp: returns_iff emu_may_fault_def)
  define l2 where "l2 = l1\<lparr>nl_conn := Some c, nl_wire := [], nl_base := length (nlogged (NTCP (nl_rcv l)))\<rparr>"
  obtain p where p: "nph_handle (nl_M Q) Nph_connected (nl_rcv l) = Some (Inr p)"
    "nph_sys_inv (nl_M Q) (nl_w2 Q) before p"
    using nph_event_ok [of "nl_M Q" "nl_w2 Q" before "nl_rcv l" Nph_connected] Q inv
    by (auto simp: nl_libs_ok_def nl_inv_def nph_hangs_def)
  have same: "ntcp_buf p = ntcp_buf (nl_rcv l)" "nlogged (NTCP p) = nlogged (NTCP (nl_rcv l))"
    using nph_quiet [OF p(1)] by simp_all
  have "in_transit Q (l2\<lparr>nl_rcv := p\<rparr>) c" unfolding in_transit_def
    using l1(4) none same by (intro exI [of _ out] exI [of _ "[]"] exI [of _ 0]) (simp add: l2_def)
  then have "nl_inv Q before (l2\<lparr>nl_rcv := p\<rparr>)" using l1(2) p(2) by (simp add: nl_inv_def l2_def)
  moreover have "nl_handle Q (Join c out) l = Some (Inr (l2\<lparr>nl_rcv := p\<rparr>))"
    using p(1) by (simp add: l1(1) receiver_does_def l2_def l1(3) del: nph_handle.simps)
  ultimately show ?thesis by blast
qed

lemma nl_step:
  assumes Q: "nl_libs_ok Q" and inv: "nl_inv Q before l" and en: "nl_enabled Q e l"
  shows "outcome (nl_hangs Q e l) (nl_handle Q e l) (nl_may_fault e l) (nl_inv Q before)"
proof (cases e)
  case (Emulator e1)
  define l0 where "l0 = (case e1 of Emu_released c \<Rightarrow> if nl_conn l = Some c then l\<lparr>nl_conn := None\<rparr> else l | _ \<Rightarrow> l)"
  have "nl_inv Q before l0" "nl_emu l0 = nl_emu l" "\<And>c. e1 = Emu_released c \<Longrightarrow> nl_conn l0 \<noteq> Some c"
    using inv by (auto simp: l0_def nl_inv_def split: emu_event.splits)
  then have "returns (emulator_does Q e1 l0) (emu_may_fault e1 (nl_emu l0))
     (\<lambda>l'. nl_inv Q before l' \<and> nl_rcv l' = nl_rcv l0 \<and> nl_conn l' = nl_conn l0
        \<and> (\<forall>c out. e1 = Emu_accepted c out \<longrightarrow> conns (NE (nl_emu l')) c = Some out))"
    using en Emulator by (intro emulator_keeps [OF Q]) simp_all
  then show ?thesis
    using \<open>nl_emu l0 = nl_emu l\<close>
    by (auto simp: Emulator l0_def [symmetric] outcome_def returns_iff nl_may_fault_def)
next
  case (Join c out)
  then show ?thesis using join_keeps [OF Q inv, of c out] en by (auto simp: outcome_def returns_iff simp del: nl_handle.simps)
next
  case (Deliver n)
  then show ?thesis using deliver_keeps [OF Q inv, of n] en by (auto simp: outcome_def simp del: nl_handle.simps)
next
  case (Receiver e1)
  have "nl_handle Q e l = None" if "nph_handle (nl_M Q) e1 (nl_rcv l) = None"
    using that by (simp add: Receiver receiver_does_def)
  then show ?thesis
    using receiver_keeps [OF Q inv, of e1] en Receiver
    by (cases "nph_handle (nl_M Q) e1 (nl_rcv l) = None")
      (auto simp: outcome_def returns_iff nl_hangs_def simp del: nl_handle.simps nph_handle.simps)
qed

lemma nl_hangs_None:
  assumes "nl_libs_ok Q" and "nl_inv Q before l" and "finds_again (nph_serio (nl_M Q))" and "nl_hangs Q e l"
  shows "nl_handle Q e l = None"
  using nph_hangs_None [of "nl_M Q" "nl_w2 Q" before "nl_rcv l"] assms
  by (auto simp: nl_hangs_def nl_libs_ok_def nl_inv_def receiver_does_def simp del: nph_handle.simps)

interpretation nl_loop: loop_invariant "nl_enabled Q" "nl_handle Q"
    "\<lambda>l. nl_libs_ok Q \<and> nl_inv Q before l" "nl_hangs Q" nl_may_fault
  for Q :: "('t, 'o, 'q) nph_libs" and before
proof
  fix l :: "('t, 'o, 'q) nph_link" and e
  assume "nl_libs_ok Q \<and> nl_inv Q before l" "nl_enabled Q e l"
  then show "outcome (nl_hangs Q e l) (nl_handle Q e l) (nl_may_fault e l) (\<lambda>l. nl_libs_ok Q \<and> nl_inv Q before l)"
    using nl_step [of Q before l e] by (auto simp: outcome_def returns_iff)
qed

section \<open>Properties\<close>

text \<open>
  C8: The emulator and the nephelometer program together, from both \<open>main\<close>s on, in any interleaving:
  reads of the recording and of the connection cut anywhere, other clients of the emulator, timeouts,
  acknowledges and credit. While their connection lasts, the emulator has sent whole packets, and
  the receiver has logged, since the connection was made, the first of them, each once, whole and in
  order; the bytes of the others are in its buffer or on their way. So when nothing is on its way, all
  have been logged. The next event is handled, with the exceptions that each program has alone: the
  emulator's assertion on the recorded milliseconds and its read behind its buffer, a packet
  outside the receiver's table, and the endless loop of the receiver's exporter on a packet from
  \<open>tm_ip_export\<close> that is not a control packet (if the recogniser presents it again).
\<close>

theorem packets_cross_the_link:
  assumes "nl_libs_ok Q" and "length mem = MAX_APID + 1" and "nephex_main mem flags0 out0 = Inr q"
    and "nl_run Q (nl_main Q (emulator_main (nl_L Q) secs0 msecs0 client0 to flags1) q) es l"
  shows "(nl_enabled Q e l \<longrightarrow>
      (if nl_hangs Q e l
       then (\<forall>f. nl_handle Q e l = Some (Inl f) \<longrightarrow> nl_may_fault e l f)
         \<and> (finds_again (nph_serio (nl_M Q)) \<longrightarrow> nl_handle Q e l = None)
       else \<exists>r. nl_handle Q e l = Some r \<and> (\<forall>f. r = Inl f \<longrightarrow> nl_may_fault e l f)))
    \<and> (\<forall>c. nl_conn l = Some c \<longrightarrow> (\<exists>out sent m.
          conns (NE (nl_emu l)) c = Some out \<and> nl_w Q out = concat sent \<and> (\<forall>f \<in> set sent. nph_wf f)
        \<and> drop (nl_base l) (nlogged (NTCP (nl_rcv l))) = take m sent
        \<and> drop (cp (ntcp_buf (nl_rcv l))) (ibuf (ntcp_buf (nl_rcv l))) @ nl_wire l = concat (drop m sent)
        \<and> (nl_wire l = [] \<and> ibuf (ntcp_buf (nl_rcv l)) = [] \<longrightarrow>
             drop (nl_base l) (nlogged (NTCP (nl_rcv l))) = sent)))"
proof -
  have "nph_sys_inv (nl_M Q) (nl_w2 Q) (nl_w2 Q out0) q"
    using nph_start [OF assms(2), of flags0 out0 "nl_M Q" "nl_w2 Q"] assms(3) by (metis sum.inject(2))
  then have "nl_inv Q (nl_w2 Q out0) (nl_main Q (emulator_main (nl_L Q) secs0 msecs0 client0 to flags1) q)"
    by (simp add: nl_inv_def nl_main_def emu_main_inv)
  then have inv: "nl_libs_ok Q \<and> nl_inv Q (nl_w2 Q out0) l"
    using nl_loop.run_inv [OF assms(4)] assms(1) by blast
  have "nl_enabled Q e l \<longrightarrow>
      (if nl_hangs Q e l
       then (\<forall>f. nl_handle Q e l = Some (Inl f) \<longrightarrow> nl_may_fault e l f)
         \<and> (finds_again (nph_serio (nl_M Q)) \<longrightarrow> nl_handle Q e l = None)
       else \<exists>r. nl_handle Q e l = Some r \<and> (\<forall>f. r = Inl f \<longrightarrow> nl_may_fault e l f))"
    using nl_step [of Q "nl_w2 Q out0" l e] nl_hangs_None [of Q "nl_w2 Q out0" l e] inv
    by (auto simp: outcome_def returns_iff)
  moreover have "\<exists>out sent m. conns (NE (nl_emu l)) c = Some out \<and> nl_w Q out = concat sent \<and> (\<forall>f \<in> set sent. nph_wf f)
        \<and> drop (nl_base l) (nlogged (NTCP (nl_rcv l))) = take m sent
        \<and> drop (cp (ntcp_buf (nl_rcv l))) (ibuf (ntcp_buf (nl_rcv l))) @ nl_wire l = concat (drop m sent)
        \<and> (nl_wire l = [] \<and> ibuf (ntcp_buf (nl_rcv l)) = [] \<longrightarrow>
             drop (nl_base l) (nlogged (NTCP (nl_rcv l))) = sent)" if c: "nl_conn l = Some c" for c
  proof -
    obtain out sent m where t: "conns (NE (nl_emu l)) c = Some out" "nl_w Q out = concat sent"
      "\<forall>f \<in> set sent. nph_wf f" "m \<le> length sent" "drop (nl_base l) (nlogged (NTCP (nl_rcv l))) = take m sent"
      "drop (cp (ntcp_buf (nl_rcv l))) (ibuf (ntcp_buf (nl_rcv l))) @ nl_wire l = concat (drop m sent)"
      using inv c unfolding nl_inv_def in_transit_def by blast
    have "take m sent = sent" if "nl_wire l = []" "ibuf (ntcp_buf (nl_rcv l)) = []"
    proof -
      have "concat (drop m sent) = []" using t(6) that by simp
      then have "\<forall>f \<in> set (drop m sent). f = []" by simp
      moreover have "\<not> nph_wf []" by (simp add: nph_wf_def)
      then have "\<forall>f \<in> set (drop m sent). f \<noteq> []" using t(3) in_set_dropD [of "[]" m sent] by auto
      ultimately have "drop m sent = []" by (cases "drop m sent") auto
      then show ?thesis by simp
    qed
    then show ?thesis using t(1-3,5,6) by (intro exI [of _ out] exI [of _ sent] exI [of _ m]) simp
  qed
  ultimately show ?thesis by blast
qed

section \<open>Witnesses\<close>

definition plain_nl :: "(nat option, byte list, byte list) nph_libs" where
  "plain_nl = \<lparr>nl_L = plain_emu_lib, nl_M = plain_nph_lib, nl_w = (\<lambda>out. out), nl_w2 = (\<lambda>out. out)\<rparr>"

lemma plain_nl_ok: "nl_libs_ok plain_nl"
  using plain_emu_lib_ok plain_nph_lib_ok by (simp add: nl_libs_ok_def plain_nl_def plain_emu_lib_def)

text \<open>
  The receiver connects, the emulator reads one packet and a part of another, and what it sends is
  read by the receiver.
\<close>

definition one_packet :: "(byte list, byte list) nl_event list" where
  "one_packet = [Join 1 [], Emulator (Emu_read (recorded_1 @ take 5 recorded_2) (\<lambda>_. 0)), Deliver 15]"

lemma sends_one:
  assumes q: "nephex_main some_table 0 [] = Inr q"
  obtains l where "nl_run plain_nl (nl_main plain_nl (emulator_main plain_emu_lib 0 0 0 None 0) q)
      [Join 1 [], Emulator (Emu_read (recorded_1 @ take 5 recorded_2) (\<lambda>_. 0))] l"
    "nl_conn l = Some 1" "nl_wire l = recorded_1"
    "nl_rcv l = q\<lparr>NTCP := nph_connected 4 (NTCP q)\<rparr>"
proof -
  let ?l0 = "nl_main plain_nl (emulator_main plain_emu_lib 0 0 0 None 0) q"
  have q0: "ntcp_buf q = \<lparr>ibuf = [], cp = 0\<rparr>" "nlogged (NTCP q) = []"
    using q by (auto simp: nephex_main_def nephex_tcp_rcvr_def bind_sum_Inr_iff)
  obtain l1 where l1: "nl_handle plain_nl (Join 1 []) ?l0 = Some (Inr l1)" "nl_enabled plain_nl (Join 1 []) ?l0"
    "nl_conn l1 = Some 1" "nl_wire l1 = []" "nl_rcv l1 = q\<lparr>NTCP := nph_connected 4 (NTCP q)\<rparr>"
    "ne_buf (nl_emu l1) = \<lparr>ibuf = [], cp = 0\<rparr>" "neflags (NE (nl_emu l1)) = 1"
    "client (NE (nl_emu l1)) = 1" "conns (NE (nl_emu l1)) 1 = Some []" "ms_ok plain_timer (NE (nl_emu l1))"
    using q0 by (auto simp: emulator_does_def receiver_does_def nl_main_def emulator_main_def NE_ingest_def
        plain_nl_def plain_emu_lib_def plain_nph_lib_def tcp_new_client_def nephex_tcp_def tcp_connected_def
        set_client_def ms_ok_def plain_timer_def Let_def)
  have run1: "nl_run plain_nl ?l0 [Join 1 []] l1" by (rule runs_one) (rule l1(2), rule l1(1))
  have p: "\<forall>p \<in> set [recorded_1]. emu_wf p" "emu_wf recorded_2" "0 < (5::nat)" "5 < length recorded_2"
    using recorded_wf by (simp_all add: recorded_2_def)
  have c: "client (NE (nl_emu l1)) \<noteq> 0" "conns (NE (nl_emu l1)) (client (NE (nl_emu l1))) = Some []"
    using l1(8,9) by simp_all
  obtain x out k where x: "ne_protocol_input plain_dasio plain_timer open_chan (\<lambda>_. 0)
      \<lparr>ibuf = concat [recorded_1] @ take 5 recorded_2, cp = 0\<rparr> (NE (nl_emu l1))
      = Some (Inr (\<lparr>ibuf = concat [recorded_1] @ take 5 recorded_2, cp = length (concat [recorded_1]) + k\<rparr>, x))"
    "conns x (client (NE (nl_emu l1))) = Some out" "out = [] @ concat [recorded_1]"
    by (rule ne_cut [OF plain_dasio_ok(1,3) plain_keeps_time plain_ready open_chan_appends p l1(10) c])
  let ?e = "Emulator (Emu_read (recorded_1 @ take 5 recorded_2) (\<lambda>_. 0)) :: (byte list, byte list) nl_event"
  have en: "nl_enabled plain_nl ?e l1"
    using l1(6,7) by (simp add: plain_nl_def plain_emu_lib_def NEI_BUFSIZE_def recorded_1_def recorded_2_def)
  obtain l2 where l2: "nl_handle plain_nl ?e l1 = Some (Inr l2)" "nl_conn l2 = Some 1" "nl_wire l2 = recorded_1"
    "nl_rcv l2 = nl_rcv l1"
    using x l1(3-9) by (auto simp: emulator_does_def on_conn_def plain_nl_def plain_emu_lib_def Let_def)
  have "nl_run plain_nl ?l0 ([Join 1 []] @ [?e]) l2" by (rule runs.go [where q = l1]) (rule run1, rule en, rule l2(1))
  then show thesis using that [of l2] l2 l1(5) by simp
qed

theorem packets_cross_the_link_witness:
  "\<exists>q l. nephex_main some_table 0 [] = Inr q
    \<and> nl_run plain_nl (nl_main plain_nl (emulator_main plain_emu_lib 0 0 0 None 0) q) one_packet l
    \<and> nlogged (NTCP (nl_rcv l)) = [recorded_1]"
proof -
  have len: "length some_table = MAX_APID + 1" by (simp add: some_table_def MAX_APID_def)
  obtain q where q: "nephex_main some_table 0 [] = Inr q" "nph_sys_inv plain_nph_lib (\<lambda>out. out) [] q"
    "nlogged (NTCP q) = []"
    using nph_start [OF len, of 0 "[]" plain_nph_lib "\<lambda>out. out"] by metis
  have buf: "ntcp_buf q = \<lparr>ibuf = [], cp = 0\<rparr>" using q(1) by (auto simp: nephex_main_def bind_sum_Inr_iff)
  obtain l2 where l2: "nl_run plain_nl (nl_main plain_nl (emulator_main plain_emu_lib 0 0 0 None 0) q)
      [Join 1 [], Emulator (Emu_read (recorded_1 @ take 5 recorded_2) (\<lambda>_. 0))] l2"
    "nl_conn l2 = Some 1" "nl_wire l2 = recorded_1" "nl_rcv l2 = q\<lparr>NTCP := nph_connected 4 (NTCP q)\<rparr>"
    by (rule sends_one [OF q(1)])
  let ?e = "Deliver 15 :: (byte list, byte list) nl_event"
  have r: "emu_wf recorded_1" "apid_of recorded_1 \<le> MAX_APID" "length recorded_1 = 15"
    using recorded_wf by (simp_all add: recorded_1_def)
  then have "nph_scan recorded_1 = ([recorded_1], [])"
    using nph_scan_frame [of "[]" recorded_1 "[]"] by (simp add: emu_wf_def nph_scan.simps [of "[]"])
  then have comp: "completes recorded_1 (nl_rcv l2) = [recorded_1]"
    by (simp add: completes_def l2(4) buf)
  have en: "nl_enabled plain_nl ?e l2"
    using r(3) buf by (simp add: l2(3,4) plain_nl_def NPH_RCVR_BUFSIZE_def)
  have L: "nl_L plain_nl = plain_emu_lib" by (simp add: plain_nl_def)
  obtain r' where r': "nl_handle plain_nl ?e l2 = Some r'" "\<forall>f. r' = Inl f \<longrightarrow> nl_may_fault ?e l2 f"
    using packets_cross_the_link [OF plain_nl_ok len q(1) l2(1) [folded L], of ?e] en
    by (auto simp: nl_hangs_def simp del: nl_handle.simps nl_enabled.simps)
  moreover have "\<not> nl_may_fault ?e l2 f" for f
    using comp r(2,3) by (simp add: nl_may_fault_def off_table_def l2(3))
  ultimately obtain l where l: "nl_handle plain_nl ?e l2 = Some (Inr l)" by (cases r') auto
  have inv: "nph_sys_inv plain_nph_lib (\<lambda>out. out) [] (nl_rcv l2)"
    using q(2) by (simp add: l2(4) nph_sys_inv_def nph_connected_def)
  have "nph_enabled (\<lambda>out. out) (Nph_read recorded_1) (nl_rcv l2)"
    using r(3) buf by (simp add: l2(4) NPH_RCVR_BUFSIZE_def)
  then obtain p where "nph_handle plain_nph_lib (Nph_read recorded_1) (nl_rcv l2) = Some (Inr p)"
    "nlogged (NTCP p) = nlogged (NTCP (nl_rcv l2)) @ [recorded_1]"
    using nph_read_ok [OF plain_nph_lib_ok inv, of recorded_1] comp r(2) by (auto simp: off_table_def)
  then have "nlogged (NTCP (nl_rcv l)) = [recorded_1]"
    using l r(3) q(3) by (auto simp: receiver_does_def plain_nl_def l2(3,4) nph_connected_def simp del: nph_handle.simps)
  moreover have "nl_run plain_nl (nl_main plain_nl (emulator_main plain_emu_lib 0 0 0 None 0) q)
      ([Join 1 [], Emulator (Emu_read (recorded_1 @ take 5 recorded_2) (\<lambda>_. 0))] @ [?e]) l"
    by (rule runs.go [where q = l2]) (rule l2(1), rule en, rule l)
  ultimately show ?thesis using q(1) by (auto simp: one_packet_def)
qed

end
