(* ===== verification/PopsSrvr.thy ===== *)
theory PopsSrvr
  imports Dasio StreamReader
begin

text \<open>
  The server on the instrument computer (\<open>BBB/srvr/POPS_srvr.h\<close>, \<open>POPS_srvr.cc\<close>): it takes
  one-letter commands from its TCP clients, starts and stops the POPS software and answers every
  read with its status.
\<close>

section \<open>State\<close>

datatype POPS_status_t = POPS_init | POPS_idle | POPS_active | POPS_shutdown

fun status_num :: "POPS_status_t \<Rightarrow> nat" where
  "status_num POPS_init = 0"
| "status_num POPS_idle = 1"
| "status_num POPS_active = 2"
| "status_num POPS_shutdown = 3"

text \<open>
  The global \<open>POPS_status\<close>, the output side of the client's socket, that of the socket \<open>SD\<close> to
  the POPS software, and the calls of \<open>system\<close>, oldest first.
\<close>

datatype script = start_POPS | shutdown_now

record ('o, 'u) srvr =
  POPS_status :: POPS_status_t
  schan :: 'o
  sdchan :: 'u
  systems :: "script list"

section \<open>Operations\<close>

definition Error_str :: "byte list" where
  "Error_str = [0x45, 0x72, 0x72, 0x6F, 0x72, 0x3A, 0x20, 0x49, 0x6E, 0x76, 0x61, 0x6C, 0x69, 0x64,
     0x20, 0x63, 0x6F, 0x6D, 0x6D, 0x61, 0x6E, 0x64, 0x0A]"

definition sd_send_shutdown :: "'u chan_ops \<Rightarrow> 'u \<Rightarrow> 'u" where
  "sd_send_shutdown U u = snd (iwrite_op U [0x38] u)"

definition send_shutdown :: "'u chan_ops \<Rightarrow> ('o, 'u) srvr \<Rightarrow> bool \<times> ('o, 'u) srvr" where
  "send_shutdown U v = (True, v\<lparr>sdchan := sd_send_shutdown U (sdchan v)\<rparr>)"

text \<open>\<open>snprintf(buf, 8, "%d\n", POPS_status)\<close>; the values have one digit.\<close>

definition status_line :: "POPS_status_t \<Rightarrow> byte list" where
  "status_line st = [0x30 + word_of_nat (status_num st), 0x0A]"

definition send_status :: "'o chan_ops \<Rightarrow> ('o, 'u) srvr \<Rightarrow> bool \<times> ('o, 'u) srvr" where
  "send_status C v =
     (let (err, out) = iwrite_op C (status_line (POPS_status v)) (schan v);
          v = v\<lparr>schan := out\<rparr>
      in if err \<or> \<not> obuf_empty_op C (schan v) then (True, v) else (False, v))"

text \<open>The \<open>switch\<close> on the command letter, without \<open>D\<close>, which leaves the loop.\<close>

definition srvr_command ::
  "'o chan_ops \<Rightarrow> 'u chan_ops \<Rightarrow> byte \<Rightarrow> ('o, 'u) srvr \<Rightarrow> ('o, 'u) srvr" where
  "srvr_command C U cmd v =
     (if cmd = 0x56 then v
      else if cmd = 0x42
      then let v = v\<lparr>systems := systems v @ [start_POPS]\<rparr> in v\<lparr>POPS_status := POPS_active\<rparr>
      else if cmd = 0x45
      then if POPS_status v = POPS_active
           then let v = v\<lparr>POPS_status := POPS_shutdown\<rparr> in snd (send_shutdown U v)
           else let v = v\<lparr>POPS_status := POPS_shutdown\<rparr> in v\<lparr>systems := systems v @ [shutdown_now]\<rparr>
      else if cmd = 0x46
      then let v = v\<lparr>POPS_status := POPS_shutdown\<rparr> in v\<lparr>systems := systems v @ [shutdown_now]\<rparr>
      else v\<lparr>schan := snd (iwrite_op C Error_str (schan v))\<rparr>)"

text \<open>The loop; the first component says whether \<open>D\<close> was met.\<close>

function srvr_loop ::
  "'o chan_ops \<Rightarrow> 'u chan_ops \<Rightarrow> inbuf \<Rightarrow> ('o, 'u) srvr \<Rightarrow> bool \<times> inbuf \<times> ('o, 'u) srvr" where
  "srvr_loop C U s v =
     (if cp s + 2 \<le> nc s
      then
        let cmd = ibuf s ! cp s
        in if ibuf s ! (cp s + 1) \<noteq> 0x0A then srvr_loop C U (s\<lparr>cp := cp s + 1\<rparr>) v
           else
             let s = s\<lparr>cp := cp s + 2\<rparr>
             in if cmd = 0x44 then (True, s, v) else srvr_loop C U s (srvr_command C U cmd v)
      else (False, s, v))"
  by pat_completeness auto
termination
  by (relation "measure (\<lambda>(C, U, s, v). nc s - cp s)") auto

declare srvr_loop.simps [simp del]

definition srvr_protocol_input ::
  "dasio \<Rightarrow> 'o chan_ops \<Rightarrow> 'u chan_ops \<Rightarrow> inbuf \<Rightarrow> ('o, 'u) srvr \<Rightarrow> bool \<times> inbuf \<times> ('o, 'u) srvr" where
  "srvr_protocol_input D C U s v =
     (let (disc, s, v) = srvr_loop C U s v; s = consume_op D (cp s) s
      in if disc then (False, s, v) else (let (rv, v) = send_status C v in (rv, s, v)))"

section \<open>Commands in a stream\<close>

text \<open>The command letters in the unread bytes, and the bytes after the last complete command.\<close>

fun commands :: "byte list \<Rightarrow> byte list \<times> byte list" where
  "commands (a # b # bs) =
     (if b = 0x0A then (a # fst (commands bs), snd (commands bs)) else commands (b # bs))"
| "commands bs = ([], bs)"

definition run_commands ::
  "'o chan_ops \<Rightarrow> 'u chan_ops \<Rightarrow> byte list \<Rightarrow> ('o, 'u) srvr \<Rightarrow> ('o, 'u) srvr" where
  "run_commands C U cs v = fold (srvr_command C U) cs v"

lemma commands_append:
  "commands (bs @ cs) = (fst (commands bs) @ fst (commands (snd (commands bs) @ cs)),
     snd (commands (snd (commands bs) @ cs)))"
  by (induction bs rule: commands.induct) auto

interpretation srvr_stream: stream_scan commands
  by unfold_locales (simp_all add: commands_append [symmetric])

text \<open>
  What one read takes: \<open>D\<close> ends it, and what follows stays for the next one.
\<close>

fun read_commands :: "byte list \<Rightarrow> byte list \<times> bool \<times> byte list" where
  "read_commands (a # b # bs) =
     (if b \<noteq> 0x0A then read_commands (b # bs)
      else if a = 0x44 then ([], True, bs)
      else (a # fst (read_commands bs), snd (read_commands bs)))"
| "read_commands bs = ([], False, bs)"

lemma read_commands_no_D:
  "0x44 \<notin> set (fst (commands bs)) \<Longrightarrow>
   read_commands bs = (fst (commands bs), False, snd (commands bs))"
  by (induction bs rule: commands.induct) auto

lemma srvr_loop_reads:
  assumes "(cs, d, left) = read_commands (drop (cp s) (ibuf s))" and "cp s \<le> nc s"
  shows "\<exists>s'. srvr_loop C U s v = (d, s', run_commands C U cs v) \<and> ibuf s' = ibuf s
    \<and> cp s' \<le> nc s' \<and> drop (cp s') (ibuf s') = left"
  using assms
proof (induction "nc s - cp s" arbitrary: s v cs rule: less_induct)
  case less
  show ?case
  proof (cases "cp s + 2 \<le> nc s")
    case False
    then have "length (drop (cp s) (ibuf s)) < 2" by simp
    then have "read_commands (drop (cp s) (ibuf s)) = ([], False, drop (cp s) (ibuf s))"
      by (cases "drop (cp s) (ibuf s)" rule: read_commands.cases) auto
    then show ?thesis
      using False less.prems by (subst srvr_loop.simps) (auto simp: run_commands_def)
  next
    case True
    let ?a = "ibuf s ! cp s" and ?b = "ibuf s ! (cp s + 1)"
    let ?s1 = "s\<lparr>cp := cp s + 1\<rparr>" and ?s2 = "s\<lparr>cp := cp s + 2\<rparr>"
    have bs: "drop (cp s) (ibuf s) = ?a # ?b # drop (cp s + 2) (ibuf s)"
      using True by (simp add: Cons_nth_drop_Suc)
    have bs1: "drop (cp s + 1) (ibuf s) = ?b # drop (cp s + 2) (ibuf s)"
      using True by (simp add: Cons_nth_drop_Suc)
    consider (skip) "?b \<noteq> 0x0A" | (stop) "?b = 0x0A" "?a = 0x44" | (cmd) "?b = 0x0A" "?a \<noteq> 0x44"
      by blast
    then show ?thesis
    proof cases
      case skip
      then have "(cs, d, left) = read_commands (drop (cp ?s1) (ibuf ?s1))"
        using less.prems(1) bs bs1 by simp
      with less.hyps [of ?s1 cs v] True skip show ?thesis
        by (subst srvr_loop.simps) (simp add: Let_def)
    next
      case stop
      then have "cs = []" "d" "left = drop (cp s + 2) (ibuf s)" using less.prems(1) bs by simp_all
      then show ?thesis
        using True stop
        by (intro exI [of _ ?s2], subst srvr_loop.simps) (simp add: Let_def run_commands_def)
    next
      case cmd
      then obtain cs' where cs: "cs = ?a # cs'"
        "(cs', d, left) = read_commands (drop (cp ?s2) (ibuf ?s2))"
        using less.prems(1) bs by auto
      with less.hyps [of ?s2 cs' "srvr_command C U ?a v"] True cmd show ?thesis
        by (subst srvr_loop.simps) (simp add: Let_def run_commands_def)
    qed
  qed
qed

section \<open>What the commands do\<close>

text \<open>
  The status as a state machine over command letters, and what a run of commands causes on the
  way: the scripts it runs, the bytes it sends to the POPS software, the errors it answers.
\<close>

definition next_status :: "byte \<Rightarrow> POPS_status_t \<Rightarrow> POPS_status_t" where
  "next_status c st =
     (if c = 0x42 then POPS_active else if c = 0x45 \<or> c = 0x46 then POPS_shutdown else st)"

fun scripts_of :: "byte list \<Rightarrow> POPS_status_t \<Rightarrow> script list" where
  "scripts_of [] st = []"
| "scripts_of (c # cs) st =
     (if c = 0x42 then [start_POPS]
      else if c = 0x46 \<or> c = 0x45 \<and> st \<noteq> POPS_active then [shutdown_now] else [])
     @ scripts_of cs (next_status c st)"

fun stops_of :: "byte list \<Rightarrow> POPS_status_t \<Rightarrow> byte list" where
  "stops_of [] st = []"
| "stops_of (c # cs) st =
     (if c = 0x45 \<and> st = POPS_active then [0x38] else []) @ stops_of cs (next_status c st)"

definition errors_of :: "byte list \<Rightarrow> byte list" where
  "errors_of cs = concat (map (\<lambda>_. Error_str) (filter (\<lambda>c. c \<notin> {0x56, 0x42, 0x45, 0x46}) cs))"

lemma scripts_of_append:
  "scripts_of (cs @ ds) st = scripts_of cs st @ scripts_of ds (fold next_status cs st)"
  by (induction cs arbitrary: st) simp_all

lemma stops_of_append:
  "stops_of (cs @ ds) st = stops_of cs st @ stops_of ds (fold next_status cs st)"
  by (induction cs arbitrary: st) simp_all

lemma run_commands_effect:
  assumes "appends C written" and "appends U stops"
  shows "POPS_status (run_commands C U cs v) = fold next_status cs (POPS_status v)
    \<and> systems (run_commands C U cs v) = systems v @ scripts_of cs (POPS_status v)
    \<and> stops (sdchan (run_commands C U cs v)) = stops (sdchan v) @ stops_of cs (POPS_status v)
    \<and> written (schan (run_commands C U cs v)) = written (schan v) @ errors_of cs"
proof (induction cs arbitrary: v)
  case Nil
  then show ?case by (simp add: run_commands_def errors_of_def)
next
  case (Cons c cs)
  define v1 where "v1 = srvr_command C U c v"
  have v1: "POPS_status v1 = next_status c (POPS_status v)"
    "systems v1 = systems v @ scripts_of [c] (POPS_status v)"
    "stops (sdchan v1) = stops (sdchan v) @ stops_of [c] (POPS_status v)"
    "written (schan v1) = written (schan v) @ errors_of [c]"
    by (simp_all add: v1_def srvr_command_def next_status_def errors_of_def send_shutdown_def
        sd_send_shutdown_def Let_def appends_iwrite [OF assms(1)] appends_iwrite [OF assms(2)])
  have "run_commands C U (c # cs) v = run_commands C U cs v1"
    by (simp add: run_commands_def v1_def)
  then show ?case using Cons.IH [of v1] v1 by (simp add: errors_of_def)
qed

lemma send_status_effect:
  assumes "appends C written"
  shows "POPS_status (snd (send_status C v)) = POPS_status v
    \<and> systems (snd (send_status C v)) = systems v \<and> sdchan (snd (send_status C v)) = sdchan v
    \<and> written (schan (snd (send_status C v))) = written (schan v) @ status_line (POPS_status v)"
  by (simp add: send_status_def Let_def appends_iwrite [OF assms] split: prod.splits)
    (metis appends_iwrite [OF assms] snd_conv)

lemma srvr_read:
  assumes "consumes D" and "read_commands (drop (cp s) (ibuf s)) = (cs, d, left)" and "cp s \<le> nc s"
  shows "snd (srvr_protocol_input D C U s v) = (\<lparr>ibuf = left, cp = 0\<rparr>,
    if d then run_commands C U cs v else snd (send_status C (run_commands C U cs v)))"
proof -
  obtain s' where s': "srvr_loop C U s v = (d, s', run_commands C U cs v)"
      "cp s' \<le> nc s'" "drop (cp s') (ibuf s') = left"
    using srvr_loop_reads [OF assms(2) [symmetric] assms(3)] by blast
  then have "consume_op D (cp s') s' = \<lparr>ibuf = left, cp = 0\<rparr>"
    using assms(1) by (simp add: consumes_def consumed_def)
  then show ?thesis by (simp add: srvr_protocol_input_def s' split: prod.splits)
qed

text \<open>
  One read of the server, in full. The input is a stream of command letters each followed by a
  newline; a byte not followed by a newline is skipped. The commands are carried out in order
  by the state machine above: \<open>B\<close> runs the start script and makes the status active, \<open>E\<close> tells
  the POPS software to stop when it is active and shuts the computer down otherwise, \<open>F\<close> shuts it
  down always. The answer is one error line per invalid letter followed by one status line with
  the final status. \<open>D\<close> ends the read without the status line; what follows it, or an unfinished
  command, stays in the buffer.
\<close>

lemma srvr_read_any:
  assumes "consumes D" and "appends C written" and "appends U stops" and "cp s \<le> nc s"
    and "read_commands (drop (cp s) (ibuf s)) = (cs, d, left)"
    and "srvr_protocol_input D C U s v = (rv, s', v')"
  shows "POPS_status v' = fold next_status cs (POPS_status v)
    \<and> systems v' = systems v @ scripts_of cs (POPS_status v)
    \<and> stops (sdchan v') = stops (sdchan v) @ stops_of cs (POPS_status v)
    \<and> written (schan v') = written (schan v) @ errors_of cs
        @ (if d then [] else status_line (POPS_status v'))
    \<and> s' = \<lparr>ibuf = left, cp = 0\<rparr>"
proof -
  have "s' = \<lparr>ibuf = left, cp = 0\<rparr> \<and> v' = (if d then run_commands C U cs v
      else snd (send_status C (run_commands C U cs v)))"
    using srvr_read [OF assms(1,5,4), of C U v] assms(6) by simp
  then show ?thesis
    using run_commands_effect [OF assms(2,3), of cs v]
      send_status_effect [OF assms(2), of "run_commands C U cs v"]
    by simp
qed

lemma srvr_read_effect:
  assumes "consumes D" and "appends C written" and "appends U stops" and "cp s \<le> nc s"
    and "commands (drop (cp s) (ibuf s)) = (cs, left)" and "0x44 \<notin> set cs"
    and "srvr_protocol_input D C U s v = (rv, s', v')"
  shows "POPS_status v' = fold next_status cs (POPS_status v)
    \<and> systems v' = systems v @ scripts_of cs (POPS_status v)
    \<and> stops (sdchan v') = stops (sdchan v) @ stops_of cs (POPS_status v)
    \<and> written (schan v') = written (schan v) @ errors_of cs @ status_line (POPS_status v')
    \<and> ibuf s' = left \<and> cp s' = 0"
  using srvr_read_any [OF assms(1-4) read_commands_no_D assms(7)] assms(5,6) by simp

text \<open>A server that has just started.\<close>

definition plain_srvr :: "(byte list, byte list) srvr" where
  "plain_srvr = \<lparr>POPS_status = POPS_idle, schan = [], sdchan = [], systems = []\<rparr>"

end
