(* ===== verification/PopsServer.thy ===== *)
theory PopsServer
  imports EventLoop PopsSrvr
begin

text \<open>
  The POPS server as a program (\<open>main\<close> of \<open>BBB/srvr/POPS_srvr.cc\<close>): any number of clients, each
  with its own socket and input buffer, share the global \<open>POPS_status\<close>, the socket to the POPS
  software and the scripts. Its abstract specification is a single state machine that takes the
  commands in the order in which the reads deliver them.
\<close>

section \<open>The program\<close>

text \<open>
  Connections are numbered as they are accepted. \<open>ps_SD\<close> is the output side of the one socket to
  the POPS software, \<open>Shutdown_UDP::SD\<close>, which \<open>main\<close> creates before it starts to serve.
\<close>

record ('o, 'u) pops_server =
  ps_status :: POPS_status_t
  ps_systems :: "script list"
  ps_SD :: 'u
  ps_clients :: "nat \<rightharpoonup> inbuf \<times> 'o"
  ps_next :: nat

definition initial_status :: POPS_status_t where
  "initial_status = POPS_idle"

definition new_pops_socket :: "'o \<Rightarrow> inbuf \<times> 'o" where
  "new_pops_socket out = (\<lparr>ibuf = [], cp = 0\<rparr>, out)"

text \<open>\<open>Shutdown_UDP::connected\<close> reports the connection only.\<close>

definition sd_connected :: "'u \<Rightarrow> bool \<times> 'u" where
  "sd_connected u = (False, u)"

text \<open>\<open>connect_later\<close> belongs to the library, as do the acceptor and the table of services.\<close>

definition ps_main :: "(nat \<Rightarrow> 'u \<Rightarrow> 'u) \<Rightarrow> 'u \<Rightarrow> ('o, 'u) pops_server" where
  "ps_main connect_later sd = \<lparr>ps_status = initial_status, ps_systems = [],
     ps_SD = connect_later 45 sd, ps_clients = Map.empty, ps_next = 0\<rparr>"

datatype 'o ps_event =
    Ps_accept 'o | Ps_read nat "byte list" | Ps_gone nat | Ps_sent nat 'o | Ps_SD_connected

definition ps_read ::
  "dasio \<Rightarrow> 'o chan_ops \<Rightarrow> 'u chan_ops \<Rightarrow> nat \<Rightarrow> byte list \<Rightarrow> ('o, 'u) pops_server \<Rightarrow>
   fault + ('o, 'u) pops_server" where
  "ps_read D C U c bs p =
     (case ps_clients p c of
        None \<Rightarrow> Inl Freed_object
      | Some (s, out) \<Rightarrow>
          let v = \<lparr>POPS_status = ps_status p, schan = out, sdchan = ps_SD p, systems = ps_systems p\<rparr>;
              (closing, s, v) = srvr_protocol_input D C U (s\<lparr>ibuf := ibuf s @ bs\<rparr>) v
          in Inr (p\<lparr>ps_status := POPS_status v, ps_systems := systems v, ps_SD := sdchan v,
                    ps_clients := (ps_clients p)(c \<mapsto> (s, schan v))\<rparr>))"

fun ps_handle ::
  "dasio \<Rightarrow> 'o chan_ops \<Rightarrow> 'u chan_ops \<Rightarrow> 'o ps_event \<Rightarrow> ('o, 'u) pops_server \<Rightarrow>
   fault + ('o, 'u) pops_server" where
  "ps_handle D C U (Ps_accept out) p =
     Inr (p\<lparr>ps_clients := (ps_clients p)(ps_next p \<mapsto> new_pops_socket out), ps_next := ps_next p + 1\<rparr>)"
| "ps_handle D C U (Ps_read c bs) p = ps_read D C U c bs p"
| "ps_handle D C U (Ps_gone c) p = Inr (p\<lparr>ps_clients := (ps_clients p)(c := None)\<rparr>)"
| "ps_handle D C U (Ps_sent c out) p =
     Inr (p\<lparr>ps_clients := (ps_clients p)(c := map_option (\<lambda>(s, o'). (s, out)) (ps_clients p c))\<rparr>)"
| "ps_handle D C U Ps_SD_connected p = Inr (p\<lparr>ps_SD := snd (sd_connected (ps_SD p))\<rparr>)"

text \<open>A new connection has written nothing; only living clients are served.\<close>

fun ps_enabled :: "('o \<Rightarrow> byte list) \<Rightarrow> 'o ps_event \<Rightarrow> ('o, 'u) pops_server \<Rightarrow> bool" where
  "ps_enabled w (Ps_accept out) p \<longleftrightarrow> w out = []"
| "ps_enabled w (Ps_read c bs) p \<longleftrightarrow> ps_clients p c \<noteq> None"
| "ps_enabled w (Ps_gone c) p \<longleftrightarrow> ps_clients p c \<noteq> None"
| "ps_enabled w (Ps_sent c out) p \<longleftrightarrow>
     (case ps_clients p c of None \<Rightarrow> False | Some (s, o') \<Rightarrow> w out = w o')"
| "ps_enabled w Ps_SD_connected p \<longleftrightarrow> True"

abbreviation ps_run ::
  "dasio \<Rightarrow> 'o chan_ops \<Rightarrow> 'u chan_ops \<Rightarrow> ('o \<Rightarrow> byte list) \<Rightarrow> ('o, 'u) pops_server \<Rightarrow>
   'o ps_event list \<Rightarrow> ('o, 'u) pops_server \<Rightarrow> bool" where
  "ps_run D C U w \<equiv> runs (ps_enabled w) (\<lambda>e p. Some (ps_handle D C U e p))"

section \<open>The specification\<close>

text \<open>
  What the reads deliver, without the objects of the program: how many connections there were,
  the unfinished bytes of each, and per read the client, its commands, and whether \<open>D\<close> ended it.
\<close>

type_synonym ps_spec = "nat \<times> (nat \<Rightarrow> byte list) \<times> (nat \<times> byte list \<times> bool) list"

fun spec_step :: "'o ps_event \<Rightarrow> ps_spec \<Rightarrow> ps_spec" where
  "spec_step (Ps_accept out) (n, left, rs) = (Suc n, left(n := []), rs)"
| "spec_step (Ps_read c bs) (n, left, rs) =
     (let (cs, d, l) = read_commands (left c @ bs) in (n, left(c := l), rs @ [(c, cs, d)]))"
| "spec_step e sp = sp"

definition reads_of :: "'o ps_event list \<Rightarrow> (nat \<times> byte list \<times> bool) list" where
  "reads_of es = snd (snd (fold spec_step es (0, (\<lambda>_. []), [])))"

definition all_commands :: "(nat \<times> byte list \<times> bool) list \<Rightarrow> byte list" where
  "all_commands rs = concat (map (\<lambda>(c, cs, d). cs) rs)"

text \<open>The answers client \<open>c\<close> gets, when the status is \<open>st\<close> before the first read.\<close>

fun answers :: "nat \<Rightarrow> (nat \<times> byte list \<times> bool) list \<Rightarrow> POPS_status_t \<Rightarrow> byte list" where
  "answers c [] st = []"
| "answers c ((c', cs, d) # rs) st =
     (let st' = fold next_status cs st
      in (if c' = c then errors_of cs @ (if d then [] else status_line st') else [])
         @ answers c rs st')"

lemma all_commands_append [simp]: "all_commands (rs @ qs) = all_commands rs @ all_commands qs"
  by (simp add: all_commands_def)

lemma answers_append:
  "answers c (rs @ qs) st = answers c rs st @ answers c qs (fold next_status (all_commands rs) st)"
  by (induction c rs st rule: answers.induct) (simp_all add: all_commands_def Let_def)

lemma answers_other: "c \<notin> fst ` set rs \<Longrightarrow> answers c rs st = []"
  by (induction c rs st rule: answers.induct) (auto simp: Let_def)

text \<open>The state of the program is that of the specification.\<close>

definition ps_matches ::
  "('o \<Rightarrow> byte list) \<Rightarrow> ('u \<Rightarrow> byte list) \<Rightarrow> byte list \<Rightarrow> ps_spec \<Rightarrow> ('o, 'u) pops_server \<Rightarrow> bool" where
  "ps_matches w stops before sp p \<longleftrightarrow>
     (case sp of (n, left, rs) \<Rightarrow>
        let cs = all_commands rs
        in ps_next p = n \<and> ps_status p = fold next_status cs initial_status
         \<and> ps_systems p = scripts_of cs initial_status
         \<and> stops (ps_SD p) = before @ stops_of cs initial_status
         \<and> fst ` set rs \<subseteq> {..<n}
         \<and> (\<forall>c s out. ps_clients p c = Some (s, out) \<longrightarrow> c < n \<and> s = \<lparr>ibuf = left c, cp = 0\<rparr>
              \<and> w out = answers c rs initial_status))"

lemma ps_matchesD:
  assumes "ps_matches w stops before (n, left, rs) p"
  shows "ps_next p = n" "ps_status p = fold next_status (all_commands rs) initial_status"
    "ps_systems p = scripts_of (all_commands rs) initial_status"
    "stops (ps_SD p) = before @ stops_of (all_commands rs) initial_status"
    "fst ` set rs \<subseteq> {..<n}"
    "\<And>c s out. ps_clients p c = Some (s, out) \<Longrightarrow> c < n \<and> s = \<lparr>ibuf = left c, cp = 0\<rparr>
      \<and> w out = answers c rs initial_status"
  using assms by (auto simp: ps_matches_def Let_def)

lemma ps_read_matches:
  assumes "consumes D" and "appends C w" and "appends U stops"
    and m: "ps_matches w stops before sp p" and c: "ps_clients p c = Some (s, out)"
  shows "\<exists>p'. ps_read D C U c bs p = Inr p' \<and> ps_matches w stops before (spec_step (Ps_read c bs :: 'o ps_event) sp) p'"
proof -
  obtain n left rs where sp: "sp = (n, left, rs)" by (cases sp)
  note M = ps_matchesD [OF m [unfolded sp]]
  have s: "s = \<lparr>ibuf = left c, cp = 0\<rparr>" "c < n" "w out = answers c rs initial_status"
    using M(6) [OF c] by simp_all
  obtain cs d l where rc: "read_commands (left c @ bs) = (cs, d, l)" by (metis prod_cases3)
  define v where "v = \<lparr>POPS_status = ps_status p, schan = out, sdchan = ps_SD p, systems = ps_systems p\<rparr>"
  obtain rv s' v' where run: "srvr_protocol_input D C U \<lparr>ibuf = left c @ bs, cp = 0\<rparr> v = (rv, s', v')"
    by (metis prod_cases3)
  have e: "POPS_status v' = fold next_status cs (ps_status p)"
    "systems v' = ps_systems p @ scripts_of cs (ps_status p)"
    "stops (sdchan v') = stops (ps_SD p) @ stops_of cs (ps_status p)"
    "w (schan v') = w out @ errors_of cs @ (if d then [] else status_line (POPS_status v'))"
    "s' = \<lparr>ibuf = l, cp = 0\<rparr>"
    using srvr_read_any [OF assms(1-3) _ _ run, of cs d l] rc by (simp_all add: v_def)
  let ?p = "p\<lparr>ps_status := POPS_status v', ps_systems := systems v', ps_SD := sdchan v',
    ps_clients := (ps_clients p)(c \<mapsto> (s', schan v'))\<rparr>"
  have res: "ps_read D C U c bs p = Inr ?p"
    using c s(1) run by (simp add: ps_read_def v_def [symmetric])
  have "ps_matches w stops before (n, left(c := l), rs @ [(c, cs, d)]) ?p"
    using M e s
    by (simp add: ps_matches_def Let_def scripts_of_append stops_of_append answers_append all_commands_def)
  then show ?thesis using res by (simp add: sp rc)
qed

lemma ps_step_matches:
  assumes "consumes D" and "appends C w" and "appends U stops"
    and m: "ps_matches w stops before sp p" and en: "ps_enabled w e p"
  shows "\<exists>p'. ps_handle D C U e p = Inr p' \<and> ps_matches w stops before (spec_step e sp) p'"
proof -
  obtain n left rs where sp: "sp = (n, left, rs)" by (cases sp)
  note M = ps_matchesD [OF m [unfolded sp]]
  show ?thesis
  proof (cases e)
    case (Ps_accept out)
    have "n \<notin> fst ` set rs" using M(5) by blast
    then have "answers n rs initial_status = []" by (rule answers_other)
    then show ?thesis
      using M en Ps_accept
      by (auto simp: sp ps_matches_def Let_def new_pops_socket_def less_Suc_eq)
  next
    case (Ps_read c bs)
    then show ?thesis using ps_read_matches [OF assms(1-3) m] en by auto
  next
    case (Ps_gone c)
    then show ?thesis using M by (auto simp: sp ps_matches_def Let_def)
  next
    case (Ps_sent c out)
    then show ?thesis
      using M en by (auto simp: sp ps_matches_def Let_def split: option.splits)
  next
    case Ps_SD_connected
    then show ?thesis using m by (simp add: sd_connected_def)
  qed
qed

interpretation ps_loop: loop_simulation "ps_enabled w" "\<lambda>e p. Some (ps_handle D C U e p)" spec_step
    "\<lambda>sp p. consumes D \<and> appends C w \<and> appends U stops \<and> ps_matches w stops before sp p"
    "\<lambda>e p. False" "\<lambda>e p f. False"
  for D and C :: "'o chan_ops" and U :: "'u chan_ops" and w stops before
  by unfold_locales (use ps_step_matches in fastforce)

lemma ps_run_matches:
  assumes "ps_run D C U w (ps_main cl sd) es p" and "consumes D" and "appends C w" and "appends U stops"
  shows "ps_matches w stops (stops (cl 45 sd)) (fold spec_step es (0, (\<lambda>_. []), [])) p"
proof -
  have "ps_matches w stops (stops (cl 45 sd)) (0, (\<lambda>_. []), []) (ps_main cl sd)"
    by (simp add: ps_matches_def ps_main_def all_commands_def)
  then show ?thesis using ps_loop.run_related [OF assms(1)] assms(2-4) by blast
qed

section \<open>One client's commands\<close>

fun client_bytes :: "nat \<Rightarrow> 'o ps_event list \<Rightarrow> byte list" where
  "client_bytes c [] = []"
| "client_bytes c (Ps_read c' bs # es) = (if c' = c then bs else []) @ client_bytes c es"
| "client_bytes c (_ # es) = client_bytes c es"

definition commands_from :: "nat \<Rightarrow> (nat \<times> byte list \<times> bool) list \<Rightarrow> byte list" where
  "commands_from c rs = all_commands (filter (\<lambda>r. fst r = c) rs)"

lemma client_bytes_append [simp]: "client_bytes c (es @ ds) = client_bytes c es @ client_bytes c ds"
  by (induction c es rule: client_bytes.induct) simp_all

lemma client_bytes_other: "c' \<noteq> c \<Longrightarrow> client_bytes c [Ps_read c' bs] = []"
  by simp

text \<open>
  As long as a client does not send \<open>D\<close>, the commands carried out for it are those in the bytes it
  sent, whatever the reads and the other clients do.
\<close>

lemma client_stream:
  assumes "ps_run D C U w (ps_main cl sd) es p" and "consumes D" and "appends C w" and "appends U stops"
  shows "case fold spec_step es (0, (\<lambda>_. []), []) of (n, left, rs) \<Rightarrow>
    (n \<le> c \<longrightarrow> client_bytes c es = [] \<and> commands_from c rs = [])
    \<and> (0x44 \<notin> set (fst (commands (client_bytes c es))) \<longrightarrow>
         commands (client_bytes c es) = (commands_from c rs, if c < n then left c else []))"
  using assms(1)
proof induction
  case stop
  then show ?case by (simp add: commands_from_def all_commands_def)
next
  case (go es q e q')
  obtain n left rs where sp: "fold spec_step es (0, (\<lambda>_. []), []) = (n, left, rs)"
    by (metis prod_cases3)
  have IH: "n \<le> c \<longrightarrow> client_bytes c es = [] \<and> commands_from c rs = []"
    "0x44 \<notin> set (fst (commands (client_bytes c es))) \<Longrightarrow>
       commands (client_bytes c es) = (commands_from c rs, if c < n then left c else [])"
    using go.IH by (simp_all add: sp)
  note M = ps_matchesD [OF ps_run_matches [OF go.hyps(1) assms(2-4), unfolded sp]]
  show ?case
  proof (cases e)
    case (Ps_accept out)
    then show ?thesis using IH by (auto simp: sp)
  next
    case (Ps_read c' bs)
    obtain cs d l where rc: "read_commands (left c' @ bs) = (cs, d, l)" by (metis prod_cases3)
    have "c' < n" using go.hyps(2) M(6) Ps_read by auto
    show ?thesis
    proof (cases "c' = c")
      case False
      then show ?thesis
        using IH Ps_read rc by (auto simp: sp commands_from_def)
    next
      case True
      have app: "commands (client_bytes c es @ bs) = (fst (commands (client_bytes c es))
          @ fst (commands (snd (commands (client_bytes c es)) @ bs)),
          snd (commands (snd (commands (client_bytes c es)) @ bs)))"
        by (rule commands_append)
      have "commands (client_bytes c es @ bs) = (commands_from c rs @ cs, l)"
        if noD: "0x44 \<notin> set (fst (commands (client_bytes c es @ bs)))"
      proof -
        have "0x44 \<notin> set (fst (commands (client_bytes c es)))" using noD app by simp
        then have eq: "commands (client_bytes c es) = (commands_from c rs, left c)"
          using IH(2) \<open>c' < n\<close> True by simp
        have "0x44 \<notin> set (fst (commands (left c @ bs)))" using noD app eq by simp
        then have "commands (left c @ bs) = (cs, l)"
          using read_commands_no_D rc True by fastforce
        then show ?thesis using app eq by simp
      qed
      then show ?thesis
        using \<open>c' < n\<close> Ps_read rc True
        by (simp add: sp commands_from_def all_commands_def)
    qed
  qed (use IH in \<open>auto simp: sp\<close>)
qed

section \<open>Properties\<close>

text \<open>
  C12: The server refines one state machine. With any number of clients, over any sequence of
  connections, reads cut anywhere, disconnections and progress of the sockets, the next event is
  handled, the global status, the scripts run and the bytes sent to the POPS software are those of
  all commands in the order of the reads, and every client has been sent exactly the answers to
  its own reads (so nothing when it connects). The commands carried out for a client that does
  not send \<open>D\<close> are those in the bytes it sent.
\<close>

theorem server_serializes:
  assumes "ps_run D C U w (ps_main cl sd) es p" and "consumes D" and "appends C w" and "appends U stops"
    and "rs = reads_of es"
  shows "(ps_enabled w e p \<longrightarrow> (\<exists>p'. ps_handle D C U e p = Inr p'))
    \<and> ps_status p = fold next_status (all_commands rs) POPS_idle
    \<and> ps_systems p = scripts_of (all_commands rs) POPS_idle
    \<and> stops (ps_SD p) = stops (cl 45 sd) @ stops_of (all_commands rs) POPS_idle
    \<and> (\<forall>c s out. ps_clients p c = Some (s, out) \<longrightarrow> w out = answers c rs POPS_idle)
    \<and> (\<forall>c. 0x44 \<notin> set (fst (commands (client_bytes c es))) \<longrightarrow>
         commands_from c rs = fst (commands (client_bytes c es)))"
proof -
  obtain n left rs' where sp: "fold spec_step es (0, (\<lambda>_. []), []) = (n, left, rs')"
    by (metis prod_cases3)
  then have rs: "rs' = rs" using assms(5) by (simp add: reads_of_def)
  note m = ps_run_matches [OF assms(1-4), unfolded sp rs]
  note M = ps_matchesD [OF m, unfolded initial_status_def]
  have "commands_from c rs = fst (commands (client_bytes c es))"
    if "0x44 \<notin> set (fst (commands (client_bytes c es)))" for c
    using client_stream [OF assms(1-4), of c] that by (simp add: sp rs)
  then show ?thesis using M(2,3,4,6) ps_step_matches [OF assms(2-4) m] by blast
qed

text \<open>
  Two clients: the first starts the software and begins a command that it ends after the second
  has stopped it.
\<close>

definition two_clients :: "byte list ps_event list" where
  "two_clients = [Ps_accept [], Ps_accept [], Ps_read 0 [0x42, 0x0A, 0x45], Ps_read 1 [0x45, 0x0A],
     Ps_read 0 [0x0A]]"

theorem server_serializes_witness:
  "\<exists>p s out. ps_run plain_dasio open_chan open_chan (\<lambda>out. out) (ps_main (\<lambda>_ u. u) []) two_clients p
    \<and> ps_status p = POPS_shutdown \<and> ps_systems p = [start_POPS, shutdown_now] \<and> ps_SD p = [0x38]
    \<and> ps_clients p 0 = Some (s, out) \<and> out = [0x32, 0x0A, 0x33, 0x0A]"
proof -
  let ?run = "ps_run plain_dasio open_chan open_chan (\<lambda>out. out) (ps_main (\<lambda>_ u. u) [])"
  have step: "\<exists>q'. ?run (es @ [e]) q' \<and> ps_handle plain_dasio open_chan open_chan e q = Inr q'"
    if "?run es q" "ps_enabled (\<lambda>out. out) e q" for es e q
  proof -
    note run = that
    obtain q' where "ps_handle plain_dasio open_chan open_chan e q = Inr q'"
      using server_serializes [OF run(1) plain_dasio_ok(1) open_chan_appends open_chan_appends refl]
        run(2) by blast
    with runs.go [OF run, of q'] show ?thesis by simp
  qed
  obtain p1 where p1: "?run [Ps_accept []] p1" "dom (ps_clients p1) = {0}" "ps_next p1 = 1"
    using step [OF runs.stop, of "Ps_accept []"] by (auto simp: ps_main_def)
  obtain p2 where p2: "?run [Ps_accept [], Ps_accept []] p2" "dom (ps_clients p2) = {1, 0}"
    using step [OF p1(1), of "Ps_accept []"] p1(2,3) by auto
  have read: "\<exists>q'. ?run (es @ [Ps_read c bs]) q' \<and> dom (ps_clients q') = dom (ps_clients q)"
    if r: "?run es q" and d: "c \<in> dom (ps_clients q)" for es q c bs
  proof -
    obtain q' where q': "?run (es @ [Ps_read c bs]) q'"
      "ps_read plain_dasio open_chan open_chan c bs q = Inr q'"
      using step [OF r, of "Ps_read c bs"] d by auto
    then show ?thesis
      using d by (auto simp: ps_read_def Let_def split: option.splits prod.splits if_splits)
  qed
  obtain p3 where p3: "?run [Ps_accept [], Ps_accept [], Ps_read 0 [0x42, 0x0A, 0x45]] p3"
    "dom (ps_clients p3) = {1, 0}"
    using read [OF p2(1), of 0 "[0x42, 0x0A, 0x45]"] p2(2) by auto
  obtain p4 where p4: "?run [Ps_accept [], Ps_accept [], Ps_read 0 [0x42, 0x0A, 0x45],
      Ps_read 1 [0x45, 0x0A]] p4" "dom (ps_clients p4) = {1, 0}"
    using read [OF p3(1), of 1 "[0x45, 0x0A]"] p3(2) by auto
  obtain p where p: "?run two_clients p" "dom (ps_clients p) = {1, 0}"
    using read [OF p4(1), of 0 "[0x0A]"] p4(2) by (auto simp: two_clients_def)
  obtain s out where c: "ps_clients p 0 = Some (s, out)" using p(2) by (metis domD insertCI surj_pair)
  have rs: "reads_of two_clients = [(0, [0x42], False), (1, [0x45], False), (0, [0x45], False)]"
    by (simp add: reads_of_def two_clients_def)
  have "ps_status p = fold next_status [0x42, 0x45, 0x45] POPS_idle"
    "ps_systems p = scripts_of [0x42, 0x45, 0x45] POPS_idle"
    "ps_SD p = stops_of [0x42, 0x45, 0x45] POPS_idle"
    using server_serializes [OF p(1) plain_dasio_ok(1) open_chan_appends open_chan_appends refl]
    by (simp_all add: rs all_commands_def)
  moreover have "out = answers 0 (reads_of two_clients) POPS_idle"
    using server_serializes [OF p(1) plain_dasio_ok(1) open_chan_appends open_chan_appends refl] c
    by blast
  ultimately show ?thesis
    using p(1) c
    by (intro exI [of _ p] exI [of _ s] exI [of _ out]) (simp add: rs next_status_def Let_def errors_of_def status_line_def)
qed

end
