(* ===== verification/PopsData.thy ===== *)
theory PopsData
  imports Dasio
begin

text \<open>
  The data of the POPS driver (\<open>POPS/POPS.h\<close>): the telemetry record \<open>POPS\<close>, a global that the
  UDP receiver and the client of the POPS server both write. A \<open>float\<close> is a value of an unknown
  type \<open>'f\<close> and the \<open>double\<close> of the time one of an unknown type \<open>'d\<close>: the program copies
  floats and adds once, in \<open>stamp_op\<close>, so no property depends on their arithmetic. Integers are
  words of their width, signed ones included.
\<close>

section \<open>The telemetry record\<close>

record ('d, 'f) POPS_t =
  P_Time :: "'d"
  P_Part_Num :: u32
  P_HistSum :: u32
  P_PartCon_num_cc :: "'f"
  P_Baseline :: u32
  P_BLTH :: u32
  P_STD :: "'f"
  P_MaxSTD :: "'f"
  P_P_mbar :: "'f"
  P_MSTemp :: "'f"
  P_PumpLife :: "'f"
  P_WidthSTD :: "'f"
  P_WidthAvg :: "'f"
  P_Flow :: "'f"
  P_PumpFB :: "'f"
  P_LDTemp :: "'f"
  P_LaserFB :: "'f"
  P_LD_Mon :: "'f"
  P_AirTemp :: "'f"
  P_BatV :: "'f"
  P_Laser_Current :: "'f"
  P_Flow_Set :: "'f"
  P_BL_Start :: u32
  P_TH_Mult :: "'f"
  P_logmin :: "'f"
  P_logmax :: "'f"
  P_Skip_Save :: u32
  P_MinPeakPts :: u32
  P_MaxPeakPts :: u32
  P_RawPts :: u32
  P_Bin01 :: u32
  P_Bin02 :: u32
  P_Bin03 :: u32
  P_Bin04 :: u32
  P_Bin05 :: u32
  P_Bin06 :: u32
  P_Bin07 :: u32
  P_Bin08 :: u32
  P_Bin09 :: u32
  P_Bin10 :: u32
  P_Bin11 :: u32
  P_Bin12 :: u32
  P_Bin13 :: u32
  P_Bin14 :: u32
  P_Bin15 :: u32
  P_Bin16 :: u32
  P_NBins :: u16
  P_IntStatus :: byte
  P_DataStatus :: byte
  P_Srvr :: byte
  P_Stale :: byte

text \<open>
  The parsers of the interface library and the floating-point expression of the driver. A parser
  gets the old value of its reference argument and returns true on failure, with the new value
  and the buffer; \<open>not_found_keep_op\<close> is \<open>not_found(c, true)\<close>, and \<open>stamp_op t x\<close> is
  \<open>t + (x - floor(x))\<close> in double precision.
\<close>

record ('d, 'f) parse_ops =
  not_ndigits_op :: "nat \<Rightarrow> int \<Rightarrow> inbuf \<Rightarrow> bool \<times> int \<times> inbuf"
  not_nfloat_op :: "'f \<Rightarrow> inbuf \<Rightarrow> bool \<times> 'f \<times> inbuf"
  not_uint8_op :: "byte \<Rightarrow> inbuf \<Rightarrow> bool \<times> byte \<times> inbuf"
  not_uint16_op :: "u16 \<Rightarrow> inbuf \<Rightarrow> bool \<times> u16 \<times> inbuf"
  not_uint32_op :: "u32 \<Rightarrow> inbuf \<Rightarrow> bool \<times> u32 \<times> inbuf"
  not_int32_op :: "u32 \<Rightarrow> inbuf \<Rightarrow> bool \<times> u32 \<times> inbuf"
  not_found_keep_op :: "byte \<Rightarrow> inbuf \<Rightarrow> bool \<times> inbuf"
  stamp_op :: "int \<Rightarrow> 'f \<Rightarrow> 'd"

end
