(* ===== verification/PopsUdp.thy ===== *)
theory PopsUdp
  imports PopsData
begin

text \<open>
  \<open>UserPkts_UDP::protocol_input\<close> (\<open>POPS/POPS.cc\<close>): one datagram of the instrument, a comma
  separated line, is parsed into local variables and, if all of it parses, copied to \<open>POPS\<close>.
\<close>

section \<open>Parsing\<close>

text \<open>The local variables; they are not initialised, so their first values are arguments.\<close>

record 'f pops_locals =
  v_TimeSSM :: "'f"
  v_IntStatus :: byte
  v_DataStatus :: byte
  v_Part_Num :: u32
  v_HistSum :: u32
  v_PartCon_num_cc :: "'f"
  v_Baseline :: u32
  v_BLTH :: u32
  v_STD :: "'f"
  v_MaxSTD :: "'f"
  v_P_mbar :: "'f"
  v_MSTemp :: "'f"
  v_PumpLife :: "'f"
  v_WidthSTD :: "'f"
  v_WidthAvg :: "'f"
  v_Flow :: "'f"
  v_PumpFB :: "'f"
  v_LDTemp :: "'f"
  v_LaserFB :: "'f"
  v_LD_Mon :: "'f"
  v_AirTemp :: "'f"
  v_BatV :: "'f"
  v_Laser_Current :: "'f"
  v_Flow_Set :: "'f"
  v_BL_Start :: u32
  v_TH_Mult :: "'f"
  v_NBins :: u16
  v_logmin :: "'f"
  v_logmax :: "'f"
  v_Skip_Save :: u32
  v_MinPeakPts :: u32
  v_MaxPeakPts :: u32
  v_RawPts :: u32
  v_Bin01 :: u32
  v_Bin02 :: u32
  v_Bin03 :: u32
  v_Bin04 :: u32
  v_Bin05 :: u32
  v_Bin06 :: u32
  v_Bin07 :: u32
  v_Bin08 :: u32
  v_Bin09 :: u32
  v_Bin10 :: u32
  v_Bin11 :: u32
  v_Bin12 :: u32
  v_Bin13 :: u32
  v_Bin14 :: u32
  v_Bin15 :: u32
  v_Bin16 :: u32
  v_year :: int
  v_month :: int
  v_day :: int
  v_hour :: int
  v_minute :: int
  v_second :: int

text \<open>
  The condition of the \<open>if\<close> is a chain of \<open>||\<close>: its operands are tried in order until one
  fails. An operand changes the buffer and perhaps one local variable.
\<close>

type_synonym 'f operand = "inbuf \<times> 'f pops_locals \<Rightarrow> bool \<times> inbuf \<times> 'f pops_locals"

definition p_str :: "dasio \<Rightarrow> byte list \<Rightarrow> 'f operand" where
  "p_str D str = (\<lambda>(s, l). let (f, s) = not_str_op D str s in (f, s, l))"

definition p_found :: "('d, 'f) parse_ops \<Rightarrow> byte \<Rightarrow> 'f operand" where
  "p_found P c = (\<lambda>(s, l). let (f, s) = not_found_keep_op P c s in (f, s, l))"

definition p_field ::
  "('a \<Rightarrow> inbuf \<Rightarrow> bool \<times> 'a \<times> inbuf) \<Rightarrow> ('f pops_locals \<Rightarrow> 'a) \<Rightarrow>
   ('a \<Rightarrow> 'f pops_locals \<Rightarrow> 'f pops_locals) \<Rightarrow> 'f operand" where
  "p_field op get put = (\<lambda>(s, l). let (f, x, s) = op (get l) s in (f, s, put x l))"

fun run_chain :: "'f operand list \<Rightarrow> inbuf \<times> 'f pops_locals \<Rightarrow> bool \<times> inbuf \<times> 'f pops_locals" where
  "run_chain [] y = (False, y)"
| "run_chain (p # ps) y = (case p y of (failed, y) \<Rightarrow> if failed then (True, y) else run_chain ps y)"

definition pops_chain :: "dasio \<Rightarrow> ('d, 'f) parse_ops \<Rightarrow> 'f operand list" where
  "pops_chain D P =
    [p_str D [0x50, 0x4F, 0x50, 0x53, 0x2C],
     p_found P 0x2C,
     p_found P 0x2C,
     p_field (not_ndigits_op P 4) v_year (\<lambda>x. v_year_update (\<lambda>_. x)),
     p_field (not_ndigits_op P 2) v_month (\<lambda>x. v_month_update (\<lambda>_. x)),
     p_field (not_ndigits_op P 2) v_day (\<lambda>x. v_day_update (\<lambda>_. x)),
     p_str D [0x54],
     p_field (not_ndigits_op P 2) v_hour (\<lambda>x. v_hour_update (\<lambda>_. x)),
     p_field (not_ndigits_op P 2) v_minute (\<lambda>x. v_minute_update (\<lambda>_. x)),
     p_field (not_ndigits_op P 2) v_second (\<lambda>x. v_second_update (\<lambda>_. x)),
     p_str D [0x2C],
     p_field (not_nfloat_op P) v_TimeSSM (\<lambda>x. v_TimeSSM_update (\<lambda>_. x)),
     p_str D [0x2C],
     p_field (not_uint8_op P) v_IntStatus (\<lambda>x. v_IntStatus_update (\<lambda>_. x)),
     p_str D [0x2C],
     p_field (not_uint8_op P) v_DataStatus (\<lambda>x. v_DataStatus_update (\<lambda>_. x)),
     p_str D [0x2C],
     p_field (not_uint32_op P) v_Part_Num (\<lambda>x. v_Part_Num_update (\<lambda>_. x)),
     p_str D [0x2C],
     p_field (not_uint32_op P) v_HistSum (\<lambda>x. v_HistSum_update (\<lambda>_. x)),
     p_str D [0x2C],
     p_field (not_nfloat_op P) v_PartCon_num_cc (\<lambda>x. v_PartCon_num_cc_update (\<lambda>_. x)),
     p_str D [0x2C],
     p_field (not_uint32_op P) v_Baseline (\<lambda>x. v_Baseline_update (\<lambda>_. x)),
     p_str D [0x2C],
     p_field (not_uint32_op P) v_BLTH (\<lambda>x. v_BLTH_update (\<lambda>_. x)),
     p_str D [0x2C],
     p_field (not_nfloat_op P) v_STD (\<lambda>x. v_STD_update (\<lambda>_. x)),
     p_str D [0x2C],
     p_field (not_nfloat_op P) v_MaxSTD (\<lambda>x. v_MaxSTD_update (\<lambda>_. x)),
     p_str D [0x2C],
     p_field (not_nfloat_op P) v_P_mbar (\<lambda>x. v_P_mbar_update (\<lambda>_. x)),
     p_str D [0x2C],
     p_field (not_nfloat_op P) v_MSTemp (\<lambda>x. v_MSTemp_update (\<lambda>_. x)),
     p_str D [0x2C],
     p_field (not_nfloat_op P) v_PumpLife (\<lambda>x. v_PumpLife_update (\<lambda>_. x)),
     p_str D [0x2C],
     p_field (not_nfloat_op P) v_WidthSTD (\<lambda>x. v_WidthSTD_update (\<lambda>_. x)),
     p_str D [0x2C],
     p_field (not_nfloat_op P) v_WidthAvg (\<lambda>x. v_WidthAvg_update (\<lambda>_. x)),
     p_str D [0x2C],
     p_field (not_nfloat_op P) v_Flow (\<lambda>x. v_Flow_update (\<lambda>_. x)),
     p_str D [0x2C],
     p_field (not_nfloat_op P) v_PumpFB (\<lambda>x. v_PumpFB_update (\<lambda>_. x)),
     p_str D [0x2C],
     p_field (not_nfloat_op P) v_LDTemp (\<lambda>x. v_LDTemp_update (\<lambda>_. x)),
     p_str D [0x2C],
     p_field (not_nfloat_op P) v_LaserFB (\<lambda>x. v_LaserFB_update (\<lambda>_. x)),
     p_str D [0x2C],
     p_field (not_nfloat_op P) v_LD_Mon (\<lambda>x. v_LD_Mon_update (\<lambda>_. x)),
     p_str D [0x2C],
     p_field (not_nfloat_op P) v_AirTemp (\<lambda>x. v_AirTemp_update (\<lambda>_. x)),
     p_str D [0x2C],
     p_field (not_nfloat_op P) v_BatV (\<lambda>x. v_BatV_update (\<lambda>_. x)),
     p_str D [0x2C],
     p_field (not_nfloat_op P) v_Laser_Current (\<lambda>x. v_Laser_Current_update (\<lambda>_. x)),
     p_str D [0x2C],
     p_field (not_nfloat_op P) v_Flow_Set (\<lambda>x. v_Flow_Set_update (\<lambda>_. x)),
     p_str D [0x2C],
     p_field (not_uint32_op P) v_BL_Start (\<lambda>x. v_BL_Start_update (\<lambda>_. x)),
     p_str D [0x2C],
     p_field (not_nfloat_op P) v_TH_Mult (\<lambda>x. v_TH_Mult_update (\<lambda>_. x)),
     p_str D [0x2C],
     p_field (not_uint16_op P) v_NBins (\<lambda>x. v_NBins_update (\<lambda>_. x)),
     p_str D [0x2C],
     p_field (not_nfloat_op P) v_logmin (\<lambda>x. v_logmin_update (\<lambda>_. x)),
     p_str D [0x2C],
     p_field (not_nfloat_op P) v_logmax (\<lambda>x. v_logmax_update (\<lambda>_. x)),
     p_str D [0x2C],
     p_field (not_int32_op P) v_Skip_Save (\<lambda>x. v_Skip_Save_update (\<lambda>_. x)),
     p_str D [0x2C],
     p_field (not_uint32_op P) v_MinPeakPts (\<lambda>x. v_MinPeakPts_update (\<lambda>_. x)),
     p_str D [0x2C],
     p_field (not_uint32_op P) v_MaxPeakPts (\<lambda>x. v_MaxPeakPts_update (\<lambda>_. x)),
     p_str D [0x2C],
     p_field (not_int32_op P) v_RawPts (\<lambda>x. v_RawPts_update (\<lambda>_. x)),
     p_str D [0x2C],
     p_field (not_uint32_op P) v_Bin01 (\<lambda>x. v_Bin01_update (\<lambda>_. x)),
     p_str D [0x2C],
     p_field (not_uint32_op P) v_Bin02 (\<lambda>x. v_Bin02_update (\<lambda>_. x)),
     p_str D [0x2C],
     p_field (not_uint32_op P) v_Bin03 (\<lambda>x. v_Bin03_update (\<lambda>_. x)),
     p_str D [0x2C],
     p_field (not_uint32_op P) v_Bin04 (\<lambda>x. v_Bin04_update (\<lambda>_. x)),
     p_str D [0x2C],
     p_field (not_uint32_op P) v_Bin05 (\<lambda>x. v_Bin05_update (\<lambda>_. x)),
     p_str D [0x2C],
     p_field (not_uint32_op P) v_Bin06 (\<lambda>x. v_Bin06_update (\<lambda>_. x)),
     p_str D [0x2C],
     p_field (not_uint32_op P) v_Bin07 (\<lambda>x. v_Bin07_update (\<lambda>_. x)),
     p_str D [0x2C],
     p_field (not_uint32_op P) v_Bin08 (\<lambda>x. v_Bin08_update (\<lambda>_. x)),
     p_str D [0x2C],
     p_field (not_uint32_op P) v_Bin09 (\<lambda>x. v_Bin09_update (\<lambda>_. x)),
     p_str D [0x2C],
     p_field (not_uint32_op P) v_Bin10 (\<lambda>x. v_Bin10_update (\<lambda>_. x)),
     p_str D [0x2C],
     p_field (not_uint32_op P) v_Bin11 (\<lambda>x. v_Bin11_update (\<lambda>_. x)),
     p_str D [0x2C],
     p_field (not_uint32_op P) v_Bin12 (\<lambda>x. v_Bin12_update (\<lambda>_. x)),
     p_str D [0x2C],
     p_field (not_uint32_op P) v_Bin13 (\<lambda>x. v_Bin13_update (\<lambda>_. x)),
     p_str D [0x2C],
     p_field (not_uint32_op P) v_Bin14 (\<lambda>x. v_Bin14_update (\<lambda>_. x)),
     p_str D [0x2C],
     p_field (not_uint32_op P) v_Bin15 (\<lambda>x. v_Bin15_update (\<lambda>_. x)),
     p_str D [0x2C],
     p_field (not_uint32_op P) v_Bin16 (\<lambda>x. v_Bin16_update (\<lambda>_. x))]"

section \<open>Time\<close>

text \<open>
  \<open>mktime\<close> with the time zone UTC: the seconds since 1970 of a broken-down time whose fields may
  be out of range.
\<close>

definition days_before_year :: "int \<Rightarrow> int" where
  "days_before_year y = 365 * y + (y + 3) div 4 - (y + 99) div 100 + (y + 399) div 400"

definition leap_year :: "int \<Rightarrow> bool" where
  "leap_year y \<longleftrightarrow> y mod 4 = 0 \<and> (y mod 100 \<noteq> 0 \<or> y mod 400 = 0)"

definition days_before_month :: "bool \<Rightarrow> int \<Rightarrow> int" where
  "days_before_month leap m =
     [0, 31, 59, 90, 120, 151, 181, 212, 243, 273, 304, 334] ! nat m + (if leap \<and> m > 1 then 1 else 0)"

record tm =
  tm_year :: int
  tm_mon :: int
  tm_mday :: int
  tm_hour :: int
  tm_min :: int
  tm_sec :: int

definition mktime :: "tm \<Rightarrow> int" where
  "mktime t =
     (let y = tm_year t + 1900 + tm_mon t div 12; m = tm_mon t mod 12;
          days = days_before_year y - days_before_year 1970 + days_before_month (leap_year y) m
            + tm_mday t - 1
      in 60 * (60 * (24 * days + tm_hour t) + tm_min t) + tm_sec t)"

section \<open>The handler\<close>

definition pops_tm :: "'f pops_locals \<Rightarrow> tm" where
  "pops_tm l = \<lparr>tm_year = v_year l - 1900, tm_mon = v_month l - 1, tm_mday = v_day l,
     tm_hour = v_hour l, tm_min = v_minute l, tm_sec = v_second l\<rparr>"

definition pops_store :: "'f pops_locals \<Rightarrow> ('d, 'f) POPS_t \<Rightarrow> ('d, 'f) POPS_t" where
  "pops_store l POPS =
     (let
      POPS = POPS\<lparr>P_IntStatus := v_IntStatus l\<rparr>;
      POPS = POPS\<lparr>P_DataStatus := v_DataStatus l\<rparr>;
      POPS = POPS\<lparr>P_Part_Num := v_Part_Num l\<rparr>;
      POPS = POPS\<lparr>P_HistSum := v_HistSum l\<rparr>;
      POPS = POPS\<lparr>P_PartCon_num_cc := v_PartCon_num_cc l\<rparr>;
      POPS = POPS\<lparr>P_Baseline := v_Baseline l\<rparr>;
      POPS = POPS\<lparr>P_BLTH := v_BLTH l\<rparr>;
      POPS = POPS\<lparr>P_STD := v_STD l\<rparr>;
      POPS = POPS\<lparr>P_MaxSTD := v_MaxSTD l\<rparr>;
      POPS = POPS\<lparr>P_P_mbar := v_P_mbar l\<rparr>;
      POPS = POPS\<lparr>P_MSTemp := v_MSTemp l\<rparr>;
      POPS = POPS\<lparr>P_PumpLife := v_PumpLife l\<rparr>;
      POPS = POPS\<lparr>P_WidthSTD := v_WidthSTD l\<rparr>;
      POPS = POPS\<lparr>P_WidthAvg := v_WidthAvg l\<rparr>;
      POPS = POPS\<lparr>P_Flow := v_Flow l\<rparr>;
      POPS = POPS\<lparr>P_PumpFB := v_PumpFB l\<rparr>;
      POPS = POPS\<lparr>P_LDTemp := v_LDTemp l\<rparr>;
      POPS = POPS\<lparr>P_LaserFB := v_LaserFB l\<rparr>;
      POPS = POPS\<lparr>P_LD_Mon := v_LD_Mon l\<rparr>;
      POPS = POPS\<lparr>P_AirTemp := v_AirTemp l\<rparr>;
      POPS = POPS\<lparr>P_BatV := v_BatV l\<rparr>;
      POPS = POPS\<lparr>P_BL_Start := v_BL_Start l\<rparr>;
      POPS = POPS\<lparr>P_TH_Mult := v_TH_Mult l\<rparr>;
      POPS = POPS\<lparr>P_NBins := v_NBins l\<rparr>;
      POPS = POPS\<lparr>P_logmin := v_logmin l\<rparr>;
      POPS = POPS\<lparr>P_logmax := v_logmax l\<rparr>;
      POPS = POPS\<lparr>P_Skip_Save := v_Skip_Save l\<rparr>;
      POPS = POPS\<lparr>P_MinPeakPts := v_MinPeakPts l\<rparr>;
      POPS = POPS\<lparr>P_MaxPeakPts := v_MaxPeakPts l\<rparr>;
      POPS = POPS\<lparr>P_RawPts := v_RawPts l\<rparr>;
      POPS = POPS\<lparr>P_Bin01 := v_Bin01 l\<rparr>;
      POPS = POPS\<lparr>P_Bin02 := v_Bin02 l\<rparr>;
      POPS = POPS\<lparr>P_Bin03 := v_Bin03 l\<rparr>;
      POPS = POPS\<lparr>P_Bin04 := v_Bin04 l\<rparr>;
      POPS = POPS\<lparr>P_Bin05 := v_Bin05 l\<rparr>;
      POPS = POPS\<lparr>P_Bin06 := v_Bin06 l\<rparr>;
      POPS = POPS\<lparr>P_Bin07 := v_Bin07 l\<rparr>;
      POPS = POPS\<lparr>P_Bin08 := v_Bin08 l\<rparr>;
      POPS = POPS\<lparr>P_Bin09 := v_Bin09 l\<rparr>;
      POPS = POPS\<lparr>P_Bin10 := v_Bin10 l\<rparr>;
      POPS = POPS\<lparr>P_Bin11 := v_Bin11 l\<rparr>;
      POPS = POPS\<lparr>P_Bin12 := v_Bin12 l\<rparr>;
      POPS = POPS\<lparr>P_Bin13 := v_Bin13 l\<rparr>;
      POPS = POPS\<lparr>P_Bin14 := v_Bin14 l\<rparr>;
      POPS = POPS\<lparr>P_Bin15 := v_Bin15 l\<rparr>;
      POPS = POPS\<lparr>P_Bin16 := v_Bin16 l\<rparr>;
      POPS = POPS\<lparr>P_Stale := 0\<rparr>
      in POPS)"

definition udp_protocol_input ::
  "dasio \<Rightarrow> ('d, 'f) parse_ops \<Rightarrow> 'f pops_locals \<Rightarrow> inbuf \<Rightarrow> ('d, 'f) POPS_t \<Rightarrow> inbuf \<times> ('d, 'f) POPS_t" where
  "udp_protocol_input D P l0 s POPS =
     (let s = s\<lparr>cp := 0\<rparr>
      in case run_chain (pops_chain D P) (s, l0) of (failed, s, l) \<Rightarrow>
           if failed then (if cp s < nc s then consume_op D (nc s) s else s, POPS)
           else
             let ltime = mktime (pops_tm l);
                 s = (if ltime = - 1 then report_err_op D s else s);
                 POPS = (if ltime = - 1 then POPS
                   else POPS\<lparr>P_Time := stamp_op P ltime (v_TimeSSM l)\<rparr>);
                 POPS = pops_store l POPS
             in (report_ok_op D (nc s) s, POPS))"

section \<open>Lines that parse\<close>

text \<open>
  Texts for the values: printers of which the parsers of the library are assumed to read back
  what is printed, the numbers when a separator, the first letter of another line or nothing
  follows.
\<close>

record 'f printers =
  pr_digits :: "nat \<Rightarrow> int \<Rightarrow> byte list"
  pr_float :: "'f \<Rightarrow> byte list"
  pr_u8 :: "byte \<Rightarrow> byte list"
  pr_u16 :: "u16 \<Rightarrow> byte list"
  pr_u32 :: "u32 \<Rightarrow> byte list"
  pr_i32 :: "u32 \<Rightarrow> byte list"

definition sep :: "byte list \<Rightarrow> bool" where
  "sep rest \<longleftrightarrow> rest = [] \<or> hd rest \<in> {0x2C, 0x0D, 0x0A, 0x50}"

definition reads_back :: "bool \<Rightarrow> ('a \<Rightarrow> inbuf \<Rightarrow> bool \<times> 'a \<times> inbuf) \<Rightarrow> byte list \<Rightarrow> 'a \<Rightarrow> bool" where
  "reads_back b op t x \<longleftrightarrow> (\<forall>old s rest. drop (cp s) (ibuf s) = t @ rest \<and> (b \<longrightarrow> sep rest) \<longrightarrow>
     op old s = (False, x, s\<lparr>cp := cp s + length t\<rparr>))"

text \<open>
  What the driver relies on: the numeric parsers read back what is printed, exactly as many
  digits as asked for are read, and \<open>not_found(c, true)\<close> goes past the first \<open>c\<close>.
\<close>

definition parses_back :: "('d, 'f) parse_ops \<Rightarrow> 'f printers \<Rightarrow> bool" where
  "parses_back P T \<longleftrightarrow>
     (\<forall>n x. 0 \<le> x \<and> x < 10 ^ n \<longrightarrow> reads_back False (not_ndigits_op P n) (pr_digits T n x) x)
   \<and> (\<forall>x. reads_back True (not_nfloat_op P) (pr_float T x) x)
   \<and> (\<forall>x. reads_back True (not_uint8_op P) (pr_u8 T x) x)
   \<and> (\<forall>x. reads_back True (not_uint16_op P) (pr_u16 T x) x)
   \<and> (\<forall>x. reads_back True (not_uint32_op P) (pr_u32 T x) x)
   \<and> (\<forall>x. reads_back True (not_int32_op P) (pr_i32 T x) x)
   \<and> (\<forall>c t s rest. drop (cp s) (ibuf s) = t @ c # rest \<and> c \<notin> set t \<longrightarrow>
        not_found_keep_op P c s = (False, s\<lparr>cp := cp s + length t + 1\<rparr>))"

text \<open>An operand that reads a text, with or without the need for a separator, and its effect.\<close>

definition reads :: "bool \<Rightarrow> 'f operand \<Rightarrow> byte list \<Rightarrow> ('f pops_locals \<Rightarrow> 'f pops_locals) \<Rightarrow> bool" where
  "reads b p t put \<longleftrightarrow> (\<forall>s l rest. drop (cp s) (ibuf s) = t @ rest \<and> (b \<longrightarrow> sep rest) \<longrightarrow>
     p (s, l) = (False, s\<lparr>cp := cp s + length t\<rparr>, put l))"

type_synonym 'f segment = "bool \<times> 'f operand \<times> byte list \<times> ('f pops_locals \<Rightarrow> 'f pops_locals)"

fun text_of :: "'f segment list \<Rightarrow> byte list \<Rightarrow> byte list" where
  "text_of [] end_text = end_text"
| "text_of ((b, p, t, put) # xs) end_text = t @ text_of xs end_text"

fun effect_of :: "'f segment list \<Rightarrow> 'f pops_locals \<Rightarrow> 'f pops_locals" where
  "effect_of [] l = l"
| "effect_of ((b, p, t, put) # xs) l = effect_of xs (put l)"

fun segments_ok :: "'f segment list \<Rightarrow> byte list \<Rightarrow> bool" where
  "segments_ok [] end_text = True"
| "segments_ok ((b, p, t, put) # xs) end_text =
     (reads b p t put \<and> (b \<longrightarrow> sep (text_of xs end_text)) \<and> segments_ok xs end_text)"

lemma run_chain_segments:
  "segments_ok xs end_text \<Longrightarrow> drop (cp s) (ibuf s) = text_of xs end_text \<Longrightarrow>
   \<exists>s'. run_chain (map (\<lambda>x. fst (snd x)) xs) (s, l) = (False, s', effect_of xs l)
     \<and> ibuf s' = ibuf s \<and> drop (cp s') (ibuf s) = end_text"
proof (induction xs arbitrary: s l)
  case Nil
  then show ?case by simp
next
  case (Cons x xs)
  obtain b p t put where x: "x = (b, p, t, put)" by (cases x)
  have step: "p (s, l) = (False, s\<lparr>cp := cp s + length t\<rparr>, put l)"
    using Cons.prems x by (simp add: reads_def)
  have "drop (cp s + length t) (ibuf s) = drop (length t) (drop (cp s) (ibuf s))"
    by (simp add: add.commute)
  then have "drop (cp s + length t) (ibuf s) = text_of xs end_text"
    using Cons.prems(2) x by simp
  then show ?case
    using Cons.IH [of "s\<lparr>cp := cp s + length t\<rparr>" "put l"] Cons.prems(1) step by (simp add: x)
qed

lemma reads_str:
  assumes "matches_strings D"
  shows "reads False (p_str D t) t id"
proof -
  have "match_len t (t @ rest) = length t" for rest by (induction t) simp_all
  then show ?thesis using assms by (simp add: reads_def p_str_def matches_strings_def)
qed

lemma reads_found:
  assumes "parses_back P T" and "c \<notin> set t"
  shows "reads False (p_found P c) (t @ [c]) id"
  using assms by (auto simp: reads_def p_found_def parses_back_def)

lemma reads_field:
  assumes "reads_back b op t x"
  shows "reads b (p_field op get put) t (put x)"
  using assms by (auto simp: reads_def p_field_def reads_back_def)

text \<open>The three kinds of segment.\<close>

definition s_str :: "dasio \<Rightarrow> byte list \<Rightarrow> 'f segment" where
  "s_str D t = (False, p_str D t, t, id)"

definition s_found :: "('d, 'f) parse_ops \<Rightarrow> byte \<Rightarrow> byte list \<Rightarrow> 'f segment" where
  "s_found P c t = (False, p_found P c, t @ [c], id)"

definition s_field ::
  "bool \<Rightarrow> ('a \<Rightarrow> inbuf \<Rightarrow> bool \<times> 'a \<times> inbuf) \<Rightarrow> ('f pops_locals \<Rightarrow> 'a) \<Rightarrow>
   ('a \<Rightarrow> 'f pops_locals \<Rightarrow> 'f pops_locals) \<Rightarrow> byte list \<Rightarrow> 'a \<Rightarrow> 'f segment" where
  "s_field b op get put t x = (b, p_field op get put, t, put x)"

abbreviation operand_of :: "'f segment \<Rightarrow> 'f operand" where
  "operand_of x \<equiv> fst (snd x)"

named_theorems segment_simps

lemma operand_of_segment [segment_simps]:
  "operand_of (s_str D t) = p_str D t" "operand_of (s_found P c t) = p_found P c"
  "operand_of (s_field b op get put t x) = p_field op get put"
  by (simp_all add: s_str_def s_found_def s_field_def)

lemma text_of_segment [segment_simps]:
  "text_of (s_str D t # xs) e = t @ text_of xs e"
  "text_of (s_found P c t # xs) e = t @ [c] @ text_of xs e"
  "text_of (s_field b op get put t x # xs) e = t @ text_of xs e"
  by (simp_all add: s_str_def s_found_def s_field_def)

lemma effect_of_segment [segment_simps]:
  "effect_of (s_str D t # xs) l = effect_of xs l"
  "effect_of (s_found P c t # xs) l = effect_of xs l"
  "effect_of (s_field b op get put t x # xs) l = effect_of xs (put x l)"
  by (simp_all add: s_str_def s_found_def s_field_def)

lemma ok_str: "matches_strings D \<Longrightarrow> segments_ok (s_str D t # xs) e \<longleftrightarrow> segments_ok xs e"
  by (simp add: s_str_def reads_str)

lemma ok_found:
  "parses_back P T \<Longrightarrow> c \<notin> set t \<Longrightarrow> segments_ok (s_found P c t # xs) e \<longleftrightarrow> segments_ok xs e"
  by (simp add: s_found_def reads_found)

lemma ok_field:
  "reads_back b op t x \<Longrightarrow>
   segments_ok (s_field b op get put t x # xs) e \<longleftrightarrow> (b \<longrightarrow> sep (text_of xs e)) \<and> segments_ok xs e"
  by (simp add: s_field_def reads_field)

text \<open>The line of the instrument for given values: serial number, file name and all columns.\<close>

definition pops_segments ::
  "dasio \<Rightarrow> ('d, 'f) parse_ops \<Rightarrow> 'f printers \<Rightarrow> byte list \<Rightarrow> byte list \<Rightarrow> 'f pops_locals \<Rightarrow> 'f segment list" where
  "pops_segments D P T sn file l =
    [s_str D [0x50, 0x4F, 0x50, 0x53, 0x2C],
     s_found P 0x2C sn,
     s_found P 0x2C file,
     s_field False (not_ndigits_op P 4) v_year (\<lambda>x. v_year_update (\<lambda>_. x)) (pr_digits T 4 (v_year l)) (v_year l),
     s_field False (not_ndigits_op P 2) v_month (\<lambda>x. v_month_update (\<lambda>_. x)) (pr_digits T 2 (v_month l)) (v_month l),
     s_field False (not_ndigits_op P 2) v_day (\<lambda>x. v_day_update (\<lambda>_. x)) (pr_digits T 2 (v_day l)) (v_day l),
     s_str D [0x54],
     s_field False (not_ndigits_op P 2) v_hour (\<lambda>x. v_hour_update (\<lambda>_. x)) (pr_digits T 2 (v_hour l)) (v_hour l),
     s_field False (not_ndigits_op P 2) v_minute (\<lambda>x. v_minute_update (\<lambda>_. x)) (pr_digits T 2 (v_minute l)) (v_minute l),
     s_field False (not_ndigits_op P 2) v_second (\<lambda>x. v_second_update (\<lambda>_. x)) (pr_digits T 2 (v_second l)) (v_second l),
     s_str D [0x2C],
     s_field True (not_nfloat_op P) v_TimeSSM (\<lambda>x. v_TimeSSM_update (\<lambda>_. x)) (pr_float T (v_TimeSSM l)) (v_TimeSSM l),
     s_str D [0x2C],
     s_field True (not_uint8_op P) v_IntStatus (\<lambda>x. v_IntStatus_update (\<lambda>_. x)) (pr_u8 T (v_IntStatus l)) (v_IntStatus l),
     s_str D [0x2C],
     s_field True (not_uint8_op P) v_DataStatus (\<lambda>x. v_DataStatus_update (\<lambda>_. x)) (pr_u8 T (v_DataStatus l)) (v_DataStatus l),
     s_str D [0x2C],
     s_field True (not_uint32_op P) v_Part_Num (\<lambda>x. v_Part_Num_update (\<lambda>_. x)) (pr_u32 T (v_Part_Num l)) (v_Part_Num l),
     s_str D [0x2C],
     s_field True (not_uint32_op P) v_HistSum (\<lambda>x. v_HistSum_update (\<lambda>_. x)) (pr_u32 T (v_HistSum l)) (v_HistSum l),
     s_str D [0x2C],
     s_field True (not_nfloat_op P) v_PartCon_num_cc (\<lambda>x. v_PartCon_num_cc_update (\<lambda>_. x)) (pr_float T (v_PartCon_num_cc l)) (v_PartCon_num_cc l),
     s_str D [0x2C],
     s_field True (not_uint32_op P) v_Baseline (\<lambda>x. v_Baseline_update (\<lambda>_. x)) (pr_u32 T (v_Baseline l)) (v_Baseline l),
     s_str D [0x2C],
     s_field True (not_uint32_op P) v_BLTH (\<lambda>x. v_BLTH_update (\<lambda>_. x)) (pr_u32 T (v_BLTH l)) (v_BLTH l),
     s_str D [0x2C],
     s_field True (not_nfloat_op P) v_STD (\<lambda>x. v_STD_update (\<lambda>_. x)) (pr_float T (v_STD l)) (v_STD l),
     s_str D [0x2C],
     s_field True (not_nfloat_op P) v_MaxSTD (\<lambda>x. v_MaxSTD_update (\<lambda>_. x)) (pr_float T (v_MaxSTD l)) (v_MaxSTD l),
     s_str D [0x2C],
     s_field True (not_nfloat_op P) v_P_mbar (\<lambda>x. v_P_mbar_update (\<lambda>_. x)) (pr_float T (v_P_mbar l)) (v_P_mbar l),
     s_str D [0x2C],
     s_field True (not_nfloat_op P) v_MSTemp (\<lambda>x. v_MSTemp_update (\<lambda>_. x)) (pr_float T (v_MSTemp l)) (v_MSTemp l),
     s_str D [0x2C],
     s_field True (not_nfloat_op P) v_PumpLife (\<lambda>x. v_PumpLife_update (\<lambda>_. x)) (pr_float T (v_PumpLife l)) (v_PumpLife l),
     s_str D [0x2C],
     s_field True (not_nfloat_op P) v_WidthSTD (\<lambda>x. v_WidthSTD_update (\<lambda>_. x)) (pr_float T (v_WidthSTD l)) (v_WidthSTD l),
     s_str D [0x2C],
     s_field True (not_nfloat_op P) v_WidthAvg (\<lambda>x. v_WidthAvg_update (\<lambda>_. x)) (pr_float T (v_WidthAvg l)) (v_WidthAvg l),
     s_str D [0x2C],
     s_field True (not_nfloat_op P) v_Flow (\<lambda>x. v_Flow_update (\<lambda>_. x)) (pr_float T (v_Flow l)) (v_Flow l),
     s_str D [0x2C],
     s_field True (not_nfloat_op P) v_PumpFB (\<lambda>x. v_PumpFB_update (\<lambda>_. x)) (pr_float T (v_PumpFB l)) (v_PumpFB l),
     s_str D [0x2C],
     s_field True (not_nfloat_op P) v_LDTemp (\<lambda>x. v_LDTemp_update (\<lambda>_. x)) (pr_float T (v_LDTemp l)) (v_LDTemp l),
     s_str D [0x2C],
     s_field True (not_nfloat_op P) v_LaserFB (\<lambda>x. v_LaserFB_update (\<lambda>_. x)) (pr_float T (v_LaserFB l)) (v_LaserFB l),
     s_str D [0x2C],
     s_field True (not_nfloat_op P) v_LD_Mon (\<lambda>x. v_LD_Mon_update (\<lambda>_. x)) (pr_float T (v_LD_Mon l)) (v_LD_Mon l),
     s_str D [0x2C],
     s_field True (not_nfloat_op P) v_AirTemp (\<lambda>x. v_AirTemp_update (\<lambda>_. x)) (pr_float T (v_AirTemp l)) (v_AirTemp l),
     s_str D [0x2C],
     s_field True (not_nfloat_op P) v_BatV (\<lambda>x. v_BatV_update (\<lambda>_. x)) (pr_float T (v_BatV l)) (v_BatV l),
     s_str D [0x2C],
     s_field True (not_nfloat_op P) v_Laser_Current (\<lambda>x. v_Laser_Current_update (\<lambda>_. x)) (pr_float T (v_Laser_Current l)) (v_Laser_Current l),
     s_str D [0x2C],
     s_field True (not_nfloat_op P) v_Flow_Set (\<lambda>x. v_Flow_Set_update (\<lambda>_. x)) (pr_float T (v_Flow_Set l)) (v_Flow_Set l),
     s_str D [0x2C],
     s_field True (not_uint32_op P) v_BL_Start (\<lambda>x. v_BL_Start_update (\<lambda>_. x)) (pr_u32 T (v_BL_Start l)) (v_BL_Start l),
     s_str D [0x2C],
     s_field True (not_nfloat_op P) v_TH_Mult (\<lambda>x. v_TH_Mult_update (\<lambda>_. x)) (pr_float T (v_TH_Mult l)) (v_TH_Mult l),
     s_str D [0x2C],
     s_field True (not_uint16_op P) v_NBins (\<lambda>x. v_NBins_update (\<lambda>_. x)) (pr_u16 T (v_NBins l)) (v_NBins l),
     s_str D [0x2C],
     s_field True (not_nfloat_op P) v_logmin (\<lambda>x. v_logmin_update (\<lambda>_. x)) (pr_float T (v_logmin l)) (v_logmin l),
     s_str D [0x2C],
     s_field True (not_nfloat_op P) v_logmax (\<lambda>x. v_logmax_update (\<lambda>_. x)) (pr_float T (v_logmax l)) (v_logmax l),
     s_str D [0x2C],
     s_field True (not_int32_op P) v_Skip_Save (\<lambda>x. v_Skip_Save_update (\<lambda>_. x)) (pr_i32 T (v_Skip_Save l)) (v_Skip_Save l),
     s_str D [0x2C],
     s_field True (not_uint32_op P) v_MinPeakPts (\<lambda>x. v_MinPeakPts_update (\<lambda>_. x)) (pr_u32 T (v_MinPeakPts l)) (v_MinPeakPts l),
     s_str D [0x2C],
     s_field True (not_uint32_op P) v_MaxPeakPts (\<lambda>x. v_MaxPeakPts_update (\<lambda>_. x)) (pr_u32 T (v_MaxPeakPts l)) (v_MaxPeakPts l),
     s_str D [0x2C],
     s_field True (not_int32_op P) v_RawPts (\<lambda>x. v_RawPts_update (\<lambda>_. x)) (pr_i32 T (v_RawPts l)) (v_RawPts l),
     s_str D [0x2C],
     s_field True (not_uint32_op P) v_Bin01 (\<lambda>x. v_Bin01_update (\<lambda>_. x)) (pr_u32 T (v_Bin01 l)) (v_Bin01 l),
     s_str D [0x2C],
     s_field True (not_uint32_op P) v_Bin02 (\<lambda>x. v_Bin02_update (\<lambda>_. x)) (pr_u32 T (v_Bin02 l)) (v_Bin02 l),
     s_str D [0x2C],
     s_field True (not_uint32_op P) v_Bin03 (\<lambda>x. v_Bin03_update (\<lambda>_. x)) (pr_u32 T (v_Bin03 l)) (v_Bin03 l),
     s_str D [0x2C],
     s_field True (not_uint32_op P) v_Bin04 (\<lambda>x. v_Bin04_update (\<lambda>_. x)) (pr_u32 T (v_Bin04 l)) (v_Bin04 l),
     s_str D [0x2C],
     s_field True (not_uint32_op P) v_Bin05 (\<lambda>x. v_Bin05_update (\<lambda>_. x)) (pr_u32 T (v_Bin05 l)) (v_Bin05 l),
     s_str D [0x2C],
     s_field True (not_uint32_op P) v_Bin06 (\<lambda>x. v_Bin06_update (\<lambda>_. x)) (pr_u32 T (v_Bin06 l)) (v_Bin06 l),
     s_str D [0x2C],
     s_field True (not_uint32_op P) v_Bin07 (\<lambda>x. v_Bin07_update (\<lambda>_. x)) (pr_u32 T (v_Bin07 l)) (v_Bin07 l),
     s_str D [0x2C],
     s_field True (not_uint32_op P) v_Bin08 (\<lambda>x. v_Bin08_update (\<lambda>_. x)) (pr_u32 T (v_Bin08 l)) (v_Bin08 l),
     s_str D [0x2C],
     s_field True (not_uint32_op P) v_Bin09 (\<lambda>x. v_Bin09_update (\<lambda>_. x)) (pr_u32 T (v_Bin09 l)) (v_Bin09 l),
     s_str D [0x2C],
     s_field True (not_uint32_op P) v_Bin10 (\<lambda>x. v_Bin10_update (\<lambda>_. x)) (pr_u32 T (v_Bin10 l)) (v_Bin10 l),
     s_str D [0x2C],
     s_field True (not_uint32_op P) v_Bin11 (\<lambda>x. v_Bin11_update (\<lambda>_. x)) (pr_u32 T (v_Bin11 l)) (v_Bin11 l),
     s_str D [0x2C],
     s_field True (not_uint32_op P) v_Bin12 (\<lambda>x. v_Bin12_update (\<lambda>_. x)) (pr_u32 T (v_Bin12 l)) (v_Bin12 l),
     s_str D [0x2C],
     s_field True (not_uint32_op P) v_Bin13 (\<lambda>x. v_Bin13_update (\<lambda>_. x)) (pr_u32 T (v_Bin13 l)) (v_Bin13 l),
     s_str D [0x2C],
     s_field True (not_uint32_op P) v_Bin14 (\<lambda>x. v_Bin14_update (\<lambda>_. x)) (pr_u32 T (v_Bin14 l)) (v_Bin14 l),
     s_str D [0x2C],
     s_field True (not_uint32_op P) v_Bin15 (\<lambda>x. v_Bin15_update (\<lambda>_. x)) (pr_u32 T (v_Bin15 l)) (v_Bin15 l),
     s_str D [0x2C],
     s_field True (not_uint32_op P) v_Bin16 (\<lambda>x. v_Bin16_update (\<lambda>_. x)) (pr_u32 T (v_Bin16 l)) (v_Bin16 l)]"

definition dated :: "'f pops_locals \<Rightarrow> bool" where
  "dated l \<longleftrightarrow> 0 \<le> v_year l \<and> v_year l < 10 ^ 4 \<and> (\<forall>x \<in> {v_month l, v_day l, v_hour l, v_minute l,
     v_second l}. 0 \<le> x \<and> x < 10 ^ 2)"

lemma pops_segments_ops: "map operand_of (pops_segments D P T sn file l) = pops_chain D P"
  by (simp add: pops_segments_def pops_chain_def segment_simps)

lemma pops_segments_ok:
  assumes D: "matches_strings D" and P: "parses_back P T" and l: "dated l"
    and sn: "0x2C \<notin> set sn" "0x2C \<notin> set file" and e: "sep end_text"
  shows "segments_ok (pops_segments D P T sn file l) end_text"
proof -
  have c: "sep (0x2C # rest)" for rest by (simp add: sep_def)
  note rb = P [unfolded parses_back_def]
  note ds = l [unfolded dated_def, simplified]
  show ?thesis
    unfolding pops_segments_def
    by (simp add: ok_str [OF D] ok_found [OF P] sn ok_field segment_simps c e rb ds)
qed

lemma pops_segments_effect: "effect_of (pops_segments D P T sn file l) l0 = l"
  unfolding pops_segments_def
  by (simp only: segment_simps effect_of.simps) simp

text \<open>
  The line itself, without reference to the parser: \<open>POPS,\<close>, the serial number, the file name,
  the time as \<open>yyyymmddThhmmss\<close>, and the numeric columns, each preceded by a comma.
\<close>

definition pops_columns :: "'f printers \<Rightarrow> 'f pops_locals \<Rightarrow> byte list list" where
  "pops_columns T l =
    [pr_float T (v_TimeSSM l),
     pr_u8 T (v_IntStatus l),
     pr_u8 T (v_DataStatus l),
     pr_u32 T (v_Part_Num l),
     pr_u32 T (v_HistSum l),
     pr_float T (v_PartCon_num_cc l),
     pr_u32 T (v_Baseline l),
     pr_u32 T (v_BLTH l),
     pr_float T (v_STD l),
     pr_float T (v_MaxSTD l),
     pr_float T (v_P_mbar l),
     pr_float T (v_MSTemp l),
     pr_float T (v_PumpLife l),
     pr_float T (v_WidthSTD l),
     pr_float T (v_WidthAvg l),
     pr_float T (v_Flow l),
     pr_float T (v_PumpFB l),
     pr_float T (v_LDTemp l),
     pr_float T (v_LaserFB l),
     pr_float T (v_LD_Mon l),
     pr_float T (v_AirTemp l),
     pr_float T (v_BatV l),
     pr_float T (v_Laser_Current l),
     pr_float T (v_Flow_Set l),
     pr_u32 T (v_BL_Start l),
     pr_float T (v_TH_Mult l),
     pr_u16 T (v_NBins l),
     pr_float T (v_logmin l),
     pr_float T (v_logmax l),
     pr_i32 T (v_Skip_Save l),
     pr_u32 T (v_MinPeakPts l),
     pr_u32 T (v_MaxPeakPts l),
     pr_i32 T (v_RawPts l),
     pr_u32 T (v_Bin01 l),
     pr_u32 T (v_Bin02 l),
     pr_u32 T (v_Bin03 l),
     pr_u32 T (v_Bin04 l),
     pr_u32 T (v_Bin05 l),
     pr_u32 T (v_Bin06 l),
     pr_u32 T (v_Bin07 l),
     pr_u32 T (v_Bin08 l),
     pr_u32 T (v_Bin09 l),
     pr_u32 T (v_Bin10 l),
     pr_u32 T (v_Bin11 l),
     pr_u32 T (v_Bin12 l),
     pr_u32 T (v_Bin13 l),
     pr_u32 T (v_Bin14 l),
     pr_u32 T (v_Bin15 l),
     pr_u32 T (v_Bin16 l)]"

definition pops_line :: "'f printers \<Rightarrow> byte list \<Rightarrow> byte list \<Rightarrow> 'f pops_locals \<Rightarrow> byte list" where
  "pops_line T sn file l =
     [0x50, 0x4F, 0x50, 0x53, 0x2C] @ sn @ [0x2C] @ file @ [0x2C]
     @ pr_digits T 4 (v_year l) @ pr_digits T 2 (v_month l) @ pr_digits T 2 (v_day l) @ [0x54]
     @ pr_digits T 2 (v_hour l) @ pr_digits T 2 (v_minute l) @ pr_digits T 2 (v_second l)
     @ concat (map (\<lambda>t. 0x2C # t) (pops_columns T l))"

lemma pops_segments_text:
  "text_of (pops_segments D P T sn file l) end_text = pops_line T sn file l @ end_text"
  unfolding pops_segments_def pops_line_def pops_columns_def
  by (simp only: segment_simps text_of.simps) simp

lemma pops_line_parses:
  assumes "matches_strings D" and "parses_back P T" and "dated l"
    and "0x2C \<notin> set sn" "0x2C \<notin> set file" and "sep end_text"
    and "ibuf s = pops_line T sn file l @ end_text"
  shows "\<exists>s'. run_chain (pops_chain D P) (s\<lparr>cp := 0\<rparr>, l0) = (False, s', l) \<and> ibuf s' = ibuf s"
  using run_chain_segments [OF pops_segments_ok [OF assms(1-6)], of "s\<lparr>cp := 0\<rparr>" l0] assms(7)
  by (auto simp: pops_segments_text pops_segments_ops [unfolded o_def] pops_segments_effect)

section \<open>What a line does to the telemetry record\<close>

text \<open>
  The record after a line with the values \<open>l\<close>, written as one record: every member but
  \<open>Laser_Current\<close>, \<open>Flow_Set\<close> and \<open>Srvr\<close> is the value of its column.
\<close>

definition recorded :: "('d, 'f) parse_ops \<Rightarrow> 'f pops_locals \<Rightarrow> ('d, 'f) POPS_t \<Rightarrow> ('d, 'f) POPS_t" where
  "recorded P l POPS =
     \<lparr>P_Time = stamp_op P (mktime (pops_tm l)) (v_TimeSSM l),
       P_Part_Num = v_Part_Num l,
       P_HistSum = v_HistSum l,
       P_PartCon_num_cc = v_PartCon_num_cc l,
       P_Baseline = v_Baseline l,
       P_BLTH = v_BLTH l,
       P_STD = v_STD l,
       P_MaxSTD = v_MaxSTD l,
       P_P_mbar = v_P_mbar l,
       P_MSTemp = v_MSTemp l,
       P_PumpLife = v_PumpLife l,
       P_WidthSTD = v_WidthSTD l,
       P_WidthAvg = v_WidthAvg l,
       P_Flow = v_Flow l,
       P_PumpFB = v_PumpFB l,
       P_LDTemp = v_LDTemp l,
       P_LaserFB = v_LaserFB l,
       P_LD_Mon = v_LD_Mon l,
       P_AirTemp = v_AirTemp l,
       P_BatV = v_BatV l,
       P_Laser_Current = P_Laser_Current POPS,
       P_Flow_Set = P_Flow_Set POPS,
       P_BL_Start = v_BL_Start l,
       P_TH_Mult = v_TH_Mult l,
       P_logmin = v_logmin l,
       P_logmax = v_logmax l,
       P_Skip_Save = v_Skip_Save l,
       P_MinPeakPts = v_MinPeakPts l,
       P_MaxPeakPts = v_MaxPeakPts l,
       P_RawPts = v_RawPts l,
       P_Bin01 = v_Bin01 l,
       P_Bin02 = v_Bin02 l,
       P_Bin03 = v_Bin03 l,
       P_Bin04 = v_Bin04 l,
       P_Bin05 = v_Bin05 l,
       P_Bin06 = v_Bin06 l,
       P_Bin07 = v_Bin07 l,
       P_Bin08 = v_Bin08 l,
       P_Bin09 = v_Bin09 l,
       P_Bin10 = v_Bin10 l,
       P_Bin11 = v_Bin11 l,
       P_Bin12 = v_Bin12 l,
       P_Bin13 = v_Bin13 l,
       P_Bin14 = v_Bin14 l,
       P_Bin15 = v_Bin15 l,
       P_Bin16 = v_Bin16 l,
       P_NBins = v_NBins l,
       P_IntStatus = v_IntStatus l,
       P_DataStatus = v_DataStatus l,
       P_Srvr = P_Srvr POPS,
       P_Stale = 0\<rparr>"

lemma pops_store_recorded:
  "pops_store l (POPS\<lparr>P_Time := stamp_op P (mktime (pops_tm l)) (v_TimeSSM l)\<rparr>) = recorded P l POPS"
  unfolding pops_store_def recorded_def Let_def by (rule POPS_t.equality) simp_all

lemma pops_store_keeps:
  "P_Laser_Current (pops_store l POPS) = P_Laser_Current POPS"
  "P_Flow_Set (pops_store l POPS) = P_Flow_Set POPS"
  "P_Srvr (pops_store l POPS) = P_Srvr POPS" "P_Time (pops_store l POPS) = P_Time POPS"
  "P_Stale (pops_store l POPS) = 0"
  by (simp_all add: pops_store_def Let_def)

text \<open>
  C16: A datagram of the instrument that is well formed (the serial number and the file name
  have no comma, each value is printed so that the library reads it back, and the date is
  not the one instant \<open>mktime\<close> cannot tell from an error) is taken completely: the time is the UTC
  time of the line plus the fraction of \<open>TimeSSM\<close>, every other column lands in its own member of
  the telemetry record with two exceptions, the record is marked fresh, and the buffer is left empty.
  The exceptions are \<open>Laser_Current\<close> and \<open>Flow_Set\<close>, columns of the line and members of the record,
  which keep their old values.
\<close>

theorem pops_line_recorded:
  assumes D: "consumes D" "matches_strings D" and P: "parses_back P T" and l: "dated l"
    and sn: "0x2C \<notin> set sn" "0x2C \<notin> set file" and e: "sep end_text"
    and s: "ibuf s = pops_line T sn file l @ end_text" and t: "mktime (pops_tm l) \<noteq> - 1"
  shows "\<exists>s'. udp_protocol_input D P l0 s POPS = (s', recorded P l POPS) \<and> ibuf s' = []"
proof -
  obtain s' where run: "run_chain (pops_chain D P) (s\<lparr>cp := 0\<rparr>, l0) = (False, s', l)"
    using pops_line_parses [OF D(2) P l sn e s] by blast
  have "report_ok_op D (nc s') s' = consumed (nc s') s'" using D(1) by (simp add: consumes_def)
  then show ?thesis
    by (simp add: udp_protocol_input_def run t pops_store_recorded consumed_def)
qed

text \<open>Decimal printers of fixed width, and the parsers that read them back: an instance.\<close>

fun digits :: "nat \<Rightarrow> int \<Rightarrow> byte list" where
  "digits 0 x = []"
| "digits (Suc n) x = digits n (x div 10) @ [0x30 + of_int (x mod 10)]"

definition undigits :: "byte list \<Rightarrow> int" where
  "undigits bs = foldl (\<lambda>v b. 10 * v + uint (b - 0x30)) 0 bs"

lemma length_digits [simp]: "length (digits n x) = n"
  by (induction n arbitrary: x) simp_all

lemma undigits_digits: "0 \<le> x \<Longrightarrow> x < 10 ^ n \<Longrightarrow> undigits (digits n x) = x"
proof (induction n arbitrary: x)
  case 0
  then show ?case by (simp add: undigits_def)
next
  case (Suc n)
  have "undigits (digits n (x div 10)) = x div 10" using Suc by auto
  moreover have "uint (word_of_int (x mod 10) :: byte) = x mod 10"
    by (simp add: uint_word_of_int_eq take_bit_eq_mod)
  ultimately show ?case by (simp add: undigits_def)
qed

definition fixed :: "nat \<Rightarrow> (int \<Rightarrow> 'a) \<Rightarrow> 'a \<Rightarrow> inbuf \<Rightarrow> bool \<times> 'a \<times> inbuf" where
  "fixed n f old s = (False, f (undigits (take n (drop (cp s) (ibuf s)))), s\<lparr>cp := cp s + n\<rparr>)"

lemma fixed_reads_back:
  "0 \<le> x \<Longrightarrow> x < 10 ^ n \<Longrightarrow> f x = y \<Longrightarrow> reads_back b (fixed n f) (digits n x) y"
  by (auto simp: reads_back_def fixed_def undigits_digits)

lemma fixed_word_reads_back:
  "2 ^ LENGTH('w) \<le> (10 :: int) ^ n \<Longrightarrow>
   reads_back b (fixed n word_of_int) (digits n (uint x)) (x :: 'w::len word)"
  by (rule fixed_reads_back) (auto intro: less_le_trans [OF uint_lt2p])

definition plain_printers :: "byte printers" where
  "plain_printers = \<lparr>pr_digits = digits, pr_float = (\<lambda>x. digits 3 (uint x)),
     pr_u8 = (\<lambda>x. digits 3 (uint x)), pr_u16 = (\<lambda>x. digits 5 (uint x)),
     pr_u32 = (\<lambda>x. digits 10 (uint x)), pr_i32 = (\<lambda>x. digits 10 (uint x))\<rparr>"

definition plain_parse_ops :: "(int \<times> byte, byte) parse_ops" where
  "plain_parse_ops = \<lparr>not_ndigits_op = (\<lambda>n. fixed n (\<lambda>x. x)), not_nfloat_op = fixed 3 word_of_int,
     not_uint8_op = fixed 3 word_of_int, not_uint16_op = fixed 5 word_of_int,
     not_uint32_op = fixed 10 word_of_int, not_int32_op = fixed 10 word_of_int,
     not_found_keep_op = (\<lambda>c s. if found_at c s < nc s then (False, s\<lparr>cp := found_at c s + 1\<rparr>)
        else (True, s\<lparr>cp := nc s\<rparr>)), stamp_op = Pair\<rparr>"

lemma found_at_append:
  "drop (cp s) (ibuf s) = t @ c # rest \<Longrightarrow> c \<notin> set t \<Longrightarrow> found_at c s = cp s + length t"
  by (auto simp: found_at_def takeWhile_append)

lemma plain_parses_back: "parses_back plain_parse_ops plain_printers"
proof -
  have "not_found_keep_op plain_parse_ops c s = (False, s\<lparr>cp := cp s + length t + 1\<rparr>)"
    if "drop (cp s) (ibuf s) = t @ c # rest" "c \<notin> set t" for c t s rest
    using arg_cong [OF that(1), of length] found_at_append [OF that]
    by (simp add: plain_parse_ops_def)
  then show ?thesis
    by (auto simp: parses_back_def fixed_reads_back fixed_word_reads_back)
      (simp_all add: plain_parse_ops_def plain_printers_def fixed_reads_back fixed_word_reads_back)
qed

definition plain_locals :: "byte pops_locals" where
  "plain_locals =
     \<lparr>v_TimeSSM = 1, v_IntStatus = 2, v_DataStatus = 3, v_Part_Num = 4, v_HistSum = 5, v_PartCon_num_cc = 6,
      v_Baseline = 7, v_BLTH = 8, v_STD = 9, v_MaxSTD = 10, v_P_mbar = 11, v_MSTemp = 12,
      v_PumpLife = 13, v_WidthSTD = 14, v_WidthAvg = 15, v_Flow = 16, v_PumpFB = 17, v_LDTemp = 18,
      v_LaserFB = 19, v_LD_Mon = 20, v_AirTemp = 21, v_BatV = 22, v_Laser_Current = 23, v_Flow_Set = 24,
      v_BL_Start = 25, v_TH_Mult = 26, v_NBins = 27, v_logmin = 28, v_logmax = 29, v_Skip_Save = 30,
      v_MinPeakPts = 31, v_MaxPeakPts = 32, v_RawPts = 33, v_Bin01 = 34, v_Bin02 = 35, v_Bin03 = 36,
      v_Bin04 = 37, v_Bin05 = 38, v_Bin06 = 39, v_Bin07 = 40, v_Bin08 = 41, v_Bin09 = 42,
      v_Bin10 = 43, v_Bin11 = 44, v_Bin12 = 45, v_Bin13 = 46, v_Bin14 = 47, v_Bin15 = 48,
      v_Bin16 = 49, v_year = 2025, v_month = 3, v_day = 28, v_hour = 17, v_minute = 38,
      v_second = 42\<rparr>"

definition plain_POPS :: "(int \<times> byte, byte) POPS_t" where
  "plain_POPS =
     \<lparr>P_Time = (0, 0), P_Part_Num = 0, P_HistSum = 0, P_PartCon_num_cc = 0, P_Baseline = 0, P_BLTH = 0,
      P_STD = 0, P_MaxSTD = 0, P_P_mbar = 0, P_MSTemp = 0, P_PumpLife = 0, P_WidthSTD = 0,
      P_WidthAvg = 0, P_Flow = 0, P_PumpFB = 0, P_LDTemp = 0, P_LaserFB = 0, P_LD_Mon = 0,
      P_AirTemp = 0, P_BatV = 0, P_Laser_Current = 0, P_Flow_Set = 0, P_BL_Start = 0, P_TH_Mult = 0,
      P_logmin = 0, P_logmax = 0, P_Skip_Save = 0, P_MinPeakPts = 0, P_MaxPeakPts = 0, P_RawPts = 0,
      P_Bin01 = 0, P_Bin02 = 0, P_Bin03 = 0, P_Bin04 = 0, P_Bin05 = 0, P_Bin06 = 0,
      P_Bin07 = 0, P_Bin08 = 0, P_Bin09 = 0, P_Bin10 = 0, P_Bin11 = 0, P_Bin12 = 0,
      P_Bin13 = 0, P_Bin14 = 0, P_Bin15 = 0, P_Bin16 = 0, P_NBins = 0, P_IntStatus = 0,
      P_DataStatus = 0, P_Srvr = 0, P_Stale = 0\<rparr>"

text \<open>A line of 28 March 2025, 17:38:42 UTC, which is 1743183522 seconds after the epoch.\<close>

theorem pops_line_recorded_witness:
  "\<exists>s'. udp_protocol_input plain_dasio plain_parse_ops plain_locals
     \<lparr>ibuf = pops_line plain_printers [0x31] [0x32, 0x33] plain_locals @ [0x0D, 0x0A], cp = 0\<rparr>
     plain_POPS
   = (s', recorded plain_parse_ops plain_locals
            plain_POPS) \<and> ibuf s' = []"
proof (rule pops_line_recorded)
  show "dated plain_locals" by (simp add: dated_def plain_locals_def)
  show "sep [0x0D, 0x0A]" by (simp add: sep_def)
  have "mktime (pops_tm plain_locals) = 1743183522" by code_simp
  then show "mktime (pops_tm plain_locals) \<noteq> - 1" by simp
qed (simp_all add: plain_parses_back)

text \<open>
  A datagram that does not start with \<open>POPS,\<close> changes nothing of the telemetry record. If
  it differs from \<open>POPS,\<close> at some byte, all of it is discarded; if it is a proper prefix
  of \<open>POPS,\<close> it stays in the buffer, in front of the next datagram.
\<close>

lemma foreign_datagram:
  assumes D: "consumes D" "matches_strings D"
    and s: "match_len [0x50, 0x4F, 0x50, 0x53, 0x2C] (ibuf s) < 5"
  shows "snd (udp_protocol_input D P l0 s POPS) = POPS
    \<and> ibuf (fst (udp_protocol_input D P l0 s POPS)) =
        (if match_len [0x50, 0x4F, 0x50, 0x53, 0x2C] (ibuf s) < nc s then [] else ibuf s)"
  using assms
  by (simp add: udp_protocol_input_def pops_chain_def p_str_def matches_strings_def consumes_def
      consumed_def del: match_len.simps)

end
