(* ===== verification/PopsClient.thy ===== *)
theory PopsClient
  imports PopsUdp PopsSrvr
begin

text \<open>
  The driver's client of the POPS server and its command reader (\<open>POPS_client\<close> and
  \<open>POPS_Cmd\<close> of \<open>POPS/POPS.cc\<close>), and the path of a command: reader, client, server, and back to
  the telemetry record.
\<close>

section \<open>State\<close>

text \<open>
  What the client uses of its socket besides writing to it. The state \<open>'o\<close> of the socket is the
  library's; \<open>is_connected_op\<close> is \<open>socket_state == Socket_connected\<close>. \<open>reset\<close> and \<open>connect_later\<close>
  also act on the timer and the flags, members of the interface that the driver uses too.
\<close>

record 'o sock_ops =
  is_negotiated_op :: "'o \<Rightarrow> bool"
  is_connected_op :: "'o \<Rightarrow> bool"
  reset_op :: "nat option \<times> u32 \<times> 'o \<Rightarrow> bool \<times> nat option \<times> u32 \<times> 'o"
  connect_later_op :: "nat \<Rightarrow> nat option \<times> u32 \<times> 'o \<Rightarrow> nat option \<times> u32 \<times> 'o"
  set_retries_op :: "int \<Rightarrow> nat \<Rightarrow> nat \<Rightarrow> 'o \<Rightarrow> 'o"
  set_connect_timeout_op :: "nat \<Rightarrow> 'o \<Rightarrow> 'o"

text \<open>
  The client with the global telemetry record. \<open>cTO\<close> is the time a started timer was set to.
\<close>

record ('d, 'f, 'o) clt =
  POPS :: "('d, 'f) POPS_t"
  srvr_Stale :: byte
  cTO :: "nat option"
  cflags :: u32
  csock :: 'o

text \<open>
  The constructor; \<open>inst\<close> is the static member \<open>instance\<close>, and \<open>gflag0\<close> the bit \<open>gflag(0)\<close>.
\<close>

definition POPS_client ::
  "'o sock_ops \<Rightarrow> u32 \<Rightarrow> u32 \<Rightarrow> 'o \<Rightarrow> ('d, 'f) POPS_t \<Rightarrow> ('d, 'f, 'o) clt option \<Rightarrow>
   fault + ('d, 'f, 'o) clt" where
  "POPS_client K gflag0 flags0 sock POPS0 inst =
     (let c = \<lparr>POPS = POPS0, srvr_Stale = 0, cTO = None, cflags = flags0, csock = sock\<rparr>;
          c = c\<lparr>POPS := (POPS c)\<lparr>P_Srvr := 0\<rparr>\<rparr>
      in if inst \<noteq> None then Inl Assert_failed
         else
           let c = c\<lparr>csock := set_retries_op K (- 1) 5 5 (csock c)\<rparr>;
               c = c\<lparr>csock := set_connect_timeout_op K 5 (csock c)\<rparr>;
               c = c\<lparr>cflags := cflags c OR gflag0\<rparr>
           in Inr c)"

section \<open>Operations\<close>

text \<open>A C string: the bytes before the first zero.\<close>

definition c_string :: "byte list \<Rightarrow> byte list" where
  "c_string bs = takeWhile (\<lambda>b. b \<noteq> 0) bs"

definition forward ::
  "'o chan_ops \<Rightarrow> 'o sock_ops \<Rightarrow> u32 \<Rightarrow> byte list \<Rightarrow> ('d, 'f, 'o) clt \<Rightarrow> ('d, 'f, 'o) clt" where
  "forward C K Fl_Timeout cmd c =
     (if is_negotiated_op K (csock c)
      then
        let c = c\<lparr>csock := snd (iwrite_op C (c_string cmd) (csock c))\<rparr>;
            c = c\<lparr>cTO := Some 3\<rparr>
        in c\<lparr>cflags := cflags c OR Fl_Timeout\<rparr>
      else c)"

definition app_connected ::
  "'o chan_ops \<Rightarrow> 'o sock_ops \<Rightarrow> u32 \<Rightarrow> ('d, 'f, 'o) clt \<Rightarrow> bool \<times> ('d, 'f, 'o) clt" where
  "app_connected C K Fl_Timeout c =
     (let c = forward C K Fl_Timeout [0x56, 0x0A] c;
          c = c\<lparr>srvr_Stale := srvr_Stale c + 1\<rparr>
      in (False, c))"

definition isdigit :: "byte \<Rightarrow> bool" where
  "isdigit b \<longleftrightarrow> 0x30 \<le> b \<and> b \<le> 0x39"

function skip_line :: "inbuf \<Rightarrow> inbuf" where
  "skip_line s = (if cp s < nc s \<and> ibuf s ! cp s \<noteq> 0x0A then skip_line (s\<lparr>cp := cp s + 1\<rparr>) else s)"
  by pat_completeness auto
termination
  by (relation "measure (\<lambda>s. nc s - cp s)") auto

declare skip_line.simps [simp del]

text \<open>A status response: a number and a newline; \<open>||\<close> tries the newline only after the number.\<close>

definition status_response ::
  "dasio \<Rightarrow> ('d, 'f) parse_ops \<Rightarrow> inbuf \<Rightarrow> ('d, 'f, 'o) clt \<Rightarrow> inbuf \<times> ('d, 'f, 'o) clt" where
  "status_response D P s c =
     (let (failed, x, s) = not_uint8_op P (P_Srvr (POPS c)) s;
          c = c\<lparr>POPS := (POPS c)\<lparr>P_Srvr := x\<rparr>\<rparr>;
          (failed, s) = (if failed then (True, s) else not_str_op D [0x0A] s);
          s = (if failed then report_err_op D s else s)
      in (s, c))"

text \<open>Any other line is reported; its newline is overwritten by a zero.\<close>

definition text_response :: "inbuf \<Rightarrow> inbuf" where
  "text_response s =
     (let s = skip_line s
      in if cp s < nc s then s\<lparr>ibuf := (ibuf s)[cp s := 0], cp := cp s + 1\<rparr> else s)"

partial_function (option) client_loop ::
  "dasio \<Rightarrow> ('d, 'f) parse_ops \<Rightarrow> inbuf \<Rightarrow> ('d, 'f, 'o) clt \<Rightarrow> (inbuf \<times> ('d, 'f, 'o) clt) option" where
  "client_loop D P s c =
     (if cp s < nc s
      then if isdigit (ibuf s ! cp s)
        then (case status_response D P s c of (s, c) \<Rightarrow> client_loop D P s c)
        else client_loop D P (text_response s) c
      else Some (s, c))"

definition client_app_input ::
  "dasio \<Rightarrow> ('d, 'f) parse_ops \<Rightarrow> u32 \<Rightarrow> inbuf \<Rightarrow> ('d, 'f, 'o) clt \<Rightarrow>
   (bool \<times> inbuf \<times> ('d, 'f, 'o) clt) option" where
  "client_app_input D P Fl_Timeout s c =
     (case client_loop D P (s\<lparr>cp := 0\<rparr>) c of
        None \<Rightarrow> None
      | Some (s, c) \<Rightarrow>
          let c = c\<lparr>cTO := None\<rparr>;
              c = c\<lparr>cflags := cflags c AND NOT Fl_Timeout\<rparr>;
              c = c\<lparr>srvr_Stale := 0\<rparr>
          in Some (False, report_ok_op D (nc s) s, c))"

definition protocol_timeout ::
  "'o sock_ops \<Rightarrow> ('d, 'f, 'o) clt \<Rightarrow> bool \<times> ('d, 'f, 'o) clt" where
  "protocol_timeout K c =
     (let c = c\<lparr>cTO := None\<rparr>;
          c = c\<lparr>POPS := (POPS c)\<lparr>P_Srvr := 0\<rparr>\<rparr>;
          (rv, to, fl, sock) = reset_op K (cTO c, cflags c, csock c)
      in (rv, c\<lparr>cTO := to, cflags := fl, csock := sock\<rparr>))"

definition app_process_eof ::
  "'o sock_ops \<Rightarrow> ('d, 'f, 'o) clt \<Rightarrow> bool \<times> ('d, 'f, 'o) clt" where
  "app_process_eof K c =
     (let c = c\<lparr>POPS := (POPS c)\<lparr>P_Srvr := 0\<rparr>\<rparr>;
          (to, fl, sock) = connect_later_op K 5 (cTO c, cflags c, csock c)
      in (False, c\<lparr>cTO := to, cflags := fl, csock := sock\<rparr>))"

definition tm_sync ::
  "'o chan_ops \<Rightarrow> 'o sock_ops \<Rightarrow> u32 \<Rightarrow> ('d, 'f, 'o) clt \<Rightarrow> bool \<times> ('d, 'f, 'o) clt" where
  "tm_sync C K Fl_Timeout c =
     (let c = (if P_Stale (POPS c) < 255
               then c\<lparr>POPS := (POPS c)\<lparr>P_Stale := P_Stale (POPS c) + 1\<rparr>\<rparr> else c)
      in if P_Stale (POPS c) > 2 \<and> is_connected_op K (csock c)
         then if srvr_Stale c = 0 then app_connected C K Fl_Timeout c
           else (False, if srvr_Stale c < 255 then c\<lparr>srvr_Stale := srvr_Stale c + 1\<rparr> else c)
         else (False, c))"

definition connect_failed :: "('d, 'f, 'o) clt \<Rightarrow> bool \<times> ('d, 'f, 'o) clt" where
  "connect_failed c = (False, c)"

text \<open>\<open>UserPkts_UDP::process_eof\<close>; \<open>'i\<close> is the state of the receiver's interface.\<close>

definition udp_process_eof :: "('i \<Rightarrow> bool \<times> 'i) \<Rightarrow> 'i \<Rightarrow> bool \<times> 'i" where
  "udp_process_eof reset i = reset i"

text \<open>The command reader; \<open>None\<close> for the client is a null \<open>POPS_client::instance\<close>.\<close>

definition cmd_app_input ::
  "dasio \<Rightarrow> 'o chan_ops \<Rightarrow> 'o sock_ops \<Rightarrow> u32 \<Rightarrow> inbuf \<Rightarrow> ('d, 'f, 'o) clt option \<Rightarrow>
   fault + bool \<times> inbuf \<times> ('d, 'f, 'o) clt option" where
  "cmd_app_input D C K Fl_Timeout s inst =
     (if nc s > 0
      then bind_sum
        (if ibuf s ! 0 \<in> {0x42, 0x45, 0x46}
         then (case inst of
             None \<Rightarrow> Inl Assert_failed
           | Some c \<Rightarrow> Inr (False, Some (forward C K Fl_Timeout (ibuf s) c)))
         else if ibuf s ! 0 = 0x51 then Inr (True, inst)
         else Inr (False, inst))
        (\<lambda>(rv, inst). Inr (rv, report_ok_op D (nc s) s, inst))
      else Inr (False, s, inst))"

section \<open>Reading the responses\<close>

text \<open>
  What the client relies on: \<open>not_uint8\<close> reads a number that fits, and goes forward, within the
  digits, on one that does not.
\<close>

definition decimal :: "byte list \<Rightarrow> nat" where
  "decimal ds = foldl (\<lambda>v b. 10 * v + unat (b - 0x30)) 0 ds"

definition digits_at :: "inbuf \<Rightarrow> byte list" where
  "digits_at s = takeWhile isdigit (drop (cp s) (ibuf s))"

definition reads_numbers :: "('d, 'f) parse_ops \<Rightarrow> bool" where
  "reads_numbers P \<longleftrightarrow> (\<forall>old s. digits_at s \<noteq> [] \<longrightarrow>
     (if decimal (digits_at s) < 256
      then not_uint8_op P old s
        = (False, of_nat (decimal (digits_at s)), s\<lparr>cp := cp s + length (digits_at s)\<rparr>)
      else \<exists>f x k. not_uint8_op P old s = (f, x, s\<lparr>cp := cp s + k\<rparr>)
        \<and> 0 < k \<and> k \<le> length (digits_at s)))"

lemma skip_line_eq:
  "cp s \<le> nc s \<Longrightarrow> skip_line s = s\<lparr>cp := found_at 0x0A s\<rparr>"
proof (induction s rule: skip_line.induct)
  case (1 s)
  show ?case
  proof (cases "cp s < nc s \<and> ibuf s ! cp s \<noteq> 0x0A")
    case True
    then have "found_at 0x0A (s\<lparr>cp := cp s + 1\<rparr>) = found_at 0x0A s"
      using Cons_nth_drop_Suc [of "cp s" "ibuf s", symmetric] by (simp add: found_at_def)
    then show ?thesis using 1 True by (subst skip_line.simps) simp
  next
    case False
    have "found_at 0x0A s = cp s"
    proof (cases "cp s < nc s")
      case True
      then show ?thesis
        using False Cons_nth_drop_Suc [of "cp s" "ibuf s", symmetric] by (simp add: found_at_def)
    next
      case False
      then show ?thesis by (simp add: found_at_def)
    qed
    then show ?thesis using False by (subst skip_line.simps) auto
  qed
qed

lemma found_at_le: "cp s \<le> nc s \<Longrightarrow> found_at c s \<le> nc s"
  using length_takeWhile_le [of "\<lambda>b. b \<noteq> c" "drop (cp s) (ibuf s)"] by (simp add: found_at_def)

text \<open>The client is changed by a response in \<open>Srvr\<close> only; a response always goes forward.\<close>

definition only_Srvr :: "('d, 'f, 'o) clt \<Rightarrow> ('d, 'f, 'o) clt \<Rightarrow> bool" where
  "only_Srvr c c' \<longleftrightarrow> (\<exists>x. c' = c\<lparr>POPS := (POPS c)\<lparr>P_Srvr := x\<rparr>\<rparr>)"

lemma only_Srvr_refl: "only_Srvr c c"
  unfolding only_Srvr_def by (rule exI [of _ "P_Srvr (POPS c)"]) simp

lemma only_Srvr_trans: "only_Srvr c d \<Longrightarrow> only_Srvr d e \<Longrightarrow> only_Srvr c e"
  by (auto simp: only_Srvr_def)

lemma text_response_eq:
  "cp s \<le> nc s \<Longrightarrow> text_response s = (if found_at 0x0A s < nc s
     then s\<lparr>ibuf := (ibuf s)[found_at 0x0A s := 0], cp := found_at 0x0A s + 1\<rparr>
     else s\<lparr>cp := found_at 0x0A s\<rparr>)"
  by (simp add: text_response_def skip_line_eq Let_def)

lemma text_response_forward:
  assumes "cp s < nc s"
  shows "nc (text_response s) = nc s \<and> cp s < cp (text_response s) \<and> cp (text_response s) \<le> nc s"
proof -
  have "cp s \<le> found_at 0x0A s" by (simp add: found_at_def)
  then show ?thesis
    using assms found_at_le [of s "0x0A"] by (auto simp: text_response_eq)
qed

lemma status_response_forward:
  assumes "matches_strings D" and "reports_only D" and "reads_numbers P"
    and "cp s < nc s" and "isdigit (ibuf s ! cp s)"
  shows "\<exists>s' c'. status_response D P s c = (s', c') \<and> ibuf s' = ibuf s \<and> cp s < cp s'
    \<and> cp s' \<le> nc s \<and> only_Srvr c c'"
proof -
  have ds: "digits_at s \<noteq> []" "cp s + length (digits_at s) \<le> nc s"
    using assms(4,5) Cons_nth_drop_Suc [of "cp s" "ibuf s", symmetric]
      length_takeWhile_le [of isdigit "drop (cp s) (ibuf s)"]
    by (simp_all add: digits_at_def)
  obtain f x k where u: "not_uint8_op P (P_Srvr (POPS c)) s = (f, x, s\<lparr>cp := cp s + k\<rparr>)"
      "0 < k" "k \<le> length (digits_at s)"
  proof (cases "decimal (digits_at s) < 256")
    case True
    then show ?thesis using assms(3) ds(1) that unfolding reads_numbers_def by auto
  next
    case False
    then show ?thesis using assms(3) ds(1) that unfolding reads_numbers_def by metis
  qed
  have m: "match_len [0x0A] bs \<le> length bs" for bs :: "byte list" by (cases bs) simp_all
  have "only_Srvr c (c\<lparr>POPS := (POPS c)\<lparr>P_Srvr := x\<rparr>\<rparr>)" by (auto simp: only_Srvr_def)
  moreover have "err_op = report_err_op D \<Longrightarrow> err_op t = t" for err_op t
    using assms(2) by (simp add: reports_only_def)
  moreover have "cp s + k + match_len [0x0A] (drop (cp s + k) (ibuf s)) \<le> nc s"
    using u(3) ds(2) m [of "drop (cp s + k) (ibuf s)"] by simp
  ultimately show ?thesis
    using u ds assms(1)
    by (auto simp: status_response_def matches_strings_def Let_def)
qed

lemma client_loop_returns:
  assumes "matches_strings D" and "reports_only D" and "reads_numbers P" and "cp s \<le> nc s"
  shows "\<exists>s' c'. client_loop D P s c = Some (s', c') \<and> cp s' = nc s' \<and> only_Srvr c c'"
  using assms(4)
proof (induction "nc s - cp s" arbitrary: s c rule: less_induct)
  case less
  consider "\<not> cp s < nc s" | "cp s < nc s" "isdigit (ibuf s ! cp s)"
    | "cp s < nc s" "\<not> isdigit (ibuf s ! cp s)" by blast
  then show ?case
  proof cases
    case 1
    then show ?thesis using only_Srvr_refl less.prems by (subst client_loop.simps) simp
  next
    case 2
    obtain s1 c1 where s1: "status_response D P s c = (s1, c1)" "ibuf s1 = ibuf s" "cp s < cp s1"
        "cp s1 \<le> nc s" "only_Srvr c c1"
      using status_response_forward [OF assms(1-3) 2] by blast
    then obtain s2 c2 where "client_loop D P s1 c1 = Some (s2, c2)" "cp s2 = nc s2"
        "only_Srvr c1 c2"
      using less.hyps [of s1 c1] 2 by (metis diff_less_mono2)
    then show ?thesis
      using 2 s1 only_Srvr_trans by (subst client_loop.simps) auto
  next
    case 3
    have "nc (text_response s) - cp (text_response s) < nc s - cp s"
      "cp (text_response s) \<le> nc (text_response s)"
      using text_response_forward [OF 3(1)] 3(1) by (auto intro: diff_less_mono2)
    then show ?thesis
      using less.hyps [of "text_response s" c] 3 by (subst client_loop.simps) simp
  qed
qed

lemma client_app_input_returns:
  assumes "consumes D" and "matches_strings D" and "reports_only D" and "reads_numbers P"
  shows "\<exists>c1. client_app_input D P Fl_Timeout s c = Some (False, \<lparr>ibuf = [], cp = 0\<rparr>,
      c1\<lparr>cTO := None, cflags := cflags c AND NOT Fl_Timeout, srvr_Stale := 0\<rparr>)
    \<and> only_Srvr c c1"
proof -
  obtain s' c' where r: "client_loop D P (s\<lparr>cp := 0\<rparr>) c = Some (s', c')" "cp s' = nc s'" "only_Srvr c c'"
    using client_loop_returns [OF assms(2-4), of "s\<lparr>cp := 0\<rparr>" c] by auto
  have "report_ok_op D (nc s') s' = \<lparr>ibuf = [], cp = 0\<rparr>"
    using assms(1) r(2) by (simp add: consumes_def consumed_def)
  moreover have "cflags c' = cflags c" using r(3) by (auto simp: only_Srvr_def)
  ultimately have "client_app_input D P Fl_Timeout s c = Some (False, \<lparr>ibuf = [], cp = 0\<rparr>,
      c'\<lparr>cTO := None, cflags := cflags c AND NOT Fl_Timeout, srvr_Stale := 0\<rparr>)"
    by (simp add: client_app_input_def r(1) Let_def)
  with r(3) show ?thesis by blast
qed

text \<open>A response that is no number up to its newline is skipped.\<close>

lemma client_loop_error:
  assumes "drop (cp s) (ibuf s) = t @ 0x0A # rest" and "t \<noteq> []" and "\<not> isdigit (hd t)"
    and "0x0A \<notin> set t"
  shows "\<exists>s'. client_loop D P s c = client_loop D P s' c \<and> drop (cp s') (ibuf s') = rest"
proof -
  have len: "cp s + length t < nc s" using arg_cong [OF assms(1), of length] by simp
  have f: "found_at 0x0A s = cp s + length t" using found_at_append [OF assms(1,4)] .
  have d: "\<not> isdigit (ibuf s ! cp s)"
    using arg_cong [OF assms(1), of "\<lambda>xs. xs ! 0"] assms(2,3) len by (simp add: hd_conv_nth nth_append)
  have "drop (Suc (cp s + length t)) (ibuf s) = drop (Suc (length t)) (drop (cp s) (ibuf s))"
    by (simp add: add.commute)
  then have "drop (cp (text_response s)) (ibuf (text_response s)) = rest"
    using len assms(1) by (simp add: text_response_eq f drop_update_cancel)
  then show ?thesis using len d by (intro exI [of _ "text_response s"]) (subst client_loop.simps, simp)
qed

lemma client_loop_errors:
  "drop (cp s) (ibuf s) = concat (replicate n Error_str) @ rest \<Longrightarrow>
   \<exists>s'. client_loop D P s c = client_loop D P s' c \<and> drop (cp s') (ibuf s') = rest"
proof (induction n arbitrary: s)
  case 0
  then show ?case by auto
next
  case (Suc n)
  have "Error_str = butlast Error_str @ [0x0A]" by (simp add: Error_str_def)
  then have "drop (cp s) (ibuf s) = butlast Error_str @ 0x0A # concat (replicate n Error_str) @ rest"
    using Suc.prems by (metis append.assoc append_Cons append_Nil concat.simps(2) replicate_Suc)
  moreover have "butlast Error_str \<noteq> [] \<and> \<not> isdigit (hd (butlast Error_str))
      \<and> 0x0A \<notin> set (butlast Error_str)"
    by (simp add: Error_str_def isdigit_def)
  ultimately obtain s1 where s1: "client_loop D P s c = client_loop D P s1 c"
      "drop (cp s1) (ibuf s1) = concat (replicate n Error_str) @ rest"
    using client_loop_error by blast
  then show ?case using Suc.IH by metis
qed

lemma client_loop_status:
  assumes "matches_strings D" and "reads_numbers P"
    and "drop (cp s) (ibuf s) = status_line st"
  shows "\<exists>s'. client_loop D P s c
    = Some (s', c\<lparr>POPS := (POPS c)\<lparr>P_Srvr := of_nat (status_num st)\<rparr>\<rparr>) \<and> cp s' = nc s'"
proof -
  let ?d = "0x30 + word_of_nat (status_num st) :: byte"
  have bs: "drop (cp s) (ibuf s) = [?d, 0x0A]" using assms(3) by (simp add: status_line_def)
  have len: "nc s = cp s + 2" using arg_cong [OF bs, of length] by simp
  have at: "ibuf s ! cp s = ?d" using arg_cong [OF bs, of "\<lambda>xs. xs ! 0"] len by simp
  have rest: "drop (Suc (cp s)) (ibuf s) = [0x0A]"
    using arg_cong [OF bs, of tl] by (simp add: tl_drop drop_Suc)
  have d: "isdigit ?d" "unat (?d - 0x30) = status_num st"
    by (cases st; simp add: isdigit_def)+
  have ds: "digits_at s = [?d]" using d(1) by (simp add: digits_at_def bs isdigit_def)
  have "decimal (digits_at s) = status_num st" using d(2) by (simp add: ds decimal_def)
  moreover have "status_num st < 256" by (cases st) simp_all
  ultimately have u: "not_uint8_op P x s = (False, of_nat (status_num st), s\<lparr>cp := cp s + 1\<rparr>)" for x
    using assms(2) ds unfolding reads_numbers_def by (metis One_nat_def length_Cons list.distinct(1) list.size(3))
  have "status_response D P s c
    = (s\<lparr>cp := cp s + 2\<rparr>, c\<lparr>POPS := (POPS c)\<lparr>P_Srvr := of_nat (status_num st)\<rparr>\<rparr>)"
    using assms(1) by (simp add: status_response_def u matches_strings_def rest Let_def)
  then have "client_loop D P s c = client_loop D P (s\<lparr>cp := cp s + 2\<rparr>)
      (c\<lparr>POPS := (POPS c)\<lparr>P_Srvr := of_nat (status_num st)\<rparr>\<rparr>)"
    using len at d(1) by (subst client_loop.simps) simp
  then show ?thesis using len by (subst (asm) (2) client_loop.simps) simp
qed

section \<open>Properties\<close>

lemma client_reads_answer:
  assumes "consumes D" and "matches_strings D" and "reads_numbers P"
  shows "client_app_input D P Fl_Timeout
      \<lparr>ibuf = concat (replicate n Error_str) @ status_line st, cp = k\<rparr> c
    = Some (False, \<lparr>ibuf = [], cp = 0\<rparr>, c\<lparr>POPS := (POPS c)\<lparr>P_Srvr := of_nat (status_num st)\<rparr>,
        cTO := None, cflags := cflags c AND NOT Fl_Timeout, srvr_Stale := 0\<rparr>)"
proof -
  let ?s = "\<lparr>ibuf = concat (replicate n Error_str) @ status_line st, cp = 0\<rparr>"
  obtain s1 where s1: "client_loop D P ?s c = client_loop D P s1 c"
      "drop (cp s1) (ibuf s1) = status_line st"
    using client_loop_errors [of ?s n "status_line st" D P c] by auto
  obtain s2 where s2: "client_loop D P s1 c
      = Some (s2, c\<lparr>POPS := (POPS c)\<lparr>P_Srvr := of_nat (status_num st)\<rparr>\<rparr>)" "cp s2 = nc s2"
    using client_loop_status [OF assms(2,3) s1(2), of c] by blast
  have "report_ok_op D (nc s2) s2 = \<lparr>ibuf = [], cp = 0\<rparr>"
    using assms(1) s2(2) by (simp add: consumes_def consumed_def)
  then show ?thesis by (simp add: client_app_input_def s1(1) s2(1) Let_def)
qed

text \<open>
  C6: A command travels from the command channel of the driver to the server and its effect
  back to the telemetry. For each of the letters \<open>B\<close>, \<open>E\<close> and \<open>F\<close>, when the connection is
  negotiated: the reader hands the line to the client, which sends it unchanged and starts a timer
  of 3 seconds with its flag. The server, having nothing else to read, carries it out: \<open>B\<close> runs the
  start script, \<open>E\<close> tells the POPS software to stop when it is active and shuts the computer down
  otherwise, \<open>F\<close> shuts it down; nothing else is run or sent, and the answer is the line with the
  status reached. The client's reading of the answer stops the timer, clears the flag, and changes
  exactly one member of the telemetry record: \<open>Srvr\<close> becomes that status.
\<close>

theorem command_round_trip:
  assumes D: "consumes D" "matches_strings D" and P: "reads_numbers P"
    and C: "appends C written" "appends C2 written2" "appends U stops"
    and letter: "letter \<in> {0x42, 0x45, 0x46}" and neg: "is_negotiated_op K (csock c)"
  shows "\<exists>c1 rv s1 v1 c2.
      cmd_app_input D C K Fl_Timeout \<lparr>ibuf = [letter, 0x0A], cp = 0\<rparr> (Some c)
        = Inr (False, \<lparr>ibuf = [], cp = 0\<rparr>, Some c1)
    \<and> written (csock c1) = written (csock c) @ [letter, 0x0A]
    \<and> cTO c1 = Some 3 \<and> cflags c1 = cflags c OR Fl_Timeout \<and> POPS c1 = POPS c
    \<and> srvr_protocol_input D C2 U \<lparr>ibuf = [letter, 0x0A], cp = 0\<rparr> v = (rv, s1, v1) \<and> ibuf s1 = []
    \<and> POPS_status v1 = (if letter = 0x42 then POPS_active else POPS_shutdown)
    \<and> systems v1 = systems v @ (if letter = 0x42 then [start_POPS]
        else if letter = 0x45 \<and> POPS_status v = POPS_active then [] else [shutdown_now])
    \<and> stops (sdchan v1) = stops (sdchan v)
        @ (if letter = 0x45 \<and> POPS_status v = POPS_active then [0x38] else [])
    \<and> written2 (schan v1) = written2 (schan v) @ status_line (POPS_status v1)
    \<and> client_app_input D P Fl_Timeout \<lparr>ibuf = status_line (POPS_status v1), cp = 0\<rparr> c1
        = Some (False, \<lparr>ibuf = [], cp = 0\<rparr>, c2)
    \<and> POPS c2 = (POPS c)\<lparr>P_Srvr := of_nat (status_num (POPS_status v1))\<rparr>
    \<and> cTO c2 = None \<and> cflags c2 AND Fl_Timeout = 0 \<and> srvr_Stale c2 = 0"
proof -
  define c1 where "c1 = forward C K Fl_Timeout [letter, 0x0A] c"
  have str: "c_string [letter, 0x0A] = [letter, 0x0A]" using letter by (auto simp: c_string_def)
  have c1: "written (csock c1) = written (csock c) @ [letter, 0x0A]" "cTO c1 = Some 3"
    "cflags c1 = cflags c OR Fl_Timeout" "POPS c1 = POPS c"
    by (simp_all add: c1_def forward_def neg str appends_iwrite [OF C(1)])
  have cmd: "cmd_app_input D C K Fl_Timeout \<lparr>ibuf = [letter, 0x0A], cp = 0\<rparr> (Some c)
      = Inr (False, \<lparr>ibuf = [], cp = 0\<rparr>, Some c1)"
    using letter D(1) by (simp add: cmd_app_input_def c1_def consumes_def consumed_def)
  obtain rv s1 v1 where srv: "srvr_protocol_input D C2 U \<lparr>ibuf = [letter, 0x0A], cp = 0\<rparr> v
      = (rv, s1, v1)" by (rule prod_cases3)
  have v1: "POPS_status v1 = (if letter = 0x42 then POPS_active else POPS_shutdown)"
    "systems v1 = systems v @ (if letter = 0x42 then [start_POPS]
       else if letter = 0x45 \<and> POPS_status v = POPS_active then [] else [shutdown_now])"
    "stops (sdchan v1) = stops (sdchan v)
       @ (if letter = 0x45 \<and> POPS_status v = POPS_active then [0x38] else [])"
    "written2 (schan v1) = written2 (schan v) @ status_line (POPS_status v1)" "ibuf s1 = []"
    using srvr_read_effect [OF D(1) C(2,3), of "\<lparr>ibuf = [letter, 0x0A], cp = 0\<rparr>" "[letter]" "[]" v rv s1 v1]
      letter srv by (auto simp: next_status_def errors_of_def)
  define c2 where "c2 = c1\<lparr>POPS := (POPS c1)\<lparr>P_Srvr := of_nat (status_num (POPS_status v1))\<rparr>,
    cTO := None, cflags := cflags c1 AND NOT Fl_Timeout, srvr_Stale := 0\<rparr>"
  have c2: "POPS c2 = (POPS c)\<lparr>P_Srvr := of_nat (status_num (POPS_status v1))\<rparr>" "cTO c2 = None"
    "cflags c2 AND Fl_Timeout = 0" "srvr_Stale c2 = 0"
    by (simp_all add: c2_def c1(4) and.assoc)
  have reply: "client_app_input D P Fl_Timeout \<lparr>ibuf = status_line (POPS_status v1), cp = 0\<rparr> c1
    = Some (False, \<lparr>ibuf = [], cp = 0\<rparr>, c2)"
    using client_reads_answer [OF D P, of Fl_Timeout 0 "POPS_status v1" 0 c1] by (simp add: c2_def)
  show ?thesis
    by (intro exI [of _ c1] exI [of _ rv] exI [of _ s1] exI [of _ v1] exI [of _ c2] conjI cmd c1 srv v1 reply c2)
qed

text \<open>An instance: a decimal parser, and a socket whose state is what has been written to it.\<close>

definition decimal_parse_ops :: "(int \<times> byte, byte) parse_ops" where
  "decimal_parse_ops = plain_parse_ops\<lparr>not_uint8_op := (\<lambda>old s.
     (\<not> decimal (digits_at s) < 256,
      if decimal (digits_at s) < 256 then of_nat (decimal (digits_at s)) else old,
      s\<lparr>cp := cp s + length (digits_at s)\<rparr>))\<rparr>"

lemma decimal_reads_numbers [simp]: "reads_numbers decimal_parse_ops"
  by (auto simp: reads_numbers_def decimal_parse_ops_def intro!: exI)

definition up_sock :: "byte list sock_ops" where
  "up_sock = \<lparr>is_negotiated_op = (\<lambda>_. True), is_connected_op = (\<lambda>_. True),
     reset_op = (\<lambda>out. (False, out)), connect_later_op = (\<lambda>_ out. out),
     set_retries_op = (\<lambda>_ _ _ out. out), set_connect_timeout_op = (\<lambda>_ out. out)\<rparr>"

definition plain_clt :: "(int \<times> byte, byte, byte list) clt" where
  "plain_clt = \<lparr>POPS = plain_POPS, srvr_Stale = 0, cTO = None, cflags = 0, csock = []\<rparr>"

theorem command_round_trip_witness:
  "\<exists>rv s1 v1 c1 c2.
      cmd_app_input plain_dasio open_chan up_sock 8 \<lparr>ibuf = [0x42, 0x0A], cp = 0\<rparr> (Some plain_clt)
        = Inr (False, \<lparr>ibuf = [], cp = 0\<rparr>, Some c1)
    \<and> csock c1 = [0x42, 0x0A]
    \<and> srvr_protocol_input plain_dasio open_chan open_chan \<lparr>ibuf = [0x42, 0x0A], cp = 0\<rparr> plain_srvr
        = (rv, s1, v1)
    \<and> systems v1 = [start_POPS] \<and> schan v1 = [0x32, 0x0A]
    \<and> client_app_input plain_dasio decimal_parse_ops 8 \<lparr>ibuf = [0x32, 0x0A], cp = 0\<rparr> c1
        = Some (False, \<lparr>ibuf = [], cp = 0\<rparr>, c2)
    \<and> P_Srvr (POPS c2) = 2"
proof -
  have neg: "is_negotiated_op up_sock (csock plain_clt)" by (simp add: up_sock_def)
  have init: "schan plain_srvr = []" "csock plain_clt = []"
    by (simp_all add: plain_srvr_def plain_clt_def)
  have C: "appends open_chan (\<lambda>out. out)" by simp
  have st: "POPS_status plain_srvr = POPS_idle" "systems plain_srvr = []" by (simp_all add: plain_srvr_def)
  obtain c1 rv s1 v1 c2 where
    "cmd_app_input plain_dasio open_chan up_sock 8 \<lparr>ibuf = [0x42, 0x0A], cp = 0\<rparr> (Some plain_clt)
       = Inr (False, \<lparr>ibuf = [], cp = 0\<rparr>, Some c1)" "csock c1 = csock plain_clt @ [0x42, 0x0A]"
    "srvr_protocol_input plain_dasio open_chan open_chan \<lparr>ibuf = [0x42, 0x0A], cp = 0\<rparr> plain_srvr
       = (rv, s1, v1)" "POPS_status v1 = POPS_active" "systems v1 = systems plain_srvr @ [start_POPS]"
    "schan v1 = schan plain_srvr @ status_line (POPS_status v1)"
    "client_app_input plain_dasio decimal_parse_ops 8 \<lparr>ibuf = status_line (POPS_status v1), cp = 0\<rparr> c1
       = Some (False, \<lparr>ibuf = [], cp = 0\<rparr>, c2)"
    "POPS c2 = (POPS plain_clt)\<lparr>P_Srvr := of_nat (status_num (POPS_status v1))\<rparr>"
    using command_round_trip [OF plain_dasio_ok(1,4) decimal_reads_numbers C C C _ neg,
        of "0x42" 8 plain_srvr] by auto
  then show ?thesis using init st by (simp add: status_line_def)
qed

text \<open>Writing does not change what the client can see of the connection.\<close>

definition stays_up :: "'o chan_ops \<Rightarrow> 'o sock_ops \<Rightarrow> bool" where
  "stays_up C K \<longleftrightarrow> (\<forall>bs out. is_negotiated_op K (snd (iwrite_op C bs out)) = is_negotiated_op K out
     \<and> is_connected_op K (snd (iwrite_op C bs out)) = is_connected_op K out)"

lemma unat_inc_byte: "unat ((if x < 255 then x + 1 else x) :: byte) = min 255 (unat x + 1)"
proof -
  have "unat x < 256" using unsigned_less [of x, where ?'a = nat] by simp
  then show ?thesis by (auto simp: unat_word_ariths word_less_nat_alt)
qed

text \<open>The connection as \<open>tm_sync\<close> sees it: its two counters and what has been written.\<close>

lemma tm_sync_step:
  assumes C: "appends C written" and up: "stays_up C K"
    and c: "is_negotiated_op K (csock c)" "is_connected_op K (csock c)"
    and c': "snd (tm_sync C K Fl_Timeout c) = c'"
  shows "unat (P_Stale (POPS c')) = min 255 (unat (P_Stale (POPS c)) + 1)"
    and "unat (srvr_Stale c') = (if unat (P_Stale (POPS c')) > 2 then min 255 (unat (srvr_Stale c) + 1)
          else unat (srvr_Stale c))"
    and "written (csock c') = written (csock c)
          @ (if unat (P_Stale (POPS c')) > 2 \<and> srvr_Stale c = 0 then [0x56, 0x0A] else [])"
    and "is_negotiated_op K (csock c')" and "is_connected_op K (csock c')"
proof -
  define x where "x = (if P_Stale (POPS c) < 255 then P_Stale (POPS c) + 1 else P_Stale (POPS c))"
  define d where "d = c\<lparr>POPS := (POPS c)\<lparr>P_Stale := x\<rparr>\<rparr>"
  have x: "unat x = min 255 (unat (P_Stale (POPS c)) + 1)" by (simp only: x_def unat_inc_byte)
  have d: "(if P_Stale (POPS c) < 255
      then c\<lparr>POPS := (POPS c)\<lparr>P_Stale := P_Stale (POPS c) + 1\<rparr>\<rparr> else c) = d"
    by (simp add: d_def x_def)
  have V: "c_string [0x56, 0x0A] = [0x56, 0x0A]" by (simp add: c_string_def)
  have c'_eq: "c' = (if x > 2 then
      if srvr_Stale c = 0 then d\<lparr>csock := snd (iwrite_op C [0x56, 0x0A] (csock c)), cTO := Some 3,
          cflags := cflags c OR Fl_Timeout, srvr_Stale := 1\<rparr>
      else d\<lparr>srvr_Stale := if srvr_Stale c < 255 then srvr_Stale c + 1 else srvr_Stale c\<rparr>
      else d)"
    using c by (simp add: c' [symmetric] tm_sync_def d Let_def)
      (simp add: d_def app_connected_def forward_def V Let_def)
  have x2: "x > 2 \<longleftrightarrow> unat x > 2" by (simp add: word_less_nat_alt)
  have P: "P_Stale (POPS c') = x" by (simp add: c'_eq d_def)
  show "unat (P_Stale (POPS c')) = min 255 (unat (P_Stale (POPS c)) + 1)" by (simp add: P x)
  show "unat (srvr_Stale c') = (if unat (P_Stale (POPS c')) > 2 then min 255 (unat (srvr_Stale c) + 1)
      else unat (srvr_Stale c))"
    unfolding P using unat_inc_byte [of "srvr_Stale c"] by (simp add: c'_eq d_def x2)
  show "written (csock c') = written (csock c)
      @ (if unat (P_Stale (POPS c')) > 2 \<and> srvr_Stale c = 0 then [0x56, 0x0A] else [])"
    unfolding P by (simp add: c'_eq d_def x2 appends_iwrite [OF C])
  show "is_negotiated_op K (csock c')" "is_connected_op K (csock c')"
    using c up by (simp_all add: c'_eq d_def stays_up_def)
qed

text \<open>
  C36: With the connection up and no answer arriving, the driver asks the server for its status
  once: after \<open>n\<close> synchronisations of the telemetry, the staleness counters are exactly the number
  of synchronisations (of the data) and of those with stale data (of the server), both
  saturating at 255 instead of wrapping around, and \<open>V\<close> has been sent once if the data have
  become stale at all, and never otherwise.
\<close>

theorem tm_sync_asks_once:
  assumes C: "appends C written" and up: "stays_up C K"
    and c: "is_negotiated_op K (csock c)" "is_connected_op K (csock c)"
    and start: "srvr_Stale c = 0" "unat (P_Stale (POPS c)) \<le> 2"
  shows "unat (P_Stale (POPS (((\<lambda>c. snd (tm_sync C K Fl_Timeout c)) ^^ n) c)))
      = min 255 (unat (P_Stale (POPS c)) + n)
    \<and> unat (srvr_Stale (((\<lambda>c. snd (tm_sync C K Fl_Timeout c)) ^^ n) c))
      = min 255 (unat (P_Stale (POPS c)) + n - 2)
    \<and> written (csock (((\<lambda>c. snd (tm_sync C K Fl_Timeout c)) ^^ n) c))
      = written (csock c) @ (if unat (P_Stale (POPS c)) + n > 2 then [0x56, 0x0A] else [])"
proof -
  define it where "it n = ((\<lambda>c. snd (tm_sync C K Fl_Timeout c)) ^^ n) c" for n
  have next_it: "snd (tm_sync C K Fl_Timeout (it n)) = it (Suc n)" for n by (simp add: it_def)
  let ?p = "unat (P_Stale (POPS c))"
  have "is_negotiated_op K (csock (it n)) \<and> is_connected_op K (csock (it n))
    \<and> unat (P_Stale (POPS (it n))) = min 255 (?p + n)
    \<and> unat (srvr_Stale (it n)) = min 255 (?p + n - 2)
    \<and> written (csock (it n)) = written (csock c) @ (if ?p + n > 2 then [0x56, 0x0A] else [])"
  proof (induction n)
    case 0
    then show ?case using start c by (simp add: it_def)
  next
    case (Suc n)
      note step = tm_sync_step [OF C up _ _ next_it, of n]
    have z: "srvr_Stale (it n) = 0 \<longleftrightarrow> ?p + n \<le> 2"
      using Suc by (auto simp: unat_eq_0 [symmetric])
    have P: "unat (P_Stale (POPS (it (Suc n)))) = min 255 (?p + Suc n)" using step(1) Suc by auto
    show ?case using step(2-5) Suc P by (auto simp: z min_def split: if_splits)
  qed
  then show ?thesis by (simp add: it_def)
qed

theorem tm_sync_asks_once_witness:
  "csock (((\<lambda>c. snd (tm_sync open_chan up_sock 8 c)) ^^ 300) plain_clt) = [0x56, 0x0A]
   \<and> unat (srvr_Stale (((\<lambda>c. snd (tm_sync open_chan up_sock 8 c)) ^^ 300) plain_clt)) = 255"
proof -
  have up: "stays_up open_chan up_sock" by (simp add: stays_up_def up_sock_def)
  have c: "is_negotiated_op up_sock (csock plain_clt)" "is_connected_op up_sock (csock plain_clt)"
    "srvr_Stale plain_clt = 0" "P_Stale (POPS plain_clt) = 0" "csock plain_clt = []"
    by (simp_all add: up_sock_def plain_clt_def plain_POPS_def)
  show ?thesis
    using tm_sync_asks_once [OF open_chan_appends up c(1,2), where Fl_Timeout = 8 and n = 300] by (simp add: c(3-5))
qed

end
