(* ===== verification/PopsAnswers.thy ===== *)
theory PopsAnswers
  imports PopsServer PopsClient
begin

text \<open>
  What the client shows of the server's answers, in whatever pieces they come: every status is one
  digit on a line of its own, so that the last digit received is the status that is shown.
\<close>

section \<open>The digits in a response\<close>

text \<open>The last status digit of what has been received; each is alone on its line.\<close>

definition shown_step :: "byte \<Rightarrow> byte \<Rightarrow> byte" where
  "shown_step b x = (if isdigit b then b - 0x30 else x)"

definition line_digits :: "byte list \<Rightarrow> bool" where
  "line_digits = successively (\<lambda>a b. (isdigit b \<longrightarrow> a = 0x0A) \<and> (isdigit a \<longrightarrow> b = 0x0A))"

lemma line_digits_append:
  "line_digits (bs @ cs) \<Longrightarrow> line_digits bs" "line_digits (bs @ cs) \<Longrightarrow> line_digits cs"
  by (auto simp: line_digits_def successively_append_iff)

lemma no_digits: "\<forall>b \<in> set bs. \<not> isdigit b \<Longrightarrow> fold shown_step bs x = x"
  by (induction bs arbitrary: x) (simp_all add: shown_step_def)

lemma text_no_digits:
  "line_digits (b # bs) \<Longrightarrow> \<not> isdigit b \<Longrightarrow>
   \<forall>c \<in> set (takeWhile (\<lambda>c. c \<noteq> 0x0A) (b # bs)). \<not> isdigit c"
proof (induction bs arbitrary: b)
  case Nil
  then show ?case by simp
next
  case (Cons c bs)
  show ?case
  proof (cases "b = 0x0A")
    case False
    then have "\<not> isdigit c" "line_digits (c # bs)" using Cons.prems(1) by (simp_all add: line_digits_def)
    then have "\<forall>d \<in> set (takeWhile (\<lambda>c. c \<noteq> 0x0A) (c # bs)). \<not> isdigit d" by (rule Cons.IH [rotated])
    then show ?thesis using False Cons.prems(2) by (simp only: takeWhile.simps list.set if_True not_False_eq_True ball_simps)
  qed simp
qed

lemma drop_Suc_tl: "tl (drop n xs) = drop (Suc n) xs"
  by (simp add: tl_drop drop_Suc)

lemma newline_shown: "bs = [] \<or> hd bs = 0x0A \<Longrightarrow> fold shown_step bs x = fold shown_step (tl bs) x"
  by (cases bs) (simp_all add: shown_step_def isdigit_def)

lemma line_digits_tl: "line_digits bs \<Longrightarrow> line_digits (tl bs)"
  by (cases bs) (auto simp: line_digits_def successively_Cons)

lemma client_loop_shows:
  assumes D: "matches_strings D" "reports_only D" and P: "reads_numbers P"
    and "cp s \<le> nc s" and "line_digits (drop (cp s) (ibuf s))"
  shows "\<exists>s'. client_loop D P s c = Some (s', c\<lparr>POPS := (POPS c)\<lparr>P_Srvr :=
      fold shown_step (drop (cp s) (ibuf s)) (P_Srvr (POPS c))\<rparr>\<rparr>) \<and> cp s' = nc s'"
  using assms(4,5)
proof (induction "nc s - cp s" arbitrary: s c rule: less_induct)
  case less
  consider "\<not> cp s < nc s" | "cp s < nc s" "isdigit (ibuf s ! cp s)"
    | "cp s < nc s" "\<not> isdigit (ibuf s ! cp s)" by blast
  then show ?case
  proof cases
    case 1
    then show ?thesis using less.prems by (subst client_loop.simps) simp
  next
    case 2
    let ?d = "ibuf s ! cp s" and ?rest = "drop (Suc (cp s)) (ibuf s)"
    have bs: "drop (cp s) (ibuf s) = ?d # ?rest" using 2(1) by (simp add: Cons_nth_drop_Suc)
    have rest: "?rest = [] \<or> hd ?rest = 0x0A" "line_digits ?rest"
      using less.prems(2) 2(2) unfolding bs by (cases ?rest; simp add: line_digits_def)+
    have "\<not> isdigit 0x0A" by (simp add: isdigit_def)
    then have "takeWhile isdigit ?rest = []" using rest(1) by (cases ?rest) auto
    then have ds: "digits_at s = [?d]" using 2(2) by (simp add: digits_at_def bs)
    have "decimal (digits_at s) = unat (?d - 0x30)" by (simp add: ds decimal_def)
    moreover have "unat (?d - 0x30) < 256" using unsigned_less [of "?d - 0x30", where ?'a = nat] by simp
    ultimately have u: "not_uint8_op P x s = (False, ?d - 0x30, s\<lparr>cp := cp s + 1\<rparr>)" for x
      using P ds unfolding reads_numbers_def by auto
    define s1 where "s1 = s\<lparr>cp := cp s + 1 + match_len [0x0A] ?rest\<rparr>"
    define x where "x = ?d - 0x30"
    have "report_err_op D t = t" for t using D(2) by (simp add: reports_only_def)
    then have r: "status_response D P s c = (s1, c\<lparr>POPS := (POPS c)\<lparr>P_Srvr := x\<rparr>\<rparr>)"
      using D(1) by (simp add: status_response_def u matches_strings_def Let_def s1_def x_def)
    have len: "length ?rest = nc s - Suc (cp s)" by simp
    have tail: "drop (cp s1) (ibuf s1) = tl ?rest \<and> fold shown_step ?rest x = fold shown_step (tl ?rest) x
      \<and> cp s1 \<le> nc s1 \<and> nc s1 - cp s1 < nc s - cp s"
    proof (cases "?rest = []")
      case True
      then show ?thesis using 2(1) by (simp add: s1_def)
    next
      case False
      then obtain r where r: "?rest = 0x0A # r" using rest(1) by (cases ?rest) auto
      have "r = drop (Suc (Suc (cp s))) (ibuf s)" using drop_Suc_tl [of "Suc (cp s)" "ibuf s"] r by simp
      moreover have "Suc (Suc (cp s)) \<le> nc s" using len r by (cases "nc s - Suc (cp s)") auto
      ultimately show ?thesis using r 2(1) newline_shown [of ?rest x] by (simp add: s1_def)
    qed
    obtain s' where "client_loop D P s1 (c\<lparr>POPS := (POPS c)\<lparr>P_Srvr := x\<rparr>\<rparr>) = Some (s', c\<lparr>POPS :=
        (POPS c)\<lparr>P_Srvr := fold shown_step (tl ?rest) x\<rparr>\<rparr>)" "cp s' = nc s'"
      using less.hyps [of s1 "c\<lparr>POPS := (POPS c)\<lparr>P_Srvr := x\<rparr>\<rparr>"] tail line_digits_tl [OF rest(2)] by auto
    moreover have "fold shown_step (drop (cp s) (ibuf s)) (P_Srvr (POPS c)) = fold shown_step (tl ?rest) x"
      using 2(2) tail by (simp add: bs shown_step_def x_def)
    ultimately show ?thesis using 2 r by (subst client_loop.simps) simp
  next
    case 3
    let ?bs = "drop (cp s) (ibuf s)" and ?s1 = "text_response s"
    let ?t = "takeWhile (\<lambda>b. b \<noteq> 0x0A) ?bs"
    have len: "length ?t \<le> length ?bs" by (rule length_takeWhile_le)
    have f: "found_at 0x0A s = cp s + length ?t" by (simp add: found_at_def)
    have t: "?bs = ?t @ drop (length ?t) ?bs" by (metis append_take_drop_id takeWhile_eq_take)
    have nl: "drop (length ?t) ?bs = [] \<or> hd (drop (length ?t) ?bs) = 0x0A"
      using hd_dropWhile [of "\<lambda>b. b \<noteq> 0x0A" ?bs] by (auto simp: dropWhile_eq_drop)
    have rest: "drop (cp ?s1) (ibuf ?s1) = tl (drop (length ?t) ?bs)"
      using len 3(1) by (auto simp: text_response_eq f drop_update_cancel drop_Suc_tl add.commute)
    have "\<forall>b \<in> set ?t. \<not> isdigit b"
      using text_no_digits [of "ibuf s ! cp s" "drop (Suc (cp s)) (ibuf s)"] less.prems(2) 3
      by (simp add: Cons_nth_drop_Suc)
    then have "fold shown_step ?bs x = fold shown_step (drop (length ?t) ?bs) x" for x
      by (subst t) (simp add: no_digits)
    moreover have "fold shown_step (drop (length ?t) ?bs) x = fold shown_step (tl (drop (length ?t) ?bs)) x" for x
      using nl by (rule newline_shown)
    moreover have "line_digits (tl (drop (length ?t) ?bs))"
      using line_digits_append(2) [of ?t "drop (length ?t) ?bs"] less.prems(2) t by (intro line_digits_tl) metis
    ultimately show ?thesis
      using less.hyps [of ?s1 c] rest text_response_forward [OF 3(1)] 3
      by (subst client_loop.simps) auto
  qed
qed

lemma client_reads_shown:
  assumes "consumes D" and "matches_strings D" and "reports_only D" and "reads_numbers P"
    and "line_digits bs"
  shows "client_app_input D P Fl_Timeout \<lparr>ibuf = bs, cp = 0\<rparr> c
    = Some (False, \<lparr>ibuf = [], cp = 0\<rparr>, c\<lparr>POPS := (POPS c)\<lparr>P_Srvr := fold shown_step bs (P_Srvr (POPS c))\<rparr>,
        cTO := None, cflags := cflags c AND NOT Fl_Timeout, srvr_Stale := 0\<rparr>)"
proof -
  obtain s' where s': "client_loop D P \<lparr>ibuf = bs, cp = 0\<rparr> c = Some (s', c\<lparr>POPS := (POPS c)\<lparr>P_Srvr :=
      fold shown_step bs (P_Srvr (POPS c))\<rparr>\<rparr>)" "cp s' = nc s'"
    using client_loop_shows [OF assms(2-4), of "\<lparr>ibuf = bs, cp = 0\<rparr>" c] assms(5) by auto
  have "report_ok_op D (nc s') s' = \<lparr>ibuf = [], cp = 0\<rparr>"
    using assms(1) s'(2) by (simp add: consumes_def consumed_def)
  then show ?thesis by (simp add: client_app_input_def s'(1) Let_def)
qed

section \<open>The digits the server sends\<close>

text \<open>What the server sends has its digits on lines of their own.\<close>

definition whole_lines :: "byte list \<Rightarrow> bool" where
  "whole_lines bs \<longleftrightarrow> line_digits bs \<and> (bs = [] \<or> last bs = 0x0A)"

lemma whole_lines_append: "whole_lines as \<Longrightarrow> whole_lines bs \<Longrightarrow> whole_lines (as @ bs)"
  by (cases "bs = []"; cases "as = []")
    (auto simp: whole_lines_def line_digits_def successively_append_iff isdigit_def)

lemma whole_lines_status: "whole_lines (status_line st)"
  by (cases st) (simp_all add: whole_lines_def line_digits_def status_line_def isdigit_def)

lemma whole_lines_errors: "whole_lines (errors_of cs)"
proof -
  have "whole_lines Error_str" by (simp add: whole_lines_def line_digits_def Error_str_def isdigit_def)
  then have "whole_lines (concat (map (\<lambda>_. Error_str) xs))" for xs :: "byte list"
    by (induction xs) (simp_all add: whole_lines_append, simp add: whole_lines_def line_digits_def)
  then show ?thesis by (simp add: errors_of_def)
qed

lemma whole_lines_answers: "whole_lines (answers c rs st)"
proof (induction c rs st rule: answers.induct)
  case (1 c st)
  then show ?case by (simp add: whole_lines_def line_digits_def)
next
  case (2 c c' cs d rs st)
  have "whole_lines []" by (simp add: whole_lines_def line_digits_def)
  then show ?case using 2
    by (auto simp: Let_def intro!: whole_lines_append whole_lines_errors whole_lines_status)
qed

lemma shown_digit: "fold shown_step bs x = x \<or> (\<exists>b \<in> set bs. isdigit b \<and> fold shown_step bs x = b - 0x30)"
  by (induction bs rule: rev_induct) (auto simp: shown_step_def)

lemma digit_in_errors:
  assumes "b \<in> set (errors_of cs)"
  shows "\<not> isdigit b"
proof -
  have "b \<in> set Error_str" using assms by (auto simp: errors_of_def split: if_splits)
  then show ?thesis by (auto simp: Error_str_def isdigit_def)
qed

lemma digit_in_status:
  "b \<in> set (status_line st) \<Longrightarrow> isdigit b \<Longrightarrow> b - 0x30 = of_nat (status_num st)"
  by (cases st) (auto simp: status_line_def isdigit_def)

text \<open>Every status that is answered is one the server had after some of the reads.\<close>

definition statuses :: "(nat \<times> byte list \<times> bool) list \<Rightarrow> POPS_status_t set" where
  "statuses rs = (\<lambda>i. fold next_status (all_commands (take i rs)) initial_status) ` {..length rs}"

lemma digit_in_answers:
  "b \<in> set (answers c rs st) \<Longrightarrow> isdigit b \<Longrightarrow>
   \<exists>i \<le> length rs. b - 0x30 = of_nat (status_num (fold next_status (all_commands (take i rs)) st))"
proof (induction c rs st rule: answers.induct)
  case (2 c c' cs d rs st)
  let ?st = "fold next_status cs st"
  have all: "fold next_status (all_commands (take (Suc i) ((c', cs, d) # rs))) st
      = fold next_status (all_commands (take i rs)) ?st" for i
    by (simp add: all_commands_def)
  from 2(2) consider "b \<in> set (errors_of cs)" | "b \<in> set (status_line ?st)" | "b \<in> set (answers c rs ?st)"
    by (auto simp: Let_def split: if_splits)
  then show ?case
  proof cases
    case 1
    then show ?thesis using digit_in_errors 2(3) by blast
  next
    case 2
    then show ?thesis using digit_in_status [OF _ \<open>isdigit b\<close>] all [of 0]
      by (intro exI [of _ "Suc 0"]) (simp add: all_commands_def)
  next
    case 3
    then obtain i where "i \<le> length rs"
      "b - 0x30 = of_nat (status_num (fold next_status (all_commands (take i rs)) ?st))"
      using "2.IH" [OF refl _ \<open>isdigit b\<close>] by blast
    then show ?thesis using all [of i] by (intro exI [of _ "Suc i"]) simp
  qed
qed simp

lemma shown_status:
  assumes "answers c rs initial_status = got @ rest"
  shows "fold shown_step got 0 = 0 \<or> (\<exists>st \<in> statuses rs. fold shown_step got 0 = of_nat (status_num st))"
  using shown_digit [of got 0] digit_in_answers [of _ c rs initial_status] assms
  by (fastforce simp: statuses_def)

end
