(* ===== verification/PopsDriver.thy ===== *)
theory PopsDriver
  imports PopsClient
begin

text \<open>
  The POPS driver as a whole: the handlers of \<open>PopsUdp\<close> and \<open>PopsClient\<close> in any order, as the event
  loop calls them. They share the telemetry record \<open>POPS\<close>; the properties say which of them may
  change what of it.
\<close>

section \<open>Steps\<close>

text \<open>
  One call of a handler, labelled with what happened. Input buffers are arbitrary in each step;
  \<open>Line True\<close> is a datagram that parses.
\<close>

datatype event = Line bool | Reply | Sync | Command | Connected | Connect_failed | Timeout | Eof

definition accepted :: "dasio \<Rightarrow> ('d, 'f) parse_ops \<Rightarrow> 'f pops_locals \<Rightarrow> inbuf \<Rightarrow> bool" where
  "accepted D P l0 s \<longleftrightarrow> \<not> fst (run_chain (pops_chain D P) (s\<lparr>cp := 0\<rparr>, l0))"

inductive driver_step ::
  "dasio \<Rightarrow> ('d, 'f) parse_ops \<Rightarrow> 'o chan_ops \<Rightarrow> 'o sock_ops \<Rightarrow> u32 \<Rightarrow> event \<Rightarrow>
   ('d, 'f, 'o) clt \<Rightarrow> ('d, 'f, 'o) clt \<Rightarrow> bool"
  for D P C K Fl_Timeout where
  line: "udp_protocol_input D P l0 s (POPS c) = (s', p) \<Longrightarrow>
    driver_step D P C K Fl_Timeout (Line (accepted D P l0 s)) c (c\<lparr>POPS := p\<rparr>)"
| reply: "client_app_input D P Fl_Timeout s c = Some (rv, s', c') \<Longrightarrow>
    driver_step D P C K Fl_Timeout Reply c c'"
| sync: "tm_sync C K Fl_Timeout c = (rv, c') \<Longrightarrow> driver_step D P C K Fl_Timeout Sync c c'"
| command: "cmd_app_input D C K Fl_Timeout s (Some c) = Inr (rv, s', Some c') \<Longrightarrow>
    driver_step D P C K Fl_Timeout Command c c'"
| connected: "app_connected C K Fl_Timeout c = (rv, c') \<Longrightarrow>
    driver_step D P C K Fl_Timeout Connected c c'"
| failed: "connect_failed c = (rv, c') \<Longrightarrow> driver_step D P C K Fl_Timeout Connect_failed c c'"
| timeout: "protocol_timeout K c = (rv, c') \<Longrightarrow> driver_step D P C K Fl_Timeout Timeout c c'"
| eof: "app_process_eof K c = (rv, c') \<Longrightarrow> driver_step D P C K Fl_Timeout Eof c c'"

inductive driver_run ::
  "dasio \<Rightarrow> ('d, 'f) parse_ops \<Rightarrow> 'o chan_ops \<Rightarrow> 'o sock_ops \<Rightarrow> u32 \<Rightarrow> event list \<Rightarrow>
   ('d, 'f, 'o) clt \<Rightarrow> ('d, 'f, 'o) clt \<Rightarrow> bool"
  for D P C K Fl_Timeout where
  nil: "driver_run D P C K Fl_Timeout [] c c"
| snoc: "driver_run D P C K Fl_Timeout es c c' \<Longrightarrow> driver_step D P C K Fl_Timeout e c' c'' \<Longrightarrow>
    driver_run D P C K Fl_Timeout (es @ [e]) c c''"

section \<open>What a step changes\<close>

definition next_stale :: "event \<Rightarrow> nat \<Rightarrow> nat" where
  "next_stale e n = (case e of Line True \<Rightarrow> 0 | Sync \<Rightarrow> min 255 (n + 1) | _ \<Rightarrow> n)"

text \<open>The members that come from the instrument: all but \<open>Srvr\<close> and \<open>Stale\<close>.\<close>

definition instrument_data :: "('d, 'f) POPS_t \<Rightarrow> ('d, 'f) POPS_t" where
  "instrument_data p = p\<lparr>P_Srvr := 0, P_Stale := 0\<rparr>"

lemma udp_not_accepted:
  "\<not> accepted D P l0 s \<Longrightarrow> snd (udp_protocol_input D P l0 s p) = p"
  by (auto simp: udp_protocol_input_def accepted_def Let_def split: prod.splits)

lemma udp_accepted:
  "accepted D P l0 s \<Longrightarrow> P_Stale (snd (udp_protocol_input D P l0 s p)) = 0
    \<and> P_Srvr (snd (udp_protocol_input D P l0 s p)) = P_Srvr p"
  by (auto simp: udp_protocol_input_def accepted_def Let_def pops_store_keeps split: prod.splits)

lemma forward_POPS [simp]: "POPS (forward C K Fl_Timeout cmd c) = POPS c"
  by (simp add: forward_def Let_def)

lemma cmd_POPS:
  "cmd_app_input D C K Fl_Timeout s (Some c) = Inr (rv, s', Some c') \<Longrightarrow> POPS c' = POPS c"
  by (auto simp: cmd_app_input_def split: if_splits)

lemma tm_sync_POPS:
  "tm_sync C K Fl_Timeout c = (rv, c') \<Longrightarrow>
   \<exists>x. POPS c' = (POPS c)\<lparr>P_Stale := x\<rparr> \<and> unat x = min 255 (unat (P_Stale (POPS c)) + 1)"
  using unat_inc_byte [of "P_Stale (POPS c)"]
  by (intro exI [of _ "if P_Stale (POPS c) < 255 then P_Stale (POPS c) + 1 else P_Stale (POPS c)"])
    (auto simp: tm_sync_def app_connected_def Let_def split: if_splits)

lemma driver_step_effect:
  assumes D: "consumes D" "matches_strings D" "reports_only D" and P: "reads_numbers P"
    and step: "driver_step D P C K Fl_Timeout e c c'"
  shows "unat (P_Stale (POPS c')) = next_stale e (unat (P_Stale (POPS c)))"
    and "e \<noteq> Line True \<Longrightarrow> instrument_data (POPS c') = instrument_data (POPS c)"
    and "e \<notin> {Reply, Timeout, Eof} \<Longrightarrow> P_Srvr (POPS c') = P_Srvr (POPS c)"
    and "e \<in> {Timeout, Eof} \<Longrightarrow> P_Srvr (POPS c') = 0"
proof -
  have "unat (P_Stale (POPS c')) = next_stale e (unat (P_Stale (POPS c)))
    \<and> (e \<noteq> Line True \<longrightarrow> instrument_data (POPS c') = instrument_data (POPS c))
    \<and> (e \<notin> {Reply, Timeout, Eof} \<longrightarrow> P_Srvr (POPS c') = P_Srvr (POPS c))
    \<and> (e \<in> {Timeout, Eof} \<longrightarrow> P_Srvr (POPS c') = 0)"
    using step
  proof (cases rule: driver_step.cases)
    case (line l0 s s' p)
    then have p: "p = snd (udp_protocol_input D P l0 s (POPS c))" by simp
    show ?thesis
      using udp_accepted [of D P l0 s "POPS c"] udp_not_accepted [of D P l0 s "POPS c"]
      by (cases "accepted D P l0 s") (simp_all add: line(1,2) p next_stale_def)
  next
    case (reply s rv s')
    obtain c1 where "c' = c1\<lparr>cTO := None, cflags := cflags c AND NOT Fl_Timeout, srvr_Stale := 0\<rparr>"
        "only_Srvr c c1"
      using client_app_input_returns [OF D P, of Fl_Timeout s c] reply by auto
    then show ?thesis by (auto simp: only_Srvr_def reply(1) next_stale_def instrument_data_def)
  next
    case (sync rv)
    then show ?thesis using tm_sync_POPS [OF sync(2)] by (auto simp: next_stale_def instrument_data_def)
  next
    case (command s rv s')
    then show ?thesis using cmd_POPS by (fastforce simp: next_stale_def)
  next
    case (connected rv)
    then show ?thesis by (auto simp: app_connected_def Let_def next_stale_def)
  next
    case (failed rv)
    then show ?thesis by (auto simp: connect_failed_def next_stale_def)
  next
    case (timeout rv)
    then show ?thesis
      by (auto simp: protocol_timeout_def Let_def next_stale_def instrument_data_def split: prod.splits)
  next
    case (eof rv)
    then show ?thesis
      by (auto simp: app_process_eof_def Let_def next_stale_def instrument_data_def split: prod.splits)
  qed
  then show "unat (P_Stale (POPS c')) = next_stale e (unat (P_Stale (POPS c)))"
    "e \<noteq> Line True \<Longrightarrow> instrument_data (POPS c') = instrument_data (POPS c)"
    "e \<notin> {Reply, Timeout, Eof} \<Longrightarrow> P_Srvr (POPS c') = P_Srvr (POPS c)"
    "e \<in> {Timeout, Eof} \<Longrightarrow> P_Srvr (POPS c') = 0"
    by simp_all
qed

section \<open>Runs\<close>

text \<open>
  The writers of the shared telemetry record do not disturb each other, in whatever order their
  events come.
\<close>

lemma driver_run_effect:
  assumes "consumes D" "matches_strings D" "reports_only D" "reads_numbers P"
    and "driver_run D P C K Fl_Timeout es c c'"
  shows "unat (P_Stale (POPS c')) = fold next_stale es (unat (P_Stale (POPS c)))
    \<and> (Line True \<notin> set es \<longrightarrow> instrument_data (POPS c') = instrument_data (POPS c))
    \<and> (P_Srvr (POPS c) = 0 \<and> (Reply \<notin> set es \<or> last es \<in> {Timeout, Eof}) \<longrightarrow> P_Srvr (POPS c') = 0)"
  using assms(5)
proof (induction rule: driver_run.induct)
  case (snoc es c c' e c'')
  note step = driver_step_effect [OF assms(1-4) snoc.hyps(2)]
  have "P_Srvr (POPS c) = 0 \<Longrightarrow> Reply \<notin> set (es @ [e]) \<or> last (es @ [e]) \<in> {Timeout, Eof} \<Longrightarrow>
      P_Srvr (POPS c'') = 0"
    using snoc.IH step(3,4) by (cases "e \<in> {Timeout, Eof}") auto
  then show ?case using snoc.IH step(1,2) by auto
qed simp

end
