(* ===== verification/PopsSystem.thy ===== *)
theory PopsSystem
  imports PopsDriver
begin

text \<open>
  The POPS driver as a program (\<open>main\<close> of \<open>POPS/POPS.cc\<close>): the objects \<open>main\<close> creates, what the
  event loop delivers to them, and when the loop ends.
\<close>

section \<open>The program\<close>

text \<open>
  \<open>clt\<close> is the object that \<open>POPS_client::instance\<close> points to, with the telemetry record, a global
  object that \<open>TM_data_sndr\<close> only reads. \<open>'i\<close> is the interface of the datagram receiver, less its
  buffer. \<open>environ\<close> is the environment of the process.
\<close>

datatype pops_child = Pkts_child | Cmd_child | TM_child | Client_child

record ('d, 'f, 'o, 'i) pops_driver =
  environ :: "string \<rightharpoonup> string"
  pkts :: 'i
  pkts_buf :: inbuf
  clt_instance :: "('d, 'f, 'o) clt option"
  pops_children :: "pops_child list"

record ('d, 'f, 'o, 'i) pops_lib =
  pops_dasio :: dasio
  pops_parse :: "('d, 'f) parse_ops"
  pops_chan :: "'o chan_ops"
  pops_sock :: "'o sock_ops"
  pops_Fl_Timeout :: u32
  pops_gflag0 :: u32
  pops_reset :: "'i \<Rightarrow> bool \<times> 'i"

text \<open>The constructor of the datagram receiver sets the time zone.\<close>

definition UserPkts_UDP :: "'i \<Rightarrow> (string \<rightharpoonup> string) \<Rightarrow> 'i \<times> (string \<rightharpoonup> string)" where
  "UserPkts_UDP i env = (i, env(''TZ'' \<mapsto> ''UTC0''))"

definition pops_main ::
  "('d, 'f, 'o, 'i) pops_lib \<Rightarrow> (string \<rightharpoonup> string) \<Rightarrow> 'i \<Rightarrow> ('d, 'f) POPS_t \<Rightarrow> u32 \<Rightarrow> 'o \<Rightarrow>
   fault + ('d, 'f, 'o, 'i) pops_driver" where
  "pops_main L env i POPS0 flags0 sock =
     (let (Pkts, env) = UserPkts_UDP i env;
          children = [Pkts_child];
          children = children @ [Cmd_child];
          children = children @ [TM_child]
      in bind_sum (POPS_client (pops_sock L) (pops_gflag0 L) flags0 sock POPS0 None) (\<lambda>clt.
           let children = children @ [Client_child]
           in Inr \<lparr>environ = env, pkts = Pkts, pkts_buf = \<lparr>ibuf = [], cp = 0\<rparr>,
                clt_instance = Some clt, pops_children = children\<rparr>))"

text \<open>
  What the loop delivers. \<open>Pkts_read bs l0\<close>: \<open>bs\<close> is added to the receiver's buffer, and its locals
  start as \<open>l0\<close>. The other readers empty their buffers, so each call sees what was read for it.
\<close>

datatype 'f pops_event =
    Pkts_read "byte list" "'f pops_locals"
  | Pkts_eof
  | Cmd_read "byte list"
  | TM_sync
  | Clt_connected
  | Clt_failed
  | Clt_read "byte list"
  | Clt_timeout
  | Clt_eof

text \<open>
  The result of a handler says what happened, as a label of \<open>PopsDriver\<close> where it is one, and
  whether it returned true, which ends the loop. A null \<open>instance\<close> cannot be called.
\<close>

fun on_client ::
  "('d, 'f, 'o, 'i) pops_driver \<Rightarrow> event \<Rightarrow>
   (('d, 'f, 'o) clt \<Rightarrow> (bool \<times> ('d, 'f, 'o) clt) option) \<Rightarrow>
   (fault + event list \<times> bool \<times> ('d, 'f, 'o, 'i) pops_driver) option" where
  "on_client d ev h =
     (case clt_instance d of
        None \<Rightarrow> Some (Inl Null_pointer)
      | Some c \<Rightarrow> map_option (\<lambda>(rv, c). Inr ([ev], rv, d\<lparr>clt_instance := Some c\<rparr>)) (h c))"

fun pops_handle ::
  "('d, 'f, 'o, 'i) pops_lib \<Rightarrow> 'f pops_event \<Rightarrow> ('d, 'f, 'o, 'i) pops_driver \<Rightarrow>
   (fault + event list \<times> bool \<times> ('d, 'f, 'o, 'i) pops_driver) option" where
  "pops_handle L (Pkts_read bs l0) d =
     (let s = (pkts_buf d)\<lparr>ibuf := ibuf (pkts_buf d) @ bs\<rparr>
      in case clt_instance d of
           None \<Rightarrow> Some (Inl Null_pointer)
         | Some c \<Rightarrow>
             case udp_protocol_input (pops_dasio L) (pops_parse L) l0 s (POPS c) of (s', p) \<Rightarrow>
               Some (Inr ([Line (accepted (pops_dasio L) (pops_parse L) l0 s)], False,
                 d\<lparr>pkts_buf := s', clt_instance := Some (c\<lparr>POPS := p\<rparr>)\<rparr>)))"
| "pops_handle L Pkts_eof d =
     (case udp_process_eof (pops_reset L) (pkts d) of (rv, i) \<Rightarrow> Some (Inr ([], rv, d\<lparr>pkts := i\<rparr>)))"
| "pops_handle L (Cmd_read bs) d =
     Some (bind_sum (cmd_app_input (pops_dasio L) (pops_chan L) (pops_sock L) (pops_Fl_Timeout L)
                       \<lparr>ibuf = bs, cp = 0\<rparr> (clt_instance d))
            (\<lambda>(rv, s, inst). Inr ([Command], rv, d\<lparr>clt_instance := inst\<rparr>)))"
| "pops_handle L TM_sync d =
     on_client d Sync (Some \<circ> tm_sync (pops_chan L) (pops_sock L) (pops_Fl_Timeout L))"
| "pops_handle L Clt_connected d =
     on_client d Connected (Some \<circ> app_connected (pops_chan L) (pops_sock L) (pops_Fl_Timeout L))"
| "pops_handle L Clt_failed d = on_client d Connect_failed (Some \<circ> connect_failed)"
| "pops_handle L (Clt_read bs) d =
     on_client d Reply (\<lambda>c. map_option (\<lambda>(rv, s, c). (rv, c))
       (client_app_input (pops_dasio L) (pops_parse L) (pops_Fl_Timeout L) \<lparr>ibuf = bs, cp = 0\<rparr> c))"
| "pops_handle L Clt_timeout d = on_client d Timeout (Some \<circ> protocol_timeout (pops_sock L))"
| "pops_handle L Clt_eof d = on_client d Eof (Some \<circ> app_process_eof (pops_sock L))"

text \<open>The loop: it ends when a handler returns true. The second result is whether it goes on.\<close>

fun pops_loop ::
  "('d, 'f, 'o, 'i) pops_lib \<Rightarrow> 'f pops_event list \<Rightarrow> ('d, 'f, 'o, 'i) pops_driver \<Rightarrow>
   (fault + event list \<times> bool \<times> ('d, 'f, 'o, 'i) pops_driver) option" where
  "pops_loop L [] d = Some (Inr ([], True, d))"
| "pops_loop L (e # es) d =
     (case pops_handle L e d of
        None \<Rightarrow> None
      | Some (Inl f) \<Rightarrow> Some (Inl f)
      | Some (Inr (ls, True, d)) \<Rightarrow> Some (Inr (ls, False, d))
      | Some (Inr (ls, False, d)) \<Rightarrow>
          map_option (map_sum id (\<lambda>(ls', r, d). (ls @ ls', r, d))) (pops_loop L es d))"

section \<open>The loop as a run of the driver\<close>

definition pops_lib_ok :: "('d, 'f, 'o, 'i) pops_lib \<Rightarrow> bool" where
  "pops_lib_ok L \<longleftrightarrow> consumes (pops_dasio L) \<and> matches_strings (pops_dasio L)
     \<and> reports_only (pops_dasio L) \<and> reads_numbers (pops_parse L)"

abbreviation pops_run ::
  "('d, 'f, 'o, 'i) pops_lib \<Rightarrow> event list \<Rightarrow> ('d, 'f, 'o) clt \<Rightarrow> ('d, 'f, 'o) clt \<Rightarrow> bool" where
  "pops_run L \<equiv> driver_run (pops_dasio L) (pops_parse L) (pops_chan L) (pops_sock L) (pops_Fl_Timeout L)"

text \<open>The events whose handler may end the loop: \<open>Q\<close>, and those that call \<open>reset()\<close>.\<close>

fun may_end :: "'f pops_event \<Rightarrow> bool" where
  "may_end (Cmd_read bs) \<longleftrightarrow> bs \<noteq> [] \<and> hd bs = 0x51"
| "may_end Pkts_eof \<longleftrightarrow> True"
| "may_end Clt_timeout \<longleftrightarrow> True"
| "may_end _ \<longleftrightarrow> False"

lemma driver_run_one:
  "driver_step D P C K F e c c' \<Longrightarrow> driver_run D P C K F [e] c c'"
  using driver_run.snoc [OF driver_run.nil] by fastforce

lemma driver_run_append:
  assumes "driver_run D P C K F es2 c2 c3" and "driver_run D P C K F es1 c1 c2"
  shows "driver_run D P C K F (es1 @ es2) c1 c3"
  using assms(1,2)
proof induction
  case (snoc es c c' e c'')
  then show ?case using driver_run.snoc [OF snoc.IH [OF snoc.prems] snoc.hyps(2)] by simp
qed simp

lemma cmd_app_input_client:
  "\<exists>rv s' c'. cmd_app_input D C K F \<lparr>ibuf = bs, cp = 0\<rparr> (Some c) = Inr (rv, s', Some c')
    \<and> (rv \<longrightarrow> may_end (Cmd_read bs))"
  by (cases bs) (auto simp: cmd_app_input_def)

lemma pops_handle_ok:
  assumes L: "pops_lib_ok L" and c: "clt_instance d = Some c"
  shows "\<exists>ls rv d' c'. pops_handle L e d = Some (Inr (ls, rv, d')) \<and> clt_instance d' = Some c'
    \<and> pops_run L ls c c' \<and> environ d' = environ d \<and> (rv \<longrightarrow> may_end e)"
proof -
  note lib = L [unfolded pops_lib_ok_def]
  have one: "pops_run L [ev] c c'"
    if "driver_step (pops_dasio L) (pops_parse L) (pops_chan L) (pops_sock L) (pops_Fl_Timeout L) ev c c'"
    for ev c' using that by (rule driver_run_one)
  show ?thesis
  proof (cases e)
    case (Pkts_read bs l0)
    define s where "s = (pkts_buf d)\<lparr>ibuf := ibuf (pkts_buf d) @ bs\<rparr>"
    obtain s' p where u: "udp_protocol_input (pops_dasio L) (pops_parse L) l0 s (POPS c) = (s', p)"
      by fastforce
    from one [OF driver_step.line [OF this]] u show ?thesis
      by (auto simp: Pkts_read c s_def [symmetric] Let_def)
  next
    case Pkts_eof
    then show ?thesis using c driver_run.nil by (auto split: prod.splits)
  next
    case (Cmd_read bs)
    obtain rv s' c' where r: "cmd_app_input (pops_dasio L) (pops_chan L) (pops_sock L)
        (pops_Fl_Timeout L) \<lparr>ibuf = bs, cp = 0\<rparr> (Some c) = Inr (rv, s', Some c')"
        "rv \<longrightarrow> may_end (Cmd_read bs)"
      using cmd_app_input_client by blast
    with one [OF driver_step.command [OF r(1)]] show ?thesis by (auto simp: Cmd_read c)
  next
    case TM_sync
    obtain rv c' where r: "tm_sync (pops_chan L) (pops_sock L) (pops_Fl_Timeout L) c = (rv, c')"
      by fastforce
    moreover have "\<not> rv" using r by (auto simp: tm_sync_def app_connected_def Let_def split: if_splits)
    ultimately show ?thesis using one [OF driver_step.sync [OF r]] by (auto simp: TM_sync c)
  next
    case Clt_connected
    obtain rv c' where r: "app_connected (pops_chan L) (pops_sock L) (pops_Fl_Timeout L) c = (rv, c')"
      by fastforce
    moreover have "\<not> rv" using r by (auto simp: app_connected_def Let_def)
    ultimately show ?thesis using one [OF driver_step.connected [OF r]] by (auto simp: Clt_connected c)
  next
    case Clt_failed
    have r: "connect_failed c = (False, c)" by (simp add: connect_failed_def)
    with one [OF driver_step.failed [OF r]] show ?thesis by (auto simp: Clt_failed c)
  next
    case (Clt_read bs)
    obtain s' c' where r: "client_app_input (pops_dasio L) (pops_parse L) (pops_Fl_Timeout L)
        \<lparr>ibuf = bs, cp = 0\<rparr> c = Some (False, s', c')"
      using client_app_input_returns lib by blast
    with one [OF driver_step.reply [OF r]] show ?thesis by (auto simp: Clt_read c)
  next
    case Clt_timeout
    obtain rv c' where r: "protocol_timeout (pops_sock L) c = (rv, c')" by fastforce
    with one [OF driver_step.timeout [OF r]] show ?thesis by (auto simp: Clt_timeout c)
  next
    case Clt_eof
    obtain rv c' where r: "app_process_eof (pops_sock L) c = (rv, c')" by fastforce
    moreover have "\<not> rv" using r by (auto simp: app_process_eof_def Let_def split: prod.splits)
    ultimately show ?thesis using one [OF driver_step.eof [OF r]] by (auto simp: Clt_eof c)
  qed
qed

lemma pops_loop_ok:
  assumes L: "pops_lib_ok L" and c: "clt_instance d = Some c"
  shows "\<exists>ls running d' c'. pops_loop L es d = Some (Inr (ls, running, d')) \<and> clt_instance d' = Some c'
    \<and> pops_run L ls c c' \<and> environ d' = environ d \<and> (\<not> running \<longrightarrow> (\<exists>e \<in> set es. may_end e))"
  using c
proof (induction es arbitrary: d c)
  case Nil
  then show ?case
    by (intro exI [of _ "[]"] exI [of _ True] exI [of _ d] exI [of _ c]) (simp add: driver_run.nil)
next
  case (Cons e es)
  obtain ls rv d1 c1 where h: "pops_handle L e d = Some (Inr (ls, rv, d1))" "clt_instance d1 = Some c1"
    "pops_run L ls c c1" "environ d1 = environ d" "rv \<longrightarrow> may_end e"
    using pops_handle_ok [OF L Cons.prems] by blast
  show ?case
  proof (cases rv)
    case True
    with h show ?thesis by auto
  next
    case False
    obtain ls2 running d2 c2 where t: "pops_loop L es d1 = Some (Inr (ls2, running, d2))"
      "clt_instance d2 = Some c2" "pops_run L ls2 c1 c2" "environ d2 = environ d1"
      "\<not> running \<longrightarrow> (\<exists>e \<in> set es. may_end e)"
      using Cons.IH [OF h(2)] by blast
    with h False driver_run_append [OF t(3) h(3)] show ?thesis by auto
  qed
qed

section \<open>Properties\<close>

lemma pops_main_ok:
  "\<exists>d c. pops_main L env i POPS0 flags0 sock = Inr d \<and> clt_instance d = Some c
    \<and> environ d ''TZ'' = Some ''UTC0'' \<and> POPS c = POPS0\<lparr>P_Srvr := 0\<rparr>"
  by (simp add: pops_main_def UserPkts_UDP_def POPS_client_def Let_def)

text \<open>
  C14: The POPS driver from \<open>main\<close> on. Whatever comes (datagrams, replies, commands,
  synchronisations, failures and ends of the connection, in any order and with any bytes), every
  handler returns: the single client that \<open>main\<close> creates is there when the others use it, and no
  assertion fails. The loop ends only by a \<open>Q\<close> or a \<open>reset()\<close> that asks for it. The writers of the
  shared telemetry record do not disturb each other: \<open>Stale\<close> is the number of synchronisations
  since the last line that was accepted, saturated at 255; the instrument's members only change
  when a line is accepted; the server's status is 0 until it has replied, and again after a
  timeout or the end of the connection; and times are read as UTC.
\<close>

theorem pops_session:
  assumes "pops_lib_ok L"
  shows "\<exists>d0 ls running d c. pops_main L env i POPS0 flags0 sock = Inr d0
    \<and> pops_loop L es d0 = Some (Inr (ls, running, d)) \<and> clt_instance d = Some c
    \<and> (\<not> running \<longrightarrow> (\<exists>e \<in> set es. may_end e))
    \<and> unat (P_Stale (POPS c)) = fold next_stale ls (unat (P_Stale POPS0))
    \<and> (Line True \<notin> set ls \<longrightarrow> instrument_data (POPS c) = instrument_data POPS0)
    \<and> (Reply \<notin> set ls \<or> last ls \<in> {Timeout, Eof} \<longrightarrow> P_Srvr (POPS c) = 0)
    \<and> environ d ''TZ'' = Some ''UTC0''"
proof -
  note lib = assms [unfolded pops_lib_ok_def]
  obtain d0 c0 where d0: "pops_main L env i POPS0 flags0 sock = Inr d0" "clt_instance d0 = Some c0"
    "environ d0 ''TZ'' = Some ''UTC0''" "POPS c0 = POPS0\<lparr>P_Srvr := 0\<rparr>"
    using pops_main_ok [of L env i POPS0 flags0 sock] by auto
  obtain ls running d c where run: "pops_loop L es d0 = Some (Inr (ls, running, d))"
    "clt_instance d = Some c" "pops_run L ls c0 c" "environ d = environ d0"
    "\<not> running \<longrightarrow> (\<exists>e \<in> set es. may_end e)"
    using pops_loop_ok [OF assms d0(2)] by blast
  have "P_Stale (POPS c0) = P_Stale POPS0" "instrument_data (POPS c0) = instrument_data POPS0"
    "P_Srvr (POPS c0) = 0"
    using d0(4) by (simp_all add: instrument_data_def)
  with driver_run_effect [OF _ _ _ _ run(3)] lib d0 run show ?thesis by force
qed

definition plain_pops_lib :: "(int \<times> byte, byte, byte list, unit) pops_lib" where
  "plain_pops_lib = \<lparr>pops_dasio = plain_dasio, pops_parse = decimal_parse_ops,
     pops_chan = open_chan, pops_sock = up_sock, pops_Fl_Timeout = 8, pops_gflag0 = 16,
     pops_reset = (\<lambda>i. (False, i))\<rparr>"

lemma plain_pops_lib_ok: "pops_lib_ok plain_pops_lib"
  by (simp add: pops_lib_ok_def plain_pops_lib_def)

lemma tm_sync_goes_on: "fst (tm_sync C K F c) = False"
  by (simp add: tm_sync_def app_connected_def Let_def)

text \<open>Two synchronisations, the end of the connection, \<open>Q\<close>, and a synchronisation too late.\<close>

theorem pops_session_witness:
  "\<exists>d0 d c. pops_main plain_pops_lib Map.empty () plain_POPS 0 [] = Inr d0
    \<and> pops_loop plain_pops_lib [TM_sync, TM_sync, Clt_eof, Cmd_read [0x51], TM_sync] d0
      = Some (Inr ([Sync, Sync, Eof, Command], False, d))
    \<and> clt_instance d = Some c \<and> unat (P_Stale (POPS c)) = 2 \<and> environ d ''TZ'' = Some ''UTC0''"
proof -
  let ?es = "[TM_sync, TM_sync, Clt_eof, Cmd_read [0x51], TM_sync] :: byte pops_event list"
  obtain d0 ls running d c where s: "pops_main plain_pops_lib Map.empty () plain_POPS 0 [] = Inr d0"
    "pops_loop plain_pops_lib ?es d0 = Some (Inr (ls, running, d))" "clt_instance d = Some c"
    "unat (P_Stale (POPS c)) = fold next_stale ls (unat (P_Stale plain_POPS))"
    "environ d ''TZ'' = Some ''UTC0''"
    using pops_session [OF plain_pops_lib_ok, of Map.empty "()" plain_POPS 0 "[]" ?es] by blast
  obtain c0 where c0: "clt_instance d0 = Some c0"
    using s(1) by (auto simp: pops_main_def UserPkts_UDP_def POPS_client_def Let_def)
  have "ls = [Sync, Sync, Eof, Command] \<and> \<not> running"
    using s(2) c0
    by (auto simp: case_prod_unfold tm_sync_goes_on cmd_app_input_def app_process_eof_def Let_def)
  then show ?thesis using s by (auto simp: next_stale_def plain_POPS_def)
qed

end
