(* ===== verification/PopsLink.thy ===== *)
theory PopsLink
  imports PopsAnswers PopsSystem "HOL-Library.Sublist"
begin

text \<open>
  The POPS driver and the POPS server together: the two programs joined by TCP connections, with the
  other clients of the server, datagrams, commands, timeouts and lost connections in any order.
\<close>

section \<open>The two programs joined\<close>

text \<open>
  \<open>lk_made\<close> are the driver's connections as the server numbers them, in the order in which they were
  made, \<open>lk_conn\<close> the one the driver holds. \<open>lk_up\<close> is what is on its way to the server, for every
  connection, as the server may still read from one that the driver has left; \<open>lk_down\<close> is
  on its way to the driver. The driver's part stops when one of its handlers returns true.
\<close>

record ('d, 'f, 'o, 'i, 'q, 'u) pops_link =
  lk_drv :: "('d, 'f, 'o, 'i) pops_driver"
  lk_running :: bool
  lk_srv :: "('q, 'u) pops_server"
  lk_made :: "nat list"
  lk_conn :: "nat option"
  lk_up :: "nat \<Rightarrow> byte list"
  lk_down :: "byte list"

text \<open>What both use of the library; \<open>lk_w\<close> and \<open>lk_w2\<close> are what an output side has been given.\<close>

record ('d, 'f, 'o, 'i, 'q, 'u) link_lib =
  lk_lib :: "('d, 'f, 'o, 'i) pops_lib"
  lk_w :: "'o \<Rightarrow> byte list"
  lk_chan :: "'q chan_ops"
  lk_sd :: "'u chan_ops"
  lk_w2 :: "'q \<Rightarrow> byte list"

definition sent_by :: "('o \<Rightarrow> byte list) \<Rightarrow> ('d, 'f, 'o, 'i) pops_driver \<Rightarrow> byte list" where
  "sent_by w d = (case clt_instance d of None \<Rightarrow> [] | Some c \<Rightarrow> w (csock c))"

definition answered :: "('q \<Rightarrow> byte list) \<Rightarrow> ('q, 'u) pops_server \<Rightarrow> nat \<Rightarrow> byte list" where
  "answered w2 p k = (case ps_clients p k of None \<Rightarrow> [] | Some (s, out) \<Rightarrow> w2 out)"

text \<open>A call of a handler, with what it has added to the bytes on their way.\<close>

definition drv_call ::
  "('d, 'f, 'o, 'i, 'q, 'u) link_lib \<Rightarrow> 'f pops_event \<Rightarrow> ('d, 'f, 'o, 'i, 'q, 'u) pops_link \<Rightarrow>
   (fault + ('d, 'f, 'o, 'i, 'q, 'u) pops_link) option" where
  "drv_call Q e l =
     (case pops_handle (lk_lib Q) e (lk_drv l) of
        None \<Rightarrow> None
      | Some (Inl f) \<Rightarrow> Some (Inl f)
      | Some (Inr (ls, rv, d)) \<Rightarrow>
          let new = drop (length (sent_by (lk_w Q) (lk_drv l))) (sent_by (lk_w Q) d)
          in Some (Inr (l\<lparr>lk_drv := d, lk_running := \<not> rv,
               lk_up := (case lk_conn l of None \<Rightarrow> lk_up l
                  | Some k \<Rightarrow> (lk_up l)(k := lk_up l k @ new))\<rparr>)))"

definition srv_call ::
  "('d, 'f, 'o, 'i, 'q, 'u) link_lib \<Rightarrow> 'q ps_event \<Rightarrow> ('d, 'f, 'o, 'i, 'q, 'u) pops_link \<Rightarrow>
   fault + ('d, 'f, 'o, 'i, 'q, 'u) pops_link" where
  "srv_call Q e l =
     map_sum id (\<lambda>p. l\<lparr>lk_srv := p, lk_down := (case lk_conn l of None \<Rightarrow> lk_down l
         | Some k \<Rightarrow> lk_down l @ drop (length (answered (lk_w2 Q) (lk_srv l) k)) (answered (lk_w2 Q) p k))\<rparr>)
       (ps_handle (pops_dasio (lk_lib Q)) (lk_chan Q) (lk_sd Q) e (lk_srv l))"

text \<open>
  The events. \<open>Connect sk out\<close>: the connection is made, with the driver's socket as \<open>sk\<close> and the
  server's new output side \<open>out\<close>. \<open>Up k n\<close>, \<open>Down n\<close>: a read of \<open>n\<close> bytes by the server, by the
  driver. \<open>Sock sk\<close>: the library works on the driver's socket. \<open>Others\<close>: the rest of the server's
  events, those of its other clients.
\<close>

datatype ('f, 'o, 'q) link_event =
    Driver "'f pops_event" | Sock 'o | Connect 'o 'q | Up nat nat | Down nat | Others "'q ps_event"

definition leave :: "('d, 'f, 'o, 'i, 'q, 'u) pops_link \<Rightarrow> ('d, 'f, 'o, 'i, 'q, 'u) pops_link" where
  "leave l = l\<lparr>lk_conn := None, lk_down := []\<rparr>"

definition with_sock :: "'o \<Rightarrow> ('d, 'f, 'o, 'i) pops_driver \<Rightarrow> ('d, 'f, 'o, 'i) pops_driver" where
  "with_sock sk d = d\<lparr>clt_instance := map_option (\<lambda>c. c\<lparr>csock := sk\<rparr>) (clt_instance d)\<rparr>"

fun link_handle ::
  "('d, 'f, 'o, 'i, 'q, 'u) link_lib \<Rightarrow> ('f, 'o, 'q) link_event \<Rightarrow> ('d, 'f, 'o, 'i, 'q, 'u) pops_link \<Rightarrow>
   (fault + ('d, 'f, 'o, 'i, 'q, 'u) pops_link) option" where
  "link_handle Q (Driver e) l =
     map_option (map_sum id (\<lambda>l. if e \<in> {Clt_timeout, Clt_eof} then leave l else l)) (drv_call Q e l)"
| "link_handle Q (Sock sk) l = Some (Inr (l\<lparr>lk_drv := with_sock sk (lk_drv l)\<rparr>))"
| "link_handle Q (Connect sk out) l =
     (case srv_call Q (Ps_accept out) l of
        Inl f \<Rightarrow> Some (Inl f)
      | Inr l' \<Rightarrow>
          let k = ps_next (lk_srv l)
          in drv_call Q Clt_connected (l'\<lparr>lk_drv := with_sock sk (lk_drv l), lk_made := lk_made l @ [k],
               lk_conn := Some k, lk_up := (lk_up l)(k := []), lk_down := []\<rparr>))"
| "link_handle Q (Up k n) l =
     Some (srv_call Q (Ps_read k (take n (lk_up l k))) (l\<lparr>lk_up := (lk_up l)(k := drop n (lk_up l k))\<rparr>))"
| "link_handle Q (Down n) l =
     drv_call Q (Clt_read (take n (lk_down l))) (l\<lparr>lk_down := drop n (lk_down l)\<rparr>)"
| "link_handle Q (Others e) l = Some (srv_call Q e l)"

fun link_enabled ::
  "('d, 'f, 'o, 'i, 'q, 'u) link_lib \<Rightarrow> ('f, 'o, 'q) link_event \<Rightarrow> ('d, 'f, 'o, 'i, 'q, 'u) pops_link \<Rightarrow>
   bool" where
  "link_enabled Q (Driver e) l \<longleftrightarrow>
     lk_running l \<and> (case e of Clt_connected \<Rightarrow> False | Clt_read bs \<Rightarrow> False | _ \<Rightarrow> True)"
| "link_enabled Q (Sock sk) l \<longleftrightarrow> lk_running l \<and> lk_w Q sk = sent_by (lk_w Q) (lk_drv l)"
| "link_enabled Q (Connect sk out) l \<longleftrightarrow> lk_running l \<and> lk_conn l = None
     \<and> lk_w Q sk = sent_by (lk_w Q) (lk_drv l) \<and> lk_w2 Q out = []"
| "link_enabled Q (Up k n) l \<longleftrightarrow>
     k \<in> set (lk_made l) \<and> ps_clients (lk_srv l) k \<noteq> None \<and> 0 < n \<and> n \<le> length (lk_up l k)"
| "link_enabled Q (Down n) l \<longleftrightarrow>
     lk_running l \<and> lk_conn l \<noteq> None \<and> 0 < n \<and> n \<le> length (lk_down l)"
| "link_enabled Q (Others e) l \<longleftrightarrow> ps_enabled (lk_w2 Q) e (lk_srv l)
     \<and> (case e of Ps_read c bs \<Rightarrow> c \<notin> set (lk_made l) | _ \<Rightarrow> True)"

definition link_main ::
  "('d, 'f, 'o, 'i, 'q, 'u) link_lib \<Rightarrow> (string \<rightharpoonup> string) \<Rightarrow> 'i \<Rightarrow> ('d, 'f) POPS_t \<Rightarrow> u32 \<Rightarrow> 'o \<Rightarrow>
   (nat \<Rightarrow> 'u \<Rightarrow> 'u) \<Rightarrow> 'u \<Rightarrow> fault + ('d, 'f, 'o, 'i, 'q, 'u) pops_link" where
  "link_main Q env i POPS0 flags0 sock connect_later sd =
     map_sum id (\<lambda>d. \<lparr>lk_drv = d, lk_running = True, lk_srv = ps_main connect_later sd, lk_made = [],
         lk_conn = None, lk_up = (\<lambda>_. []), lk_down = []\<rparr>)
       (pops_main (lk_lib Q) env i POPS0 flags0 sock)"

abbreviation link_run ::
  "('d, 'f, 'o, 'i, 'q, 'u) link_lib \<Rightarrow> ('d, 'f, 'o, 'i, 'q, 'u) pops_link \<Rightarrow>
   ('f, 'o, 'q) link_event list \<Rightarrow> ('d, 'f, 'o, 'i, 'q, 'u) pops_link \<Rightarrow> bool" where
  "link_run Q \<equiv> runs (link_enabled Q) (link_handle Q)"

text \<open>Starting and ending a connection takes nothing from what the socket was given.\<close>

definition sock_keeps :: "'o sock_ops \<Rightarrow> ('o \<Rightarrow> byte list) \<Rightarrow> bool" where
  "sock_keeps K w \<longleftrightarrow> (\<forall>to fl sk. w (snd (snd (snd (reset_op K (to, fl, sk))))) = w sk
     \<and> (\<forall>t. w (snd (snd (connect_later_op K t (to, fl, sk)))) = w sk))"

definition link_lib_ok ::
  "('d, 'f, 'o, 'i, 'q, 'u) link_lib \<Rightarrow> ('u \<Rightarrow> byte list) \<Rightarrow> bool" where
  "link_lib_ok Q stops \<longleftrightarrow> pops_lib_ok (lk_lib Q) \<and> appends (pops_chan (lk_lib Q)) (lk_w Q)
     \<and> sock_keeps (pops_sock (lk_lib Q)) (lk_w Q) \<and> appends (lk_chan Q) (lk_w2 Q) \<and> appends (lk_sd Q) stops"

section \<open>The server's side\<close>

lemma reads_of_snoc:
  "\<exists>cs d. reads_of (es @ [e]) = reads_of es @ (case e of Ps_read c bs \<Rightarrow> [(c, cs, d)] | _ \<Rightarrow> [])"
proof -
  obtain n left rs where "fold spec_step es (0, (\<lambda>_. []), []) = (n, left, rs)" by (metis prod_cases3)
  moreover obtain cs d l where "read_commands (left (case e of Ps_read c bs \<Rightarrow> c | _ \<Rightarrow> 0)
      @ (case e of Ps_read c bs \<Rightarrow> bs | _ \<Rightarrow> [])) = (cs, d, l)" by (metis prod_cases3)
  ultimately show ?thesis by (cases e) (auto simp: reads_of_def)
qed

lemma server_step:
  assumes L: "consumes D" "appends C w2" "appends U stops"
    and run: "ps_run D C U w2 (ps_main cl sd) es p" and en: "ps_enabled w2 e p"
  obtains p' where "ps_handle D C U e p = Inr p'" "ps_run D C U w2 (ps_main cl sd) (es @ [e]) p'"
    "ps_next p \<le> ps_next p'"
    "\<forall>k < ps_next p. answers k (reads_of (es @ [e])) initial_status
       = answers k (reads_of es) initial_status @ drop (length (answered w2 p k)) (answered w2 p' k)"
proof -
  obtain n left rs where sp: "fold spec_step es (0, (\<lambda>_. []), []) = (n, left, rs)" by (metis prod_cases3)
  obtain n' left' rs' where sp': "fold spec_step (es @ [e]) (0, (\<lambda>_. []), []) = (n', left', rs')"
    by (metis prod_cases3)
  note M = ps_matchesD [OF ps_run_matches [OF run L, unfolded sp]]
  obtain p' where p': "ps_handle D C U e p = Inr p'"
    using ps_step_matches [OF L ps_run_matches [OF run L] en] by blast
  then have run': "ps_run D C U w2 (ps_main cl sd) (es @ [e]) p'" by (intro runs.go [OF run en]) simp
  note M' = ps_matchesD [OF ps_run_matches [OF run' L, unfolded sp']]
  have rs: "reads_of es = rs" "reads_of (es @ [e]) = rs'" by (simp_all add: reads_of_def sp sp' del: fold_append)
  obtain cs d where rs': "rs' = rs @ (case e of Ps_read c bs \<Rightarrow> [(c, cs, d)] | _ \<Rightarrow> [])"
    using reads_of_snoc [of es e] by (auto simp: rs)
  have "answers k rs' initial_status
      = answers k rs initial_status @ drop (length (answered w2 p k)) (answered w2 p' k)"
    if k: "k < ps_next p" for k
  proof (cases "ps_clients p k")
    case None
    then have "ps_clients p' k = None" "\<forall>bs. e \<noteq> Ps_read k bs"
      using p' k en by (cases e; auto simp: ps_read_def Let_def split: option.splits prod.splits if_splits)+
    then show ?thesis using rs' None by (cases e) (auto simp: answers_append answered_def Let_def)
  next
    case (Some so)
    then have before: "answered w2 p k = answers k rs initial_status"
      using M(6) [of k "fst so" "snd so"] by (auto simp: answered_def split: prod.splits)
    show ?thesis
    proof (cases "ps_clients p' k")
      case None
      then have "e = Ps_gone k"
        using p' k en Some
        by (cases e) (auto simp: ps_read_def Let_def split: option.splits prod.splits if_splits)
      then show ?thesis using None rs' by (simp add: answered_def)
    next
      case (Some so')
      then have "answered w2 p' k = answers k rs' initial_status"
        using M'(6) [of k "fst so'" "snd so'"] by (auto simp: answered_def split: prod.splits)
      then show ?thesis by (simp add: before rs' answers_append)
    qed
  qed
  moreover have "ps_next p \<le> ps_next p'"
    using p' by (cases e) (auto simp: ps_read_def Let_def split: option.splits prod.splits)
  ultimately show thesis using that p' run' by (simp add: rs)
qed

section \<open>The driver's side\<close>

lemma forward_written:
  "appends C w \<Longrightarrow> \<exists>bs. w (csock (forward C K F cmd c)) = w (csock c) @ bs"
  by (auto simp: forward_def Let_def appends_iwrite)

lemma timeout_sock:
  "sock_keeps K w \<Longrightarrow> w (csock (snd (protocol_timeout K c))) = w (csock c)
    \<and> P_Srvr (POPS (snd (protocol_timeout K c))) = 0"
  by (simp add: protocol_timeout_def sock_keeps_def case_prod_unfold Let_def)

lemma eof_sock:
  "sock_keeps K w \<Longrightarrow> w (csock (snd (app_process_eof K c))) = w (csock c)
    \<and> P_Srvr (POPS (snd (app_process_eof K c))) = 0"
  by (simp add: app_process_eof_def sock_keeps_def case_prod_unfold Let_def)

lemma connected_sends:
  "appends C w \<Longrightarrow> \<exists>bs. w (csock (snd (app_connected C K F c))) = w (csock c) @ bs
    \<and> POPS (snd (app_connected C K F c)) = POPS c"
  using forward_written [of C w K F _ c] by (auto simp: app_connected_def Let_def)

lemma tm_sync_sends:
  assumes "appends C w"
  shows "\<exists>bs. w (csock (snd (tm_sync C K F c))) = w (csock c) @ bs
    \<and> P_Srvr (POPS (snd (tm_sync C K F c))) = P_Srvr (POPS c)"
proof -
  obtain x where "(if P_Stale (POPS c) < 255 then c\<lparr>POPS := (POPS c)\<lparr>P_Stale := P_Stale (POPS c) + 1\<rparr>\<rparr> else c)
      = c\<lparr>POPS := (POPS c)\<lparr>P_Stale := x\<rparr>\<rparr>" 
    using that [of "if P_Stale (POPS c) < 255 then P_Stale (POPS c) + 1 else P_Stale (POPS c)"] by auto
  then show ?thesis
    using connected_sends [OF assms, of K F "c\<lparr>POPS := (POPS c)\<lparr>P_Stale := x\<rparr>\<rparr>"]
    by (auto simp: tm_sync_def Let_def)
qed

lemma udp_keeps_Srvr: "udp_protocol_input D P l0 s p = (s', p') \<Longrightarrow> P_Srvr p' = P_Srvr p"
  using udp_accepted [of D P l0 s p] udp_not_accepted [of D P l0 s p] by (cases "accepted D P l0 s") auto

lemma driver_call:
  assumes L: "pops_lib_ok L" and w: "appends (pops_chan L) w" "sock_keeps (pops_sock L) w"
    and c: "clt_instance d = Some c"
  obtains ls rv d' c' where "pops_handle L e d = Some (Inr (ls, rv, d'))" "clt_instance d' = Some c'"
    "\<exists>bs. w (csock c') = w (csock c) @ bs"
    "P_Srvr (POPS c') = (case e of Clt_timeout \<Rightarrow> 0 | Clt_eof \<Rightarrow> 0
       | Clt_read bs \<Rightarrow> if line_digits bs then fold shown_step bs (P_Srvr (POPS c)) else P_Srvr (POPS c') | _ \<Rightarrow> P_Srvr (POPS c))"
proof -
  obtain ls rv d' c' where h: "pops_handle L e d = Some (Inr (ls, rv, d'))" "clt_instance d' = Some c'"
    using pops_handle_ok [OF L c] by blast
  note fw = forward_written [OF w(1)]
  have "(\<exists>bs. w (csock c') = w (csock c) @ bs)
    \<and> P_Srvr (POPS c') = (case e of Clt_timeout \<Rightarrow> 0 | Clt_eof \<Rightarrow> 0
       | Clt_read bs \<Rightarrow> if line_digits bs then fold shown_step bs (P_Srvr (POPS c)) else P_Srvr (POPS c') | _ \<Rightarrow> P_Srvr (POPS c))"
  proof (cases e)
    case (Pkts_read bs l0)
    then show ?thesis using h c by (auto simp: Let_def udp_keeps_Srvr split: prod.splits)
  next
    case (Clt_read bs)
    then show ?thesis
      using h c client_app_input_returns [of "pops_dasio L" "pops_parse L" "pops_Fl_Timeout L" "\<lparr>ibuf = bs, cp = 0\<rparr>" c]
        client_reads_shown [of "pops_dasio L" "pops_parse L" bs "pops_Fl_Timeout L" c]
        L by (auto simp: pops_lib_ok_def only_Srvr_def)
  next
    case (Cmd_read bs)
    then show ?thesis using h c fw
      by (auto simp: cmd_app_input_def split: if_splits)
  next
    case TM_sync
    then have "c' = snd (tm_sync (pops_chan L) (pops_sock L) (pops_Fl_Timeout L) c)"
      using h c by (auto split: prod.splits)
    then show ?thesis using TM_sync tm_sync_sends [OF w(1)] by simp
  next
    case Clt_connected
    then show ?thesis using h c fw by (auto simp: app_connected_def Let_def)
  next
    case Clt_timeout
    then show ?thesis using h c timeout_sock [OF w(2), of c] by (auto split: prod.splits)
  next
    case Clt_eof
    then show ?thesis using h c eof_sock [OF w(2), of c] by (auto split: prod.splits)
  qed (use h c in \<open>auto simp: connect_failed_def split: prod.splits\<close>)
  then have "\<exists>bs. w (csock c') = w (csock c) @ bs" "P_Srvr (POPS c') = (case e of Clt_timeout \<Rightarrow> 0
      | Clt_eof \<Rightarrow> 0 | Clt_read bs \<Rightarrow> if line_digits bs then fold shown_step bs (P_Srvr (POPS c)) else P_Srvr (POPS c') | _ \<Rightarrow> P_Srvr (POPS c))" by blast+
  with that h show thesis by blast
qed

section \<open>The invariant\<close>

text \<open>
  The server's part is a run of the server by itself; what it has read and may still read of the
  driver's connections, in their order, is among what the driver has sent, in its order; and the
  driver shows the last status it has received on its connection, or 0.
\<close>

definition upward :: "'q ps_event list \<Rightarrow> ('d, 'f, 'o, 'i, 'q, 'u) pops_link \<Rightarrow> byte list" where
  "upward ses l = concat (map (\<lambda>k. client_bytes k ses @ lk_up l k) (lk_made l))"

definition shows_answers ::
  "'q ps_event list \<Rightarrow> ('d, 'f, 'o) clt \<Rightarrow> nat option \<Rightarrow> byte list \<Rightarrow> bool" where
  "shows_answers ses c conn down \<longleftrightarrow>
     (case conn of None \<Rightarrow> P_Srvr (POPS c) = 0
      | Some k \<Rightarrow> \<exists>got. answers k (reads_of ses) initial_status = got @ down
          \<and> P_Srvr (POPS c) = fold shown_step got 0)"

definition link_rel ::
  "('d, 'f, 'o, 'i, 'q, 'u) link_lib \<Rightarrow> (nat \<Rightarrow> 'u \<Rightarrow> 'u) \<Rightarrow> 'u \<Rightarrow> 'q ps_event list \<Rightarrow>
   ('d, 'f, 'o) clt \<Rightarrow> ('d, 'f, 'o, 'i, 'q, 'u) pops_link \<Rightarrow> bool" where
  "link_rel Q cl sd ses c l \<longleftrightarrow>
     ps_run (pops_dasio (lk_lib Q)) (lk_chan Q) (lk_sd Q) (lk_w2 Q) (ps_main cl sd) ses (lk_srv l)
   \<and> clt_instance (lk_drv l) = Some c
   \<and> set (lk_made l) \<subseteq> {..<ps_next (lk_srv l)} \<and> distinct (lk_made l)
   \<and> (\<forall>k. lk_conn l = Some k \<longrightarrow> lk_made l \<noteq> [] \<and> last (lk_made l) = k)
   \<and> subseq (upward ses l) (lk_w Q (csock c))
   \<and> shows_answers ses c (lk_conn l) (lk_down l)"

lemma link_relD:
  assumes "link_rel Q cl sd ses c l"
  shows "ps_run (pops_dasio (lk_lib Q)) (lk_chan Q) (lk_sd Q) (lk_w2 Q) (ps_main cl sd) ses (lk_srv l)"
    "clt_instance (lk_drv l) = Some c" "set (lk_made l) \<subseteq> {..<ps_next (lk_srv l)}" "distinct (lk_made l)"
    "\<And>k. lk_conn l = Some k \<Longrightarrow> lk_made l \<noteq> [] \<and> last (lk_made l) = k"
    "subseq (upward ses l) (lk_w Q (csock c))" "shows_answers ses c (lk_conn l) (lk_down l)"
  using assms by (simp_all add: link_rel_def)

lemma upward_sends:
  assumes "distinct (lk_made l)" and "lk_made l \<noteq> []"
  shows "upward ses (l\<lparr>lk_up := (lk_up l)(last (lk_made l) := lk_up l (last (lk_made l)) @ bs)\<rparr>)
    = upward ses l @ bs"
proof -
  obtain ks k where ks: "lk_made l = ks @ [k]" using assms(2) by (metis append_butlast_last_id)
  then have "k \<notin> set ks" using assms(1) by simp
  then have "concat (map (\<lambda>j. client_bytes j ses @ (if j = k then lk_up l k @ bs else lk_up l j)) ks)
      = concat (map (\<lambda>j. client_bytes j ses @ lk_up l j) ks)"
    by (intro arg_cong [where f = concat] map_cong) auto
  then show ?thesis by (simp add: upward_def ks)
qed

lemma drv_call_rel:
  assumes Q: "link_lib_ok Q stops" and rel: "link_rel Q cl sd ses c l"
  obtains l' c' where "drv_call Q e l = Some (Inr l')" "clt_instance (lk_drv l') = Some c'"
    "lk_srv l' = lk_srv l" "lk_made l' = lk_made l" "lk_conn l' = lk_conn l" "lk_down l' = lk_down l"
    "subseq (upward ses l') (lk_w Q (csock c'))"
    "P_Srvr (POPS c') = (case e of Clt_timeout \<Rightarrow> 0 | Clt_eof \<Rightarrow> 0
       | Clt_read bs \<Rightarrow> if line_digits bs then fold shown_step bs (P_Srvr (POPS c)) else P_Srvr (POPS c')
       | _ \<Rightarrow> P_Srvr (POPS c))"
proof -
  note lib = Q [unfolded link_lib_ok_def] and R = link_relD [OF rel]
  have dl: "pops_lib_ok (lk_lib Q)" "appends (pops_chan (lk_lib Q)) (lk_w Q)"
    "sock_keeps (pops_sock (lk_lib Q)) (lk_w Q)" using lib by simp_all
  obtain ls rv d' c' where h: "pops_handle (lk_lib Q) e (lk_drv l) = Some (Inr (ls, rv, d'))"
    "clt_instance d' = Some c'" "\<exists>bs. lk_w Q (csock c') = lk_w Q (csock c) @ bs"
    "P_Srvr (POPS c') = (case e of Clt_timeout \<Rightarrow> 0 | Clt_eof \<Rightarrow> 0
       | Clt_read bs \<Rightarrow> if line_digits bs then fold shown_step bs (P_Srvr (POPS c)) else P_Srvr (POPS c')
       | _ \<Rightarrow> P_Srvr (POPS c))"
    by (rule driver_call [OF dl R(2)])
  obtain bs where bs: "lk_w Q (csock c') = lk_w Q (csock c) @ bs" using h(3) by blast
  have new: "drop (length (sent_by (lk_w Q) (lk_drv l))) (sent_by (lk_w Q) d') = bs"
    by (simp add: sent_by_def h(2) bs R(2))
  define l' where "l' = l\<lparr>lk_drv := d', lk_running := \<not> rv, lk_up := (case lk_conn l of None \<Rightarrow> lk_up l
    | Some k \<Rightarrow> (lk_up l)(k := lk_up l k @ bs))\<rparr>"
  have call: "drv_call Q e l = Some (Inr l')" by (simp add: drv_call_def h(1) new l'_def split: option.split)
  have "subseq (upward ses l @ bs) (lk_w Q (csock c'))" "subseq (upward ses l) (lk_w Q (csock c'))"
    using R(6) bs by (auto intro: list_emb_append_mono list_emb_append2)
  moreover have "upward ses l' = (case lk_conn l of None \<Rightarrow> upward ses l | Some k \<Rightarrow> upward ses l @ bs)"
    using R(4,5) upward_sends [of l ses bs] by (cases "lk_conn l") (auto simp: l'_def upward_def)
  ultimately have "subseq (upward ses l') (lk_w Q (csock c'))" by (simp split: option.splits)
  then show thesis using that [OF call, of c'] h(2,4) by (simp add: l'_def)
qed

lemma srv_call_rel:
  assumes Q: "link_lib_ok Q stops" and rel: "link_rel Q cl sd ses c l"
    and en: "ps_enabled (lk_w2 Q) e (lk_srv l)"
  obtains l' p' where "srv_call Q e l = Inr l'" "l' = l\<lparr>lk_srv := p', lk_down := lk_down l'\<rparr>"
    "ps_run (pops_dasio (lk_lib Q)) (lk_chan Q) (lk_sd Q) (lk_w2 Q) (ps_main cl sd) (ses @ [e]) p'"
    "ps_next (lk_srv l) \<le> ps_next p'" "shows_answers (ses @ [e]) c (lk_conn l) (lk_down l')"
    "lk_conn l = None \<longrightarrow> lk_down l' = lk_down l"
proof -
  note lib = Q [unfolded link_lib_ok_def pops_lib_ok_def] and R = link_relD [OF rel]
  have sl: "consumes (pops_dasio (lk_lib Q))" "appends (lk_chan Q) (lk_w2 Q)" "appends (lk_sd Q) stops"
    using lib by simp_all
  obtain p' where p': "ps_handle (pops_dasio (lk_lib Q)) (lk_chan Q) (lk_sd Q) e (lk_srv l) = Inr p'"
    "ps_run (pops_dasio (lk_lib Q)) (lk_chan Q) (lk_sd Q) (lk_w2 Q) (ps_main cl sd) (ses @ [e]) p'"
    "ps_next (lk_srv l) \<le> ps_next p'"
    "\<forall>k < ps_next (lk_srv l). answers k (reads_of (ses @ [e])) initial_status
       = answers k (reads_of ses) initial_status
         @ drop (length (answered (lk_w2 Q) (lk_srv l) k)) (answered (lk_w2 Q) p' k)"
    by (rule server_step [OF sl R(1) en])
  define down where "down = (case lk_conn l of None \<Rightarrow> lk_down l
         | Some k \<Rightarrow> lk_down l @ drop (length (answered (lk_w2 Q) (lk_srv l) k)) (answered (lk_w2 Q) p' k))"
  have "shows_answers (ses @ [e]) c (lk_conn l) down"
  proof (cases "lk_conn l")
    case None
    then show ?thesis using R(7) by (simp add: shows_answers_def)
  next
    case (Some k)
    then have "k < ps_next (lk_srv l)" using R(3,5) last_in_set by blast
    then show ?thesis using R(7) p'(4) Some by (fastforce simp: shows_answers_def down_def)
  qed
  moreover have "srv_call Q e l = Inr (l\<lparr>lk_srv := p', lk_down := down\<rparr>)"
    by (simp add: srv_call_def p'(1) down_def)
  ultimately show thesis using that [of "l\<lparr>lk_srv := p', lk_down := down\<rparr>" p'] p'(2,3)
    by (simp add: down_def)
qed

lemma srv_call_up:
  "srv_call Q e (l\<lparr>lk_up := u\<rparr>) = map_sum id (\<lambda>l'. l'\<lparr>lk_up := u\<rparr>) (srv_call Q e l)"
  by (cases "ps_handle (pops_dasio (lk_lib Q)) (lk_chan Q) (lk_sd Q) e (lk_srv l)"; cases "lk_conn l")
    (simp_all add: srv_call_def)

lemma drv_call_down:
  "drv_call Q e (l\<lparr>lk_down := x\<rparr>) = map_option (map_sum id (\<lambda>l'. l'\<lparr>lk_down := x\<rparr>)) (drv_call Q e l)"
  by (simp add: drv_call_def Let_def split: option.splits sum.splits)

lemma new_connection:
  assumes L: "consumes D" "appends C w2" "appends U stops"
    and run: "ps_run D C U w2 (ps_main cl sd) es p" and k: "ps_next p \<le> k"
  shows "client_bytes k es = [] \<and> answers k (reads_of es) initial_status = []"
proof -
  obtain n left rs where sp: "fold spec_step es (0, (\<lambda>_. []), []) = (n, left, rs)" by (metis prod_cases3)
  note M = ps_matchesD [OF ps_run_matches [OF run L, unfolded sp]]
  have "k \<notin> fst ` set rs" using M(1,5) k by auto
  then have "answers k (reads_of es) initial_status = []" by (simp add: reads_of_def sp answers_other)
  moreover have "client_bytes k es = []" using client_stream [OF run L, of k] M(1) k by (simp add: sp)
  ultimately show ?thesis by simp
qed

lemma upward_event:
  "\<forall>k \<in> set (lk_made l). client_bytes k [e] = [] \<Longrightarrow> upward (ses @ [e]) l = upward ses l"
  by (auto simp: upward_def intro!: arg_cong [where f = concat] map_cong)

lemma shows_answers_same:
  "shows_answers ses c conn down \<Longrightarrow> P_Srvr (POPS c') = P_Srvr (POPS c) \<Longrightarrow> shows_answers ses c' conn down"
  by (simp add: shows_answers_def split: option.splits)

lemma connect_rel:
  assumes Q: "link_lib_ok Q stops" and rel: "link_rel Q cl sd ses c l"
    and en: "link_enabled Q (Connect sk out) l"
  shows "\<exists>l' c'. link_handle Q (Connect sk out) l = Some (Inr l')
    \<and> link_rel Q cl sd (ses @ [Ps_accept out]) c' l'"
proof -
  note lib = Q [unfolded link_lib_ok_def pops_lib_ok_def] and R = link_relD [OF rel]
  have sl: "consumes (pops_dasio (lk_lib Q))" "appends (lk_chan Q) (lk_w2 Q)" "appends (lk_sd Q) stops"
    using lib by simp_all
  let ?k = "ps_next (lk_srv l)" and ?c = "c\<lparr>csock := sk\<rparr>" and ?ses = "ses @ [Ps_accept out]"
  obtain l1 p1 where l1: "srv_call Q (Ps_accept out) l = Inr l1" "l1 = l\<lparr>lk_srv := p1, lk_down := lk_down l1\<rparr>"
    "ps_run (pops_dasio (lk_lib Q)) (lk_chan Q) (lk_sd Q) (lk_w2 Q) (ps_main cl sd) ?ses p1"
    by (rule srv_call_rel [OF Q rel, of "Ps_accept out"]) (use en in simp_all)
  have p1: "ps_next p1 = ?k + 1" using l1(1) arg_cong [OF l1(2), of lk_srv] by (auto simp: srv_call_def)
  define l2 where "l2 = l1\<lparr>lk_drv := with_sock sk (lk_drv l), lk_made := lk_made l @ [?k],
      lk_conn := Some ?k, lk_up := (lk_up l)(?k := []), lk_down := []\<rparr>"
  have l2: "lk_srv l2 = p1" "lk_made l2 = lk_made l @ [?k]" "lk_conn l2 = Some ?k" "lk_down l2 = []"
    "lk_drv l2 = with_sock sk (lk_drv l)" "lk_up l2 = (lk_up l)(?k := [])"
    using arg_cong [OF l1(2), of lk_srv] by (simp_all add: l2_def)
  note new = new_connection [OF sl R(1) order.refl]
  have "concat (map (\<lambda>j. client_bytes j ?ses @ (if j = ?k then [] else lk_up l j)) (lk_made l))
      = upward ses l"
    using R(3) by (auto simp: upward_def intro!: arg_cong [where f = concat] map_cong)
  then have up: "upward ?ses l2 = upward ses l" using new by (simp add: upward_def l2(2,6))
  have "reads_of ?ses = reads_of ses" using reads_of_snoc [of ses "Ps_accept out"] by simp
  then have "shows_answers ?ses ?c (Some ?k) []"
    using R(7) en new by (simp add: shows_answers_def)
  moreover have "lk_w Q sk = lk_w Q (csock c)" using en by (simp add: sent_by_def R(2))
  ultimately have "link_rel Q cl sd ?ses ?c l2"
    using R(2-4,6) l1(3) p1 up by (auto simp: link_rel_def l2 with_sock_def)
  note rel2 = this and R2 = link_relD [OF this]
  obtain l' c' where l': "drv_call Q Clt_connected l2 = Some (Inr l')" "clt_instance (lk_drv l') = Some c'"
    "lk_srv l' = lk_srv l2" "lk_made l' = lk_made l2" "lk_conn l' = lk_conn l2" "lk_down l' = lk_down l2"
    "subseq (upward ?ses l') (lk_w Q (csock c'))" "P_Srvr (POPS c') = P_Srvr (POPS ?c)"
    by (rule drv_call_rel [OF Q rel2, of Clt_connected]) simp
  have "link_rel Q cl sd ?ses c' l'"
    using R2 l'(2-7) shows_answers_same [OF R2(7) l'(8)] by (simp add: link_rel_def)
  moreover have "link_handle Q (Connect sk out) l = Some (Inr l')"
    using l'(1) by (simp add: l1(1) l2_def Let_def)
  ultimately show ?thesis by blast
qed

lemma driver_rel:
  assumes Q: "link_lib_ok Q stops" and rel: "link_rel Q cl sd ses c l" and en: "link_enabled Q (Driver e) l"
  shows "\<exists>l' c'. link_handle Q (Driver e) l = Some (Inr l') \<and> link_rel Q cl sd ses c' l'"
proof -
  note R = link_relD [OF rel]
  obtain l1 c1 where l1: "drv_call Q e l = Some (Inr l1)" "clt_instance (lk_drv l1) = Some c1"
    "lk_srv l1 = lk_srv l" "lk_made l1 = lk_made l" "lk_conn l1 = lk_conn l" "lk_down l1 = lk_down l"
    "subseq (upward ses l1) (lk_w Q (csock c1))"
    "P_Srvr (POPS c1) = (case e of Clt_timeout \<Rightarrow> 0 | Clt_eof \<Rightarrow> 0
       | Clt_read bs \<Rightarrow> if line_digits bs then fold shown_step bs (P_Srvr (POPS c)) else P_Srvr (POPS c1)
       | _ \<Rightarrow> P_Srvr (POPS c))"
    by (rule drv_call_rel [OF Q rel])
  show ?thesis
  proof (cases "e \<in> {Clt_timeout, Clt_eof}")
    case True
    then have "link_rel Q cl sd ses c1 (leave l1)"
      using R(1,3,4) l1(2-4,7,8) by (auto simp: link_rel_def leave_def shows_answers_def upward_def)
    then show ?thesis using True l1(1) by auto
  next
    case False
    then have "P_Srvr (POPS c1) = P_Srvr (POPS c)" using l1(8) en by (cases e) auto
    then have "link_rel Q cl sd ses c1 l1"
      using R l1(2-7) shows_answers_same [OF R(7)] by (simp add: link_rel_def)
    then show ?thesis using False l1(1) by auto
  qed
qed

lemma down_rel:
  assumes Q: "link_lib_ok Q stops" and rel: "link_rel Q cl sd ses c l" and en: "link_enabled Q (Down n) l"
  shows "\<exists>l' c'. link_handle Q (Down n) l = Some (Inr l') \<and> link_rel Q cl sd ses c' l'"
proof -
  note R = link_relD [OF rel]
  let ?bs = "take n (lk_down l)"
  obtain k got where k: "lk_conn l = Some k" "answers k (reads_of ses) initial_status = got @ ?bs @ drop n (lk_down l)"
    "P_Srvr (POPS c) = fold shown_step got 0"
    using R(7) en by (auto simp: shows_answers_def split: option.splits)
  have "line_digits ?bs"
    using whole_lines_answers [of k "reads_of ses" initial_status] k(2) line_digits_append
    unfolding whole_lines_def by metis
  obtain l1 c1 where l1: "drv_call Q (Clt_read ?bs) l = Some (Inr l1)" "clt_instance (lk_drv l1) = Some c1"
    "lk_srv l1 = lk_srv l" "lk_made l1 = lk_made l" "lk_conn l1 = lk_conn l" "lk_down l1 = lk_down l"
    "subseq (upward ses l1) (lk_w Q (csock c1))"
    "P_Srvr (POPS c1) = fold shown_step ?bs (P_Srvr (POPS c))"
    by (rule drv_call_rel [OF Q rel, of "Clt_read ?bs"]) (simp add: \<open>line_digits ?bs\<close>)
  have "shows_answers ses c1 (Some k) (drop n (lk_down l))"
    using k(2,3) l1(8) unfolding shows_answers_def
    by (auto intro!: exI [of _ "got @ ?bs"])
  then have "link_rel Q cl sd ses c1 (l1\<lparr>lk_down := drop n (lk_down l)\<rparr>)"
    using R(1,3-5) l1(2-5,7) k(1) by (simp add: link_rel_def upward_def)
  then show ?thesis by (auto simp: drv_call_down l1(1))
qed

lemma up_rel:
  assumes Q: "link_lib_ok Q stops" and rel: "link_rel Q cl sd ses c l" and en: "link_enabled Q (Up k n) l"
  shows "\<exists>l'. link_handle Q (Up k n) l = Some (Inr l')
    \<and> link_rel Q cl sd (ses @ [Ps_read k (take n (lk_up l k))]) c l'"
proof -
  note R = link_relD [OF rel]
  let ?e = "Ps_read k (take n (lk_up l k))" and ?u = "(lk_up l)(k := drop n (lk_up l k))"
  obtain l1 p1 where l1: "srv_call Q ?e l = Inr l1" "l1 = l\<lparr>lk_srv := p1, lk_down := lk_down l1\<rparr>"
    "ps_run (pops_dasio (lk_lib Q)) (lk_chan Q) (lk_sd Q) (lk_w2 Q) (ps_main cl sd) (ses @ [?e]) p1"
    "ps_next (lk_srv l) \<le> ps_next p1" "shows_answers (ses @ [?e]) c (lk_conn l) (lk_down l1)"
    by (rule srv_call_rel [OF Q rel, of ?e]) (use en in simp_all)
  have "upward (ses @ [?e]) (l\<lparr>lk_up := ?u\<rparr>) = upward ses l"
    by (auto simp: upward_def intro!: arg_cong [where f = concat] map_cong)
  moreover have "upward (ses @ [?e]) (l1\<lparr>lk_up := ?u\<rparr>) = upward (ses @ [?e]) (l\<lparr>lk_up := ?u\<rparr>)"
    by (subst l1(2)) (simp add: upward_def)
  ultimately have "link_rel Q cl sd (ses @ [?e]) c (l1\<lparr>lk_up := ?u\<rparr>)"
    using R l1(3-5) arg_cong [OF l1(2), of lk_srv] arg_cong [OF l1(2), of lk_drv]
      arg_cong [OF l1(2), of lk_made] arg_cong [OF l1(2), of lk_conn]
    by (auto simp: link_rel_def)
  then show ?thesis by (simp add: srv_call_up l1(1))
qed

lemma others_rel:
  assumes Q: "link_lib_ok Q stops" and rel: "link_rel Q cl sd ses c l" and en: "link_enabled Q (Others e) l"
  shows "\<exists>l'. link_handle Q (Others e) l = Some (Inr l') \<and> link_rel Q cl sd (ses @ [e]) c l'"
proof -
  note R = link_relD [OF rel]
  obtain l1 p1 where l1: "srv_call Q e l = Inr l1" "l1 = l\<lparr>lk_srv := p1, lk_down := lk_down l1\<rparr>"
    "ps_run (pops_dasio (lk_lib Q)) (lk_chan Q) (lk_sd Q) (lk_w2 Q) (ps_main cl sd) (ses @ [e]) p1"
    "ps_next (lk_srv l) \<le> ps_next p1" "shows_answers (ses @ [e]) c (lk_conn l) (lk_down l1)"
    by (rule srv_call_rel [OF Q rel, of e]) (use en in simp_all)
  have "\<forall>k \<in> set (lk_made l). client_bytes k [e] = []" using en by (cases e) auto
  then have "upward (ses @ [e]) l1 = upward ses l"
    using upward_event by (subst l1(2)) (simp add: upward_def)
  then have "link_rel Q cl sd (ses @ [e]) c l1"
    using R l1(3-5) arg_cong [OF l1(2), of lk_srv] arg_cong [OF l1(2), of lk_drv]
      arg_cong [OF l1(2), of lk_made] arg_cong [OF l1(2), of lk_conn]
    by (auto simp: link_rel_def)
  then show ?thesis using l1(1) by simp
qed

lemma sock_rel:
  assumes rel: "link_rel Q cl sd ses c l" and en: "link_enabled Q (Sock sk) l"
  shows "\<exists>l' c'. link_handle Q (Sock sk) l = Some (Inr l') \<and> link_rel Q cl sd ses c' l'"
proof -
  note R = link_relD [OF rel]
  have "lk_w Q sk = lk_w Q (csock c)" using en by (simp add: sent_by_def R(2))
  then have "link_rel Q cl sd ses (c\<lparr>csock := sk\<rparr>) (l\<lparr>lk_drv := with_sock sk (lk_drv l)\<rparr>)"
    using R shows_answers_same [OF R(7), of "c\<lparr>csock := sk\<rparr>"]
    by (auto simp: link_rel_def with_sock_def upward_def)
  then show ?thesis by auto
qed

lemma link_step:
  assumes Q: "link_lib_ok Q stops" and rel: "link_rel Q cl sd ses c l" and en: "link_enabled Q e l"
  shows "\<exists>l' ses' c'. link_handle Q e l = Some (Inr l') \<and> link_rel Q cl sd ses' c' l'"
proof (cases e)
  case (Driver e1)
  then show ?thesis using driver_rel [OF Q rel, of e1] en by blast
next
  case (Sock sk)
  then show ?thesis using sock_rel [OF rel, of sk] en by blast
next
  case (Connect sk out)
  then show ?thesis using connect_rel [OF Q rel, of sk out] en by blast
next
  case (Up k n)
  then show ?thesis using up_rel [OF Q rel, of k n] en by blast
next
  case (Down n)
  then show ?thesis using down_rel [OF Q rel, of n] en by blast
next
  case (Others e1)
  then show ?thesis using others_rel [OF Q rel, of e1] en by blast
qed

interpretation pops_link_loop: loop_invariant "link_enabled Q" "link_handle Q"
    "\<lambda>l. link_lib_ok Q stops \<and> (\<exists>ses c. link_rel Q cl sd ses c l)" "\<lambda>e p. False" "\<lambda>e p f. False"
  for Q :: "('d, 'f, 'o, 'i, 'q, 'u) link_lib" and stops cl sd
proof unfold_locales
  fix e and l :: "('d, 'f, 'o, 'i, 'q, 'u) pops_link"
  assume "link_lib_ok Q stops \<and> (\<exists>ses c. link_rel Q cl sd ses c l)" and "link_enabled Q e l"
  then obtain ses c l' ses' c' where "link_lib_ok Q stops" "link_handle Q e l = Some (Inr l')"
    "link_rel Q cl sd ses' c' l'" using link_step [of Q stops cl sd _ _ l e] by blast
  then show "outcome False (link_handle Q e l) (\<lambda>f. False)
      (\<lambda>l. link_lib_ok Q stops \<and> (\<exists>ses c. link_rel Q cl sd ses c l))" by auto
qed

section \<open>Properties\<close>

text \<open>
  C7: The POPS driver and its server together, from both \<open>main\<close>s on. Whatever the connections, the
  other clients, the operator, the instrument and the library do, the next event is handled without
  a fault. What the server has read over the driver's connections, in the order they were made, is
  among what the driver has sent, in the same order: no command is invented, repeated or reordered
  within a connection. And the status that the telemetry shows is one that the server has had, or 0:
  without a connection it is 0, and with one it is the last status among the answers that have come
  back, so that the answers to the driver's own commands, and those only, decide what is shown.
\<close>

theorem status_shown_is_true:
  assumes "link_lib_ok Q stops" and "link_main Q env i POPS0 flags0 sock connect_later sd = Inr l0"
    and "link_run Q l0 es l"
  shows "(link_enabled Q e l \<longrightarrow> (\<exists>l'. link_handle Q e l = Some (Inr l')))
    \<and> (\<exists>ses c. ps_run (pops_dasio (lk_lib Q)) (lk_chan Q) (lk_sd Q) (lk_w2 Q) (ps_main connect_later sd)
          ses (lk_srv l)
        \<and> clt_instance (lk_drv l) = Some c
        \<and> subseq (concat (map (\<lambda>k. client_bytes k ses) (lk_made l))) (lk_w Q (csock c))
        \<and> (case lk_conn l of None \<Rightarrow> P_Srvr (POPS c) = 0
           | Some k \<Rightarrow> \<exists>got. answers k (reads_of ses) initial_status = got @ lk_down l
               \<and> P_Srvr (POPS c) = fold shown_step got 0)
        \<and> (P_Srvr (POPS c) = 0 \<or> (\<exists>st \<in> statuses (reads_of ses). P_Srvr (POPS c) = of_nat (status_num st))))"
proof -
  obtain d0 c0 where main: "pops_main (lk_lib Q) env i POPS0 flags0 sock = Inr d0"
    "clt_instance d0 = Some c0" "P_Srvr (POPS c0) = 0"
    using pops_main_ok [of "lk_lib Q" env i POPS0 flags0 sock] by auto
  have l0: "lk_drv l0 = d0" "lk_srv l0 = ps_main connect_later sd" "lk_made l0 = []" "lk_conn l0 = None"
    using assms(2) by (auto simp: link_main_def main(1))
  have "link_rel Q connect_later sd [] c0 l0"
    by (simp add: link_rel_def l0 main(2,3) runs.stop upward_def shows_answers_def)
  then have ok: "\<exists>ses c. link_rel Q connect_later sd ses c l0" by blast
  obtain ses c where rel: "link_rel Q connect_later sd ses c l"
    using pops_link_loop.run_inv [OF assms(3), of stops connect_later sd] assms(1) ok by blast
  note R = link_relD [OF rel]
  have "subseq (concat (map (\<lambda>k. client_bytes k ses) ks)) (concat (map (\<lambda>k. client_bytes k ses @ lk_up l k) ks))"
    for ks by (induction ks) (auto intro: list_emb_append_mono list_emb_append2)
  then have "subseq (concat (map (\<lambda>k. client_bytes k ses) (lk_made l))) (lk_w Q (csock c))"
    using R(6) subseq_order.trans unfolding upward_def by blast
  moreover have "P_Srvr (POPS c) = 0 \<or> (\<exists>st \<in> statuses (reads_of ses). P_Srvr (POPS c) = of_nat (status_num st))"
    using R(7) shown_status unfolding shows_answers_def by (fastforce split: option.splits)
  ultimately show ?thesis
    using R(1,2,7) link_step [OF assms(1) rel] unfolding shows_answers_def by blast
qed

section \<open>Witnesses\<close>

definition plain_link :: "(int \<times> byte, byte, byte list, unit, byte list, byte list) link_lib" where
  "plain_link = \<lparr>lk_lib = plain_pops_lib, lk_w = (\<lambda>out. out), lk_chan = open_chan, lk_sd = open_chan,
     lk_w2 = (\<lambda>out. out)\<rparr>"

lemma plain_link_ok: "link_lib_ok plain_link (\<lambda>out. out)"
  using plain_pops_lib_ok
  by (simp add: link_lib_ok_def plain_link_def plain_pops_lib_def sock_keeps_def up_sock_def)

lemma plain_sock [simp]: "is_negotiated_op up_sock out" "iwrite_op open_chan bs out = (False, out @ bs)"
  "set_retries_op up_sock i j k out = out" "set_connect_timeout_op up_sock j out = out"
  by (simp_all add: up_sock_def open_chan_def)

text \<open>
  The driver connects, which asks for the status; the operator starts the software; the server
  reads both lines at once and answers, and the driver reads the answer.
\<close>

definition start_session :: "(byte, byte list, byte list) link_event list" where
  "start_session = [Connect [] [], Driver (Cmd_read [0x42, 0x0A]), Up 0 4, Down 2]"

lemma start_connect:
  assumes "link_main plain_link Map.empty () plain_POPS 0 [] (\<lambda>_ u. u) [] = Inr l0"
  obtains l1 where "link_run plain_link l0 [Connect [] [], Driver (Cmd_read [0x42, 0x0A])] l1"
    "lk_conn l1 = Some 0" "lk_made l1 = [0]" "lk_up l1 0 = [0x56, 0x0A, 0x42, 0x0A]" "lk_down l1 = []"
    "lk_running l1" "ps_clients (lk_srv l1) 0 = Some (\<lparr>ibuf = [], cp = 0\<rparr>, [])"
    "ps_status (lk_srv l1) = POPS_idle"
    "\<exists>c. clt_instance (lk_drv l1) = Some c"
proof -
  note [simp] = plain_link_def plain_pops_lib_def link_main_def pops_main_def UserPkts_UDP_def
    POPS_client_def Let_def sent_by_def answered_def drv_call_def srv_call_def with_sock_def
    app_connected_def forward_def c_string_def cmd_app_input_def new_pops_socket_def ps_main_def
    initial_status_def
  let ?e1 = "Connect [] []" and ?e2 = "Driver (Cmd_read [0x42, 0x0A]) :: (byte, byte list, byte list) link_event"
  obtain l c where l: "link_handle plain_link ?e1 l0 = Some (Inr l)" "link_enabled plain_link ?e1 l0"
    "lk_conn l = Some 0" "lk_made l = [0]" "lk_up l 0 = [0x56, 0x0A]" "lk_down l = []"
    "lk_running l" "ps_clients (lk_srv l) 0 = Some (\<lparr>ibuf = [], cp = 0\<rparr>, [])"
    "ps_status (lk_srv l) = POPS_idle" "clt_instance (lk_drv l) = Some c"
    using assms by auto
  have "link_run plain_link l0 [?e1] l" by (rule runs_one) (rule l(2), rule l(1))
  moreover obtain l1 where l1: "link_handle plain_link ?e2 l = Some (Inr l1)"
    "lk_conn l1 = Some 0" "lk_made l1 = [0]" "lk_up l1 0 = [0x56, 0x0A, 0x42, 0x0A]" "lk_down l1 = []"
    "lk_running l1" "ps_clients (lk_srv l1) 0 = Some (\<lparr>ibuf = [], cp = 0\<rparr>, [])"
    "ps_status (lk_srv l1) = POPS_idle" "\<exists>c. clt_instance (lk_drv l1) = Some c"
    using l by (auto simp: fun_upd_def)
  ultimately have "link_run plain_link l0 ([?e1] @ [?e2]) l1"
    using l(7) by (intro runs.go) simp_all
  with l1 that show thesis by simp
qed

theorem status_shown_is_true_witness:
  "\<exists>l0 l c. link_main plain_link Map.empty () plain_POPS 0 [] (\<lambda>_ u. u) [] = Inr l0
    \<and> link_run plain_link l0 start_session l \<and> clt_instance (lk_drv l) = Some c
    \<and> ps_status (lk_srv l) = POPS_active \<and> P_Srvr (POPS c) = 2"
proof -
  obtain l0 where l0: "link_main plain_link Map.empty () plain_POPS 0 [] (\<lambda>_ u. u) [] = Inr l0"
    using pops_main_ok [of plain_pops_lib Map.empty "()" plain_POPS 0 "[]"]
    by (auto simp: link_main_def plain_link_def)
  obtain l1 where l1: "link_run plain_link l0 [Connect [] [], Driver (Cmd_read [0x42, 0x0A])] l1"
    "lk_conn l1 = Some 0" "lk_made l1 = [0]" "lk_up l1 0 = [0x56, 0x0A, 0x42, 0x0A]" "lk_down l1 = []"
    "lk_running l1" "ps_clients (lk_srv l1) 0 = Some (\<lparr>ibuf = [], cp = 0\<rparr>, [])"
    "ps_status (lk_srv l1) = POPS_idle" by (rule start_connect [OF l0])
  let ?up = "Up 0 4 :: (byte, byte list, byte list) link_event"
    and ?down = "Down 2 :: (byte, byte list, byte list) link_event"
  let ?v = "\<lparr>POPS_status = POPS_idle, schan = [], sdchan = ps_SD (lk_srv l1), systems = ps_systems (lk_srv l1)\<rparr>"
  obtain rv s' v' where srv: "srvr_protocol_input plain_dasio open_chan open_chan
      \<lparr>ibuf = [0x56, 0x0A, 0x42, 0x0A], cp = 0\<rparr> ?v = (rv, s', v')" by (rule prod_cases3)
  have v': "POPS_status v' = POPS_active" "schan v' = [0x32, 0x0A]"
    using srvr_read_any [OF plain_dasio_ok(1) open_chan_appends open_chan_appends _ _ srv,
      of "[0x56, 0x42]" False "[]"]
    by (simp_all add: next_status_def errors_of_def status_line_def)
  obtain l2 where l2: "link_handle plain_link ?up l1 = Some (Inr l2)" "lk_conn l2 = Some 0"
    "lk_running l2" "lk_down l2 = [0x32, 0x0A]" "ps_status (lk_srv l2) = POPS_active"
    using l1 srv v' by (auto simp: plain_link_def plain_pops_lib_def srv_call_def ps_read_def answered_def Let_def)
  have run2: "link_run plain_link l0 ([Connect [] [], Driver (Cmd_read [0x42, 0x0A])] @ [?up]) l2"
    using l1 l2(1) by (intro runs.go) auto
  have "link_enabled plain_link ?down l2" using l2 by simp
  then obtain l where l: "link_handle plain_link ?down l2 = Some (Inr l)"
    using status_shown_is_true [OF plain_link_ok l0 run2, of ?down] by blast
  then have run: "link_run plain_link l0 start_session l"
    using runs.go [OF run2 \<open>link_enabled plain_link ?down l2\<close> l] by (simp add: start_session_def)
  obtain c2 where c2: "clt_instance (lk_drv l2) = Some c2"
    using status_shown_is_true [OF plain_link_ok l0 run2, of ?down] by blast
  have "line_digits [0x32, 0x0A]" by (simp add: line_digits_def isdigit_def)
  note reads = client_reads_shown [OF plain_dasio_ok(1,4,2) decimal_reads_numbers this, of 8 c2]
  have "lk_srv l = lk_srv l2 \<and> (\<exists>c. clt_instance (lk_drv l) = Some c \<and> P_Srvr (POPS c) = 2)"
    using l l2(2-4) c2 reads
    by (auto simp: drv_call_def plain_link_def plain_pops_lib_def shown_step_def isdigit_def Let_def)
  then show ?thesis using l0 run l2(5) by auto
qed

end
