(* ===== verification/PopsCut.thy ===== *)
theory PopsCut
  imports PopsUdp
begin

text \<open>
  A datagram of the POPS instrument that ends inside a line. It is not discarded but stays in the
  buffer, in front of the next datagram, and both are lost.
\<close>

section \<open>The columns one by one\<close>

text \<open>The part of a line before the columns, and the columns, as the parser reads them.\<close>

definition head_segments ::
  "dasio \<Rightarrow> ('d, 'f) parse_ops \<Rightarrow> 'f printers \<Rightarrow> byte list \<Rightarrow> byte list \<Rightarrow> 'f pops_locals \<Rightarrow> 'f segment list" where
  "head_segments D P T sn fl l = take 10 (pops_segments D P T sn fl l)"

definition column_segments ::
  "dasio \<Rightarrow> ('d, 'f) parse_ops \<Rightarrow> 'f printers \<Rightarrow> byte list \<Rightarrow> byte list \<Rightarrow> 'f pops_locals \<Rightarrow> 'f segment list" where
  "column_segments D P T sn fl l = drop 10 (pops_segments D P T sn fl l)"

text \<open>Columns: each is a comma and a value.\<close>

fun columns :: "dasio \<Rightarrow> 'f segment list \<Rightarrow> byte list list \<Rightarrow> bool" where
  "columns D (c # x # xs) (t # ts) \<longleftrightarrow> c = s_str D [0x2C] \<and> fst (snd (snd x)) = t \<and> columns D xs ts"
| "columns D [] [] \<longleftrightarrow> True"
| "columns D _ _ \<longleftrightarrow> False"

lemma columns_of_line: "columns D (column_segments D P T sn fl l) (pops_columns T l)"
  by (simp add: column_segments_def pops_segments_def pops_columns_def s_field_def)

lemma columns_take:
  "columns D xs ts \<Longrightarrow> i < length ts \<Longrightarrow>
   text_of (take (2 * i) xs) e = concat (map (\<lambda>t. 0x2C # t) (take i ts)) @ e
   \<and> (\<exists>ys. drop (2 * i) xs = s_str D [0x2C] # ys)"
proof (induction D xs ts arbitrary: i rule: columns.induct)
  case (1 D c x xs t ts)
  then show ?case
  proof (cases i)
    case (Suc j)
    obtain b p t' put where x: "x = (b, p, t', put)" by (cases x)
    have "text_of (take (2 * j) xs) e = concat (map (\<lambda>t. 0x2C # t) (take j ts)) @ e
      \<and> (\<exists>ys. drop (2 * j) xs = s_str D [0x2C] # ys)"
      using 1 Suc by simp
    then show ?thesis using 1 Suc x by (simp add: segment_simps)
  qed simp
qed simp_all

lemma text_of_append: "text_of (xs @ ys) e = text_of xs (text_of ys e)"
  by (induction xs) auto

lemma text_of_end: "text_of xs e = text_of xs [] @ e"
  by (induction xs) auto

lemma segments_ok_append: "segments_ok (xs @ ys) e \<longleftrightarrow> segments_ok xs (text_of ys e) \<and> segments_ok ys e"
  by (induction xs) (auto simp: text_of_append)

text \<open>A separator may be another one.\<close>

lemma segments_ok_end: "segments_ok xs e \<Longrightarrow> sep e' \<Longrightarrow> segments_ok xs e'"
proof (induction xs)
  case (Cons x xs)
  obtain b p t put where x: "x = (b, p, t, put)" by (cases x)
  have "sep (text_of xs e')" if "sep (text_of xs e)"
  proof (cases "text_of xs [] = []")
    case True
    then show ?thesis using Cons.prems(2) by (subst text_of_end) simp
  next
    case False
    then show ?thesis using that by (subst text_of_end, subst (asm) text_of_end) (simp add: sep_def)
  qed
  then show ?case using Cons x by auto
qed simp

lemma run_chain_append:
  "run_chain (ps @ qs) y = (case run_chain ps y of (failed, y) \<Rightarrow> if failed then (True, y) else run_chain qs y)"
  by (induction ps arbitrary: y) (auto split: prod.splits)

section \<open>A line that is cut\<close>

text \<open>The first \<open>i\<close> columns of a line and what precedes them.\<close>

definition cut_line :: "'f printers \<Rightarrow> byte list \<Rightarrow> byte list \<Rightarrow> 'f pops_locals \<Rightarrow> nat \<Rightarrow> byte list" where
  "cut_line T sn fl l i =
     [0x50, 0x4F, 0x50, 0x53, 0x2C] @ sn @ [0x2C] @ fl @ [0x2C]
     @ pr_digits T 4 (v_year l) @ pr_digits T 2 (v_month l) @ pr_digits T 2 (v_day l) @ [0x54]
     @ pr_digits T 2 (v_hour l) @ pr_digits T 2 (v_minute l) @ pr_digits T 2 (v_second l)
     @ concat (map (\<lambda>t. 0x2C # t) (take i (pops_columns T l)))"

lemma cut_line_segments:
  assumes "i < length (pops_columns T l)"
  obtains xs ys where "pops_segments D P T sn fl l = xs @ s_str D [0x2C] # ys"
    "\<forall>e. text_of xs e = cut_line T sn fl l i @ e"
proof -
  let ?c = "column_segments D P T sn fl l" and ?h = "head_segments D P T sn fl l"
  note c = columns_take [OF columns_of_line [where D = D and P = P and T = T and sn = sn and fl = fl and l = l] assms]
  obtain ys where ys: "drop (2 * i) ?c = s_str D [0x2C] # ys" using c by blast
  have "pops_segments D P T sn fl l = ?h @ take (2 * i) ?c @ drop (2 * i) ?c"
    unfolding head_segments_def column_segments_def by (simp only: append_take_drop_id)
  moreover have "text_of (?h @ take (2 * i) ?c) e = cut_line T sn fl l i @ e" for e
  proof -
    have "text_of ?h e = cut_line T sn fl l 0 @ e" for e
      by (simp add: head_segments_def pops_segments_def segment_simps cut_line_def)
    then show ?thesis using c by (simp add: text_of_append cut_line_def)
  qed
  ultimately show thesis using that [of "?h @ take (2 * i) ?c" ys] ys by simp
qed

lemma cut_line_fails:
  assumes D: "matches_strings D" and P: "parses_back P T" and l: "dated l"
    and sn: "0x2C \<notin> set sn" "0x2C \<notin> set fl" and i: "i < length (pops_columns T l)"
    and e: "e = [] \<or> hd e = 0x50" and s: "ibuf s = cut_line T sn fl l i @ e"
  shows "\<exists>s' l'. run_chain (pops_chain D P) (s\<lparr>cp := 0\<rparr>, l0) = (True, s', l') \<and> ibuf s' = ibuf s
    \<and> (cp s' < nc s' \<longleftrightarrow> e \<noteq> [])"
proof -
  obtain xs ys where xs: "pops_segments D P T sn fl l = xs @ s_str D [0x2C] # ys"
    "\<forall>e. text_of xs e = cut_line T sn fl l i @ e" by (rule cut_line_segments [OF i, where D = D and P = P and sn = sn and fl = fl])
  have "segments_ok (pops_segments D P T sn fl l) []"
    by (rule pops_segments_ok [OF D P l sn]) (simp add: sep_def)
  then have "segments_ok xs e"
    using e segments_ok_end [of xs _ e] by (auto simp: xs(1) segments_ok_append sep_def)
  then obtain s1 l1 where s1: "run_chain (map operand_of xs) (s\<lparr>cp := 0\<rparr>, l0) = (False, s1, l1)"
    "ibuf s1 = ibuf s" "drop (cp s1) (ibuf s) = e"
    using run_chain_segments [of xs e "s\<lparr>cp := 0\<rparr>" l0] s xs(2) by auto
  have "match_len [0x2C] e = 0" using e by (cases e) auto
  then have "not_str_op D [0x2C] s1 = (True, s1)" using D s1(2,3) by (simp add: matches_strings_def)
  then have "run_chain (p_str D [0x2C] # map operand_of ys) (s1, l1) = (True, s1, l1)"
    by (simp add: p_str_def)
  then have "run_chain (pops_chain D P) (s\<lparr>cp := 0\<rparr>, l0) = (True, s1, l1)"
    using s1(1) by (simp add: pops_segments_ops [of D P T sn fl l, symmetric] xs(1) run_chain_append segment_simps)
  moreover have "cp s1 < nc s1 \<longleftrightarrow> e \<noteq> []" using s1(2,3) by auto
  ultimately show ?thesis using s1(2) by blast
qed

section \<open>Properties\<close>

text \<open>
  C37: A datagram that ends inside a line, right after the date or after a whole column other than
  the last, costs two lines. Nothing of it is stored, and it is not discarded, as the parser has met
  the end of the buffer and not a wrong byte; the next datagram, whatever follows its first letter
  \<open>P\<close>, is read behind it, fails there, and is discarded with it. The telemetry record does not change,
  although a line has come whole, and only the line after that is recorded. (A cut inside a number
  is not covered: what the parser makes of the first digits depends on the number. In the last
  column it is a shorter number, and the line is stored, \<open>pops_line_recorded\<close>.)
\<close>

theorem cut_line_costs_next:
  assumes "consumes D" "matches_strings D" and "parses_back P T" and "dated l"
    and "0x2C \<notin> set sn" "0x2C \<notin> set fl" and "i < length (pops_columns T l)"
    and "ibuf s = cut_line T sn fl l i" and "hd next_line = 0x50" and "next_line \<noteq> []"
  shows "\<exists>s1 s2. udp_protocol_input D P l0 s POPS = (s1, POPS) \<and> ibuf s1 = ibuf s
    \<and> udp_protocol_input D P l1 (s1\<lparr>ibuf := ibuf s1 @ next_line\<rparr>) POPS = (s2, POPS) \<and> ibuf s2 = []"
proof -
  note cut = cut_line_fails [OF assms(2-7)]
  obtain s1 l' where s1: "run_chain (pops_chain D P) (s\<lparr>cp := 0\<rparr>, l0) = (True, s1, l')" "ibuf s1 = ibuf s"
    "\<not> cp s1 < nc s1"
    using cut [of "[]" s l0] assms(8) by auto
  let ?s = "s1\<lparr>ibuf := ibuf s1 @ next_line\<rparr>"
  obtain s2 l'' where s2: "run_chain (pops_chain D P) (?s\<lparr>cp := 0\<rparr>, l1) = (True, s2, l'')" "cp s2 < nc s2"
    using cut [of next_line ?s l1] assms(8-10) s1(2) by auto
  have "consume_op D (nc s2) s2 = consumed (nc s2) s2" using assms(1) by (simp add: consumes_def)
  then show ?thesis
    using s1 s2 by (simp add: udp_protocol_input_def consumed_def)
qed

text \<open>The line of 28 March 2025 cut after its third column, and the same line again, whole.\<close>

theorem cut_line_costs_next_witness:
  "\<exists>s1 s2. udp_protocol_input plain_dasio plain_parse_ops plain_locals
       \<lparr>ibuf = cut_line plain_printers [0x31] [0x32, 0x33] plain_locals 3, cp = 0\<rparr> plain_POPS
       = (s1, plain_POPS)
     \<and> ibuf s1 = cut_line plain_printers [0x31] [0x32, 0x33] plain_locals 3
     \<and> udp_protocol_input plain_dasio plain_parse_ops plain_locals
         (s1\<lparr>ibuf := ibuf s1 @ pops_line plain_printers [0x31] [0x32, 0x33] plain_locals\<rparr>) plain_POPS
       = (s2, plain_POPS)
     \<and> ibuf s2 = []"
proof -
  have "dated plain_locals" by (simp add: dated_def plain_locals_def)
  then show ?thesis
    using cut_line_costs_next [of plain_dasio plain_parse_ops plain_printers plain_locals "[0x31]" "[0x32, 0x33]"
        3 "\<lparr>ibuf = cut_line plain_printers [0x31] [0x32, 0x33] plain_locals 3, cp = 0\<rparr>"
        "pops_line plain_printers [0x31] [0x32, 0x33] plain_locals" plain_locals plain_POPS plain_locals]
    by (simp add: plain_parses_back pops_columns_def pops_line_def)
qed

end
