(* ===== verification/Spec2Isabelle.thy ===== *)
theory Spec2Isabelle
  imports XioEndToEnd NphLink PopsLink PopsCut
begin

text \<open>
  Verification library for the C++ programs of the COSMID instrument computer: the Xiomas imager
  link, the nephelometer link with its emulator, and the POPS driver with its server.

  \<^bold>\<open>The programs.\<close> Each is a set of event handlers on top of the DAS_IO library: an object owns a
  socket, the library appends what arrives to its input buffer and calls \<open>protocol_input\<close> (or
  \<open>app_input\<close>), and calls \<open>protocol_timeout\<close>, \<open>process_eof\<close>, \<open>connected\<close> and \<open>tm_sync\<close> on the other
  events. Handlers are translated one by one, as functions from the state before to the state
  after; a return value true (a fatal error for the library) is kept. A theory per program then
  composes them: the state holds all objects, \<open>main\<close> builds the first state, events carry what the
  event loop delivers, and a run is any sequence of events that the library can bring about.

  \<^bold>\<open>Theories and sources.\<close>
  \<^item> \<open>Prelude\<close>, \<open>StreamReader\<close>, \<open>ByteFifo\<close>: machine types, the faults, unsigned 32-bit arithmetic,
    little-endian fields, byte sums; the locale \<open>stream_scan\<close> (a stream cut into events, read by
    read) and the locale \<open>byte_fifo\<close> (queued bytes leave in order).
  \<^item> \<open>EventLoop\<close>: runs of a program, and the locales \<open>loop_simulation\<close> (a run follows a specification)
    and \<open>loop_invariant\<close>, interpreted by every program; a handler may fault, or not return, where
    the program says so.
  \<^item> \<open>Dasio\<close>: what is used of DAS_IO, as records of operations and named hypotheses on them.
  \<^item> \<open>XioPacket\<close>: \<open>Xiomas/XioHarvGatewayPacket.h\<close> and \<open>.cpp\<close>, the packet header of the imager.
  \<^item> \<open>XioRing\<close>, \<open>CtrlInput\<close>, \<open>XioTcpExport\<close>, \<open>XioTcpRcvr\<close>, \<open>XioUdp\<close>: \<open>Xiomas/xiomas_export.h\<close> and
    \<open>.cc\<close>, namely the circular buffer, the input loop of the exporters, \<open>xiomas_tcp_export\<close>,
    \<open>xiomas_tcp_rcvr\<close>, and \<open>xiomas_udp_export\<close>, \<open>xiomas_udp_txmtr\<close>, \<open>xiomas_udp_rcvr\<close>.
    \<open>XioSystem\<close>: the program, with \<open>xiomas_tcp_svc\<close> and \<open>main\<close>. \<open>XioEndToEnd\<close>: its properties from one
    end to the other.
  \<^item> \<open>NphApid\<close>, \<open>NphExport\<close>, \<open>NphRcvr\<close>: \<open>Nephex/nephex_export.h\<close> and \<open>.cc\<close>, namely \<open>APid\<close>,
    \<open>nephex_tcp_export\<close>, \<open>nephex_tcp_rcvr\<close>. \<open>NphSystem\<close>: the program, with \<open>main\<close>.
  \<^item> \<open>NphEmulator\<close>: \<open>NE_ingest\<close> and \<open>nephex_tcp\<close> of \<open>Nephex/nephex_emulator.h\<close> and \<open>.cc\<close>.
    \<open>NphEmuSystem\<close>: the program, with \<open>nephex_tcp_svc\<close> and \<open>main\<close>. \<open>NphEmuReads\<close>: reads that end
    inside a packet. \<open>NphLink\<close>: emulator and nephelometer program joined by a TCP connection.
  \<^item> \<open>PopsData\<close>, \<open>PopsUdp\<close>: the telemetry record of \<open>POPS/POPS.h\<close> and \<open>UserPkts_UDP\<close> of
    \<open>POPS/POPS.cc\<close>. \<open>PopsCut\<close>: lines of the instrument that are cut. \<open>PopsClient\<close>: \<open>POPS_client\<close> and \<open>POPS_Cmd\<close> of \<open>POPS/POPS.cc\<close>. \<open>PopsDriver\<close>: what
    their handlers may change, in any order. \<open>PopsSystem\<close>: the program, with \<open>main\<close>.
  \<^item> \<open>PopsSrvr\<close>: \<open>pops_socket\<close> of \<open>BBB/srvr/POPS_srvr.h\<close> and \<open>.cc\<close>. \<open>PopsServer\<close>: the program, with
    any number of clients. \<open>PopsAnswers\<close>, \<open>PopsLink\<close>: driver and server joined by TCP connections.

  \<^bold>\<open>How the parts interact.\<close> On the Xiomas link the receiver cuts the stream of the imager into
  packets, logs them in pieces, hands the pieces to the exporter, which queues them with headers
  in the circular buffer and sends while \<open>tm_ip_export\<close> gives credit; when the queue has drained
  it calls \<open>ack\<close> on the receiver, which then asks the imager for more. The nephelometer receiver
  logs every packet and sends on what the decimation table and the credit allow; the emulator
  is a source of such packets. The POPS driver stores the lines of the instrument in a telemetry
  record, forwards the operator's commands to the server on the instrument computer, and stores
  the status that comes back in the same record.

  \<^bold>\<open>Correspondence.\<close> A class is a record of its data members; a structure read from memory is a
  record with its byte image. The input buffer (\<open>ibuf\<close>, \<open>cp\<close>) is passed separately, \<open>nc\<close> is
  its length. Fixed-width integers that wrap in the code are words, or natural numbers with
  \<open>add32\<close> and \<open>sub32\<close>; floating-point values are opaque, as the programs only copy them. A failed
  assertion or an access outside an object is \<open>Inl\<close> of a \<open>fault\<close>. A loop that ends by its own
  arithmetic is a terminating function; a loop whose progress depends on a library parameter is a
  \<open>partial_function\<close> in the option type, and that it returns is proved, or refuted, as a property.
  Members a constructor leaves uninitialised are arguments of its model. Effects outside the
  program are recorded in the state: bytes written (as the library's output state), calls of
  \<open>log_packet\<close>, \<open>ack\<close> and \<open>system\<close>. Diagnostics (\<open>msg\<close>, \<open>report_err\<close>) change nothing.

  \<^bold>\<open>What is shown.\<close>
  \<^item> Programs: from \<open>main\<close> on, over every sequence of events, the next handler returns, but for the
    one loop below. The Xiomas program has no fault at all when its uninitialised pointer was null,
    and the receiver owed an acknowledge is in memory; the nephelometer program has one, on a packet
    type outside its table; the emulator never uses a deleted connection, and its only faults are an
    assertion on recorded milliseconds and a read behind its buffer; the POPS driver has none. The
    loop is \<open>app_input\<close> of both exporters: it returns on every input but those with a packet of
    \<open>tm_ip_export\<close> that is not a control packet (\<open>meets_other\<close>), and there it does not when the
    recogniser presents the packet again (\<open>finds_again\<close>).
  \<^item> End to end: the image packet of a connection reaches the stream to \<open>tm_ip_export\<close> framed and
    complete, in any cut into reads and interleaved with all events but reads of other receivers and
    its own timeout; the queue drains as the peer acknowledges; a
    command reaches the server, is carried out, and its status comes back; a line of the POPS
    instrument reaches the telemetry record; a recording replayed by the emulator is logged by the
    receiver packet by packet, and with the two programs joined the packets arrive whole, in order and
    once, in any interleaving; the server refines one state machine over the commands of all
    its clients; with driver and server joined, the status in the telemetry is always the last one
    that the server has answered to the driver, or 0.
  \<^item> Circular buffer: no assertion fails and no index leaves the array; commits and transmissions
    that fit refine a byte queue (\<open>interpretation ring_fifo\<close>); a commit that must be split at the
    end of the array queues the wrong bytes.
  \<^item> Exporters: each call returns without a fault and keeps the invariant of credit and references
    (\<open>interpretation xte_acks\<close>, \<open>nte_acks\<close> of the input loop's contract); the queue drains in
    order; the header of a framed packet has a zero byte sum.
  \<^item> Receivers: they return on every input and refine pure scanners of the stream, so how the
    stream is cut into reads does not matter; a valid packet is logged whole; the decimation is
    exact; framing is inverted exactly; the known ways in which they stop or fault.
  \<^item> Packet header: filling and validating, detection of single-byte corruption, wrap-around.
  \<^item> UDP link: stop-and-wait export, flow control with an 8-bit counter.
  \<^item> What goes wrong: a second client of the emulator silences the first; a read that ends inside a
    packet makes the emulator send packets twice or lose one; a short packet at the end of its buffer
    makes it read behind it; a packet that is not a control packet stops an exporter for ever; the
    exporter's uninitialised pointer is called; a receiver stops after its first packet; a packet of length 0 blocks a connection;
    a timeout clears the wrong flags; two columns of a line are never stored, and a line that is
    cut after a column costs the next one as well.

  \<^bold>\<open>What is assumed of the library.\<close> The hypotheses are collected in \<open>lib_ok\<close>, \<open>nph_lib_ok\<close>,
  \<open>emu_lib_ok\<close>, \<open>pops_lib_ok\<close>, and \<open>nl_libs_ok\<close> and \<open>link_lib_ok\<close> for two programs, each met by an
  instance in the witnesses: \<open>consume\<close>, \<open>not_found\<close> and \<open>not_str\<close> do what they document; the
  parsers of numbers read back what is printed (\<open>parses_back\<close>); \<open>iwrite\<close> appends; the recogniser of packets presents what is in
  the buffer, of whatever type it is; \<open>reset\<close> leaves the members of the program's classes alone; an object is freed only
  after the loop has let it go and, on the Xiomas link, when no reference is held on it. Between
  two reads the library may leave \<open>cp\<close> or move it back to the start of the buffer, and the
  properties of the Xiomas program and the emulator hold for both; the other programs leave \<open>cp\<close> at
  0 themselves, except after \<open>reset\<close>. A connection between two programs delivers the bytes in
  order; a new one finds the receiver's buffer empty.

  \<^bold>\<open>Bounds.\<close> No fuel is used. The properties of the circular buffer hold for every size up to
  \<open>CIRC_BUFFER_SIZE\<close>, so that witnesses can use small ones; for the image packet the header of a
  piece is at most 248 bytes, so that the largest packet accepted fits the empty buffer. The queue
  drains in one acknowledge per 2000 bytes and one more: less than that is only ever outstanding
  when everything has left. Packets of the nephelometer are shorter than 64 kilobytes because the
  receive buffer is (50000 bytes), where a length is passed as \<open>uint16_t\<close>, and those of the emulator
  are shorter than its buffer of 1000 bytes; a read behind that buffer is a fault. The only signed
  counter, \<open>packets_dropped\<close>, is kept in 32 bits and exact below 2^31; its overflow after that, which
  C++ leaves undefined, wraps around and is not counted as a fault.

  \<^bold>\<open>Not modelled.\<close> The event loop, connecting, the \<open>Quit\<close> interface and option parsing, which belong
  to libraries outside the repository and are parameters or events; \<open>xhgShowHeader\<close>, \<open>msg\<close> and the
  destructors that only print; code under \<open>#if 0\<close>; \<open>Xiomas/gtorsys.h\<close> (portability macros) and
  \<open>Xiomas/save\<close> (an older copy of the packet files that are modelled); the telemetry description
  files, scripts and configurations.
\<close>

end
